(* ===== verification/Prelude.thy ===== *)
theory Prelude
  imports Main "HOL-Library.Word" "HOL-Library.Char_ord" "HOL-Library.List_Lexorder"
begin

text \<open>
  Shared material of the development: the machine types of the C++ sources, the parts of the
  C++ language and standard library that several components use (decimal printing, two's
  complement wrap-around of \<^verbatim>\<open>int\<close>, single-precision rounding, the byte view of
  \<^verbatim>\<open>std::string\<close>, the ordered insertion of \<^verbatim>\<open>std::map\<close>), and the generic lemmas and
  theorem collections the component theories build on.
\<close>

unbundle bit_operations_syntax

section \<open>Machine types\<close>

text \<open>
  \<^verbatim>\<open>unsigned char\<close> is \<open>byte\<close>, \<^verbatim>\<open>unsigned int\<close> is \<open>u32\<close>. A \<^verbatim>\<open>std::string\<close> is a
  \<open>string\<close>: a HOL character is exactly one byte. \<^verbatim>\<open>int\<close> and \<^verbatim>\<open>long\<close> are \<open>int\<close>, with
  \<open>wrap32\<close> written where the source can leave the 32-bit range.
\<close>

type_synonym byte = "8 word"
type_synonym u32 = "32 word"

definition wrap32 :: "int \<Rightarrow> int" where
  "wrap32 x = (x + 2 ^ 31) mod 2 ^ 32 - 2 ^ 31"

definition chr :: "byte \<Rightarrow> char" where
  "chr b = char_of (unat b)"

definition ord :: "char \<Rightarrow> byte" where
  "ord c = of_nat (of_char c)"

definition bytes_of :: "string \<Rightarrow> byte list" where
  "bytes_of s = map ord s"

definition string_of :: "byte list \<Rightarrow> string" where
  "string_of bs = map chr bs"

named_theorems byte_simps \<open>rewriting between characters, bytes and words\<close>
named_theorems wrap_simps \<open>two's complement wrap-around\<close>
named_theorems map_simps \<open>ordered association lists standing for std::map\<close>

section \<open>Strings and bytes\<close>

lemma unat_byte_less [simp]: "unat (b :: byte) < 256"
  using unsigned_less [of b, where 'a = nat] by simp

lemma ord_chr [simp, byte_simps]: "ord (chr b) = b"
  by (simp add: ord_def chr_def of_char_of)

lemma chr_ord [simp, byte_simps]: "chr (ord c) = c"
  by (simp add: ord_def chr_def unat_of_nat take_bit_eq_mod)

lemma chr_inject [simp, byte_simps]: "chr a = chr b \<longleftrightarrow> a = b"
  by (metis ord_chr)

lemma ord_inject [simp, byte_simps]: "ord a = ord b \<longleftrightarrow> a = b"
  by (metis chr_ord)

lemma string_of_bytes_of [simp, byte_simps]: "string_of (bytes_of s) = s"
  by (simp add: string_of_def bytes_of_def comp_def)

lemma bytes_of_string_of [simp, byte_simps]: "bytes_of (string_of bs) = bs"
  by (simp add: string_of_def bytes_of_def comp_def)

lemma length_bytes_of [simp, byte_simps]: "length (bytes_of s) = length s"
  by (simp add: bytes_of_def)

lemma length_string_of [simp, byte_simps]: "length (string_of bs) = length bs"
  by (simp add: string_of_def)

lemma string_of_append [simp, byte_simps]: "string_of (xs @ ys) = string_of xs @ string_of ys"
  by (simp add: string_of_def)

lemma bytes_of_append [simp, byte_simps]: "bytes_of (xs @ ys) = bytes_of xs @ bytes_of ys"
  by (simp add: bytes_of_def)

lemma string_of_Nil [simp]: "string_of [] = []"
  by (simp add: string_of_def)

lemma bytes_of_Nil [simp]: "bytes_of [] = []"
  by (simp add: bytes_of_def)

section \<open>Reasoning on the eight bits of a byte\<close>

lemma byte_bit_high [simp]: "8 \<le> n \<Longrightarrow> \<not> bit (a :: byte) n"
  using bit_imp_le_length [of a n] by auto

lemma byte_eqI:
  assumes "bit (a :: byte) 0 = bit b 0" and "bit a (Suc 0) = bit b (Suc 0)"
    and "bit a 2 = bit b 2" and "bit a 3 = bit b 3" and "bit a 4 = bit b 4"
    and "bit a 5 = bit b 5" and "bit a 6 = bit b 6" and "bit a 7 = bit b 7"
  shows "a = b"
proof (rule bit_word_eqI)
  fix n
  assume "n < LENGTH(8)"
  then consider "n = 0" | "n = Suc 0" | "n = 2" | "n = 3" | "n = 4" | "n = 5" | "n = 6" | "n = 7"
    by fastforce
  then show "bit a n = bit b n" by cases (use assms in simp_all)
qed

lemma u32_eqI:
  assumes "\<forall>n \<in> set [0 ..< 32]. bit (a :: u32) n = bit b n"
  shows "a = b"
  using assms by (intro bit_word_eqI) auto

lemma byte_add_or: "x AND y = 0 \<Longrightarrow> x + y = x OR (y :: byte)"
  by (simp add: disjunctive_add_eq_or)

section \<open>Decimal printing: std::to_string\<close>

definition digit_char :: "nat \<Rightarrow> char" where
  "digit_char d = char_of (48 + d)"

fun digits_of :: "nat \<Rightarrow> string" where
  "digits_of n = (if n < 10 then [digit_char n]
                  else digits_of (n div 10) @ [digit_char (n mod 10)])"

declare digits_of.simps [simp del]

definition to_string :: "int \<Rightarrow> string" where
  "to_string i = (if i < 0 then CHR ''-'' # digits_of (nat (- i)) else digits_of (nat i))"

definition digit_value :: "char \<Rightarrow> nat" where
  "digit_value c = of_char c - 48"

definition is_digit :: "char \<Rightarrow> bool" where
  "is_digit c \<longleftrightarrow> 48 \<le> (of_char c :: nat) \<and> (of_char c :: nat) \<le> 57"

definition digits_value :: "string \<Rightarrow> nat" where
  "digits_value s = fold (\<lambda>c n. 10 * n + digit_value c) s 0"

lemma of_char_digit_char: "d < 10 \<Longrightarrow> (of_char (digit_char d) :: nat) = 48 + d"
  by (simp add: digit_char_def of_char_of)

lemma is_digit_digit_char [simp]: "d < 10 \<Longrightarrow> is_digit (digit_char d)"
  by (simp add: is_digit_def of_char_digit_char)

lemma digit_value_digit_char [simp]: "d < 10 \<Longrightarrow> digit_value (digit_char d) = d"
  by (simp add: digit_value_def of_char_digit_char)

lemma digits_value_append: "digits_value (s @ [c]) = 10 * digits_value s + digit_value c"
  by (simp add: digits_value_def)

lemma digits_of_nonempty: "digits_of n \<noteq> []"
  by (subst digits_of.simps) simp

lemma digits_of_digits: "c \<in> set (digits_of n) \<Longrightarrow> is_digit c"
proof (induction n rule: digits_of.induct)
  case (1 n)
  then show ?case
    by (cases "n < 10") (auto simp: digits_of.simps [of n])
qed

lemma digits_value_digits_of [simp]: "digits_value (digits_of n) = n"
proof (induction n rule: digits_of.induct)
  case (1 n)
  then show ?case
    by (cases "n < 10")
      (simp_all add: digits_of.simps [of n] digits_value_append, simp add: digits_value_def)
qed

lemma digits_of_inject [simp]: "digits_of m = digits_of n \<longleftrightarrow> m = n"
  by (metis digits_value_digits_of)

lemma digits_of_not_minus: "CHR ''-'' \<notin> set (digits_of n)"
proof
  assume "CHR ''-'' \<in> set (digits_of n)"
  then have "is_digit (CHR ''-'')" by (rule digits_of_digits)
  then show False by (simp add: is_digit_def)
qed

lemma to_string_inject: "to_string i = to_string j \<longleftrightarrow> i = j"
proof -
  have "CHR ''-'' # s \<noteq> digits_of n" for s n
    using digits_of_not_minus [of n] by (metis list.set_intros(1))
  then show ?thesis
    by (auto simp: to_string_def split: if_splits) metis
qed

section \<open>Two's complement wrap-around\<close>

lemma wrap32_id [wrap_simps]: "- (2 ^ 31) \<le> x \<Longrightarrow> x < 2 ^ 31 \<Longrightarrow> wrap32 x = x"
  by (simp add: wrap32_def)

lemma wrap32_range: "- (2 ^ 31) \<le> wrap32 x \<and> wrap32 x < 2 ^ 31"
  by (simp add: wrap32_def)

lemma wrap32_cong: "x mod 2 ^ 32 = y mod 2 ^ 32 \<Longrightarrow> wrap32 x = wrap32 y"
  unfolding wrap32_def by (metis mod_add_left_eq)

lemma wrap32_mod: "wrap32 x mod 2 ^ 32 = x mod 2 ^ 32"
  by (simp add: wrap32_def mod_diff_left_eq)

lemma wrap32_diff: "wrap32 (wrap32 a - wrap32 b) = wrap32 (a - b)"
  by (rule wrap32_cong) (metis mod_diff_eq wrap32_mod)

text \<open>\<^verbatim>\<open>--n\<close> on an \<^verbatim>\<open>unsigned\<close>.\<close>

definition dec32 :: "nat \<Rightarrow> nat" where
  "dec32 n = (n + 2 ^ 32 - 1) mod 2 ^ 32"

lemma dec32_pos [wrap_simps]: "0 < n \<Longrightarrow> n < 2 ^ 32 \<Longrightarrow> dec32 n = n - 1"
  by (simp add: dec32_def mod_if)

section \<open>Single-precision rounding\<close>

text \<open>
  \<open>rne24 n\<close> is the natural number \<open>n\<close> rounded to 24 significant binary digits, ties to even:
  the result of a \<^verbatim>\<open>float\<close> operation whose exact value is \<open>n\<close> units of some fixed power of
  two. \<open>fexcess n\<close> is the number of binary digits that do not fit.
\<close>

fun fexcess :: "nat \<Rightarrow> nat" where
  "fexcess n = (if n < 2 ^ 24 then 0 else Suc (fexcess (n div 2)))"

declare fexcess.simps [simp del]

definition rne24 :: "nat \<Rightarrow> nat" where
  "rne24 n = (let k = fexcess n; u = 2 ^ k; q = n div u; r = n mod u
              in if 2 * r < u \<or> (2 * r = u \<and> even q) then q * u else (q + 1) * u)"

lemma rne24_exact: "n < 2 ^ 24 \<Longrightarrow> rne24 n = n"
  by (simp add: rne24_def fexcess.simps [of n])

lemma fexcess_bound: "0 < fexcess n \<Longrightarrow> 2 ^ (23 + fexcess n) \<le> n"
proof (induction n rule: fexcess.induct)
  case (1 n)
  then have n: "\<not> n < 2 ^ 24" and k: "fexcess n = Suc (fexcess (n div 2))"
    by (auto simp: fexcess.simps [of n] split: if_splits)
  have "2 ^ (23 + fexcess (n div 2)) \<le> n div 2"
    using 1(1) [OF n] n by (cases "fexcess (n div 2)") auto
  then have "2 * 2 ^ (23 + fexcess (n div 2)) \<le> n" by linarith
  then show ?case by (simp only: k flip: power_Suc) simp
qed

text \<open>Rounding does not cross a power of two.\<close>

lemma rne24_ge: "2 ^ m \<le> n \<Longrightarrow> 2 ^ m \<le> rne24 n"
proof -
  assume n: "2 ^ m \<le> n"
  define k where "k = fexcess n"
  have "2 ^ m \<le> n div 2 ^ k * 2 ^ k"
  proof (cases "k \<le> m")
    case True
    then have m: "(2 :: nat) ^ m = 2 ^ (m - k) * 2 ^ k" by (simp flip: power_add)
    with n have "2 ^ (m - k) \<le> n div 2 ^ k" by (simp add: less_eq_div_iff_mult_less_eq)
    with m show ?thesis by simp
  next
    case False
    then have "2 ^ k \<le> n" using fexcess_bound [of n] order_trans [OF power_increasing [of k "23 + k" "2 :: nat"]]
      by (simp add: k_def)
    then have "1 \<le> n div 2 ^ k" by (simp add: less_eq_div_iff_mult_less_eq)
    then have "2 ^ k \<le> n div 2 ^ k * 2 ^ k" by simp
    moreover have "(2 :: nat) ^ m \<le> 2 ^ k" using False by simp
    ultimately show ?thesis by linarith
  qed
  then show ?thesis by (auto simp: rne24_def Let_def k_def)
qed

lemma rne24_le: "n \<le> 2 ^ m \<Longrightarrow> rne24 n \<le> 2 ^ m"
proof -
  assume n: "n \<le> 2 ^ m"
  define k where "k = fexcess n"
  consider "k = 0" | "n = 2 ^ m" "0 < k" | "n < 2 ^ m" "0 < k" using n by force
  then show ?thesis
  proof cases
    case 1
    then show ?thesis using n by (simp add: rne24_def k_def)
  next
    case 2
    then have "(2 :: nat) ^ k \<le> 2 ^ m" "(2 :: nat) ^ (23 + k) \<le> 2 ^ m" using fexcess_bound [of n] by (auto simp: k_def intro: order_trans [rotated])
    then have "k \<le> m" by simp
    then have "(2 :: nat) ^ m mod 2 ^ k = 0" by (simp add: le_imp_power_dvd)
    then show ?thesis using 2 by (simp add: rne24_def Let_def k_def)
  next
    case 3
    then have "(2 :: nat) ^ (23 + k) < 2 ^ m" using order_le_less_trans [OF fexcess_bound [of n]] unfolding k_def by blast
    then have "k \<le> m" using power_less_imp_less_exp [of "2 :: nat" "23 + k" m] by simp
    then have m: "(2 :: nat) ^ m = 2 ^ (m - k) * 2 ^ k" by (simp flip: power_add)
    with 3 have "n div 2 ^ k < 2 ^ (m - k)" by (simp add: less_mult_imp_div_less)
    then have "(n div 2 ^ k + 1) * 2 ^ k \<le> 2 ^ m" unfolding m by (intro mult_right_mono) auto
    then show ?thesis by (auto simp: rne24_def Let_def k_def)
  qed
qed

section \<open>Ordered association lists: std::map\<close>

text \<open>
  \<^verbatim>\<open>std::map<std::string, T>\<close> keeps its keys in increasing byte order;
  \<open>map_insert\<close> is \<^verbatim>\<open>map.insert\<close> (an existing key keeps its value), \<open>map_assign\<close> is
  \<^verbatim>\<open>map[k] = v\<close>.
\<close>

type_synonym 'v omap = "(string \<times> 'v) list"

fun map_insert :: "string \<Rightarrow> 'v \<Rightarrow> 'v omap \<Rightarrow> 'v omap" where
  "map_insert k v [] = [(k, v)]"
| "map_insert k v ((k', v') # m) =
     (if k < k' then (k, v) # (k', v') # m
      else if k = k' then (k', v') # m
      else (k', v') # map_insert k v m)"

fun map_assign :: "string \<Rightarrow> 'v \<Rightarrow> 'v omap \<Rightarrow> 'v omap" where
  "map_assign k v [] = [(k, v)]"
| "map_assign k v ((k', v') # m) =
     (if k < k' then (k, v) # (k', v') # m
      else if k = k' then (k, v) # m
      else (k', v') # map_assign k v m)"

definition omap_wf :: "'v omap \<Rightarrow> bool" where
  "omap_wf m \<longleftrightarrow> sorted_wrt (<) (map fst m)"

lemma omap_wf_Nil [simp, map_simps]: "omap_wf []"
  by (simp add: omap_wf_def)

lemma omap_wf_Cons [map_simps]:
  "omap_wf ((k, v) # m) \<longleftrightarrow> (\<forall>x \<in> fst ` set m. k < x) \<and> omap_wf m"
  by (auto simp: omap_wf_def)

lemma fst_set_map_insert [simp]: "fst ` set (map_insert k v m) = insert k (fst ` set m)"
  by (induction k v m rule: map_insert.induct) auto

lemma fst_set_map_assign [simp]: "fst ` set (map_assign k v m) = insert k (fst ` set m)"
  by (induction k v m rule: map_assign.induct) auto

lemma omap_wf_insert [simp, intro]: "omap_wf m \<Longrightarrow> omap_wf (map_insert k v m)"
  by (induction k v m rule: map_insert.induct) (auto simp: omap_wf_Cons)

lemma omap_wf_assign [simp, intro]: "omap_wf m \<Longrightarrow> omap_wf (map_assign k v m)"
  by (induction k v m rule: map_assign.induct) (auto simp: omap_wf_Cons)

lemma map_of_notin_omap: "k \<notin> fst ` set m \<Longrightarrow> map_of m k = None"
  by (simp add: map_of_eq_None_iff)

lemma map_of_map_assign [simp, map_simps]:
  "omap_wf m \<Longrightarrow> map_of (map_assign k v m) = (map_of m)(k \<mapsto> v)"
  by (induction k v m rule: map_assign.induct)
    (auto simp: omap_wf_Cons fun_eq_iff map_of_notin_omap)

lemma map_of_map_insert [simp, map_simps]:
  "omap_wf m \<Longrightarrow> map_of (map_insert k v m) =
     (map_of m)(k \<mapsto> (case map_of m k of None \<Rightarrow> v | Some w \<Rightarrow> w))"
proof (induction k v m rule: map_insert.induct)
  case (2 k v k' v' m)
  have "k < k' \<Longrightarrow> k \<notin> fst ` set m" using "2.prems" by (auto simp: omap_wf_Cons)
  with 2 show ?case
    by (auto simp: omap_wf_Cons fun_eq_iff map_of_notin_omap)
qed simp

lemma omap_eqI:
  assumes "omap_wf m" and "omap_wf n" and "map_of m = map_of n"
  shows "m = n"
proof -
  have "distinct (map fst m)" "distinct (map fst n)"
    using assms(1,2) by (auto simp: omap_wf_def strict_sorted_iff)
  then have "set m = set n" using assms(3) by (simp add: map_of_inject_set)
  moreover have "sorted (map fst m)" "sorted (map fst n)"
    using assms(1,2) by (auto simp: omap_wf_def strict_sorted_iff)
  ultimately show ?thesis
    using \<open>distinct (map fst m)\<close> \<open>distinct (map fst n)\<close>
    by (intro map_sorted_distinct_set_unique [of fst]) (auto simp: distinct_map)
qed

section \<open>Fallible steps\<close>

text \<open>Sequencing of steps that may fail: the first error is the result.\<close>

fun rbind :: "'e + 'a \<Rightarrow> ('a \<Rightarrow> 'e + 'b) \<Rightarrow> 'e + 'b" where
  "rbind (Inl e) f = Inl e"
| "rbind (Inr x) f = f x"

lemma rbind_Inr: "rbind r f = Inr y \<longleftrightarrow> (\<exists>x. r = Inr x \<and> f x = Inr y)"
  by (cases r) auto

section \<open>Loops with a counter\<close>

text \<open>A counted loop is a fold over its range; an invariant indexed by the counter lifts to it.\<close>

lemma fold_upt_invariant:
  assumes "m \<le> n" and "P m s"
    and "\<And>t s. m \<le> t \<Longrightarrow> t < n \<Longrightarrow> P t s \<Longrightarrow> P (Suc t) (f t s)"
  shows "P n (fold f [m ..< n] s)"
  using assms
proof (induction n)
  case (Suc n)
  then show ?case by (cases "m = Suc n") auto
qed auto

end
