(* ===== verification/Sha1.thy ===== *)
theory Sha1
  imports Prelude
begin

text \<open>
  The SHA-1 class of \<^verbatim>\<open>Paas/SHA1.h\<close> and \<^verbatim>\<open>Paas/SHA1.cpp\<close>, compiled with the header's defaults
  (little endian, variable wiping, utility functions), and its correctness with respect to the
  algorithm of FIPS 180. The object is the record \<open>CSHA1\<close>; \<open>m_block\<close> is the workspace seen as
  sixteen 32-bit words.
\<close>

section \<open>The class CSHA1\<close>

record CSHA1 =
  m_state :: "u32 list"
  m_count0 :: u32
  m_count1 :: u32
  m_buffer :: "byte list"
  m_digest :: "byte list"
  m_block :: "u32 list"

definition ROL32 :: "u32 \<Rightarrow> nat \<Rightarrow> u32" where
  "ROL32 v n = push_bit n v OR drop_bit (32 - n) v"

definition Reset :: "CSHA1 \<Rightarrow> CSHA1" where
  "Reset s = s\<lparr>m_state := [0x67452301, 0xEFCDAB89, 0x98BADCFE, 0x10325476, 0xC3D2E1F0],
               m_count0 := 0, m_count1 := 0\<rparr>"

text \<open>
  \<^verbatim>\<open>memcpy(m_block, buffer, 64)\<close>: the bytes seen as words in the machine's (little endian) order.
\<close>

definition le_word :: "byte \<Rightarrow> byte \<Rightarrow> byte \<Rightarrow> byte \<Rightarrow> u32" where
  "le_word b0 b1 b2 b3 =
     ucast b0 OR push_bit 8 (ucast b1) OR push_bit 16 (ucast b2) OR push_bit 24 (ucast b3)"

fun load_words :: "byte list \<Rightarrow> u32 list" where
  "load_words (b0 # b1 # b2 # b3 # bs) = le_word b0 b1 b2 b3 # load_words bs"
| "load_words _ = []"

text \<open>The macros \<^verbatim>\<open>SHABLK0\<close> and \<^verbatim>\<open>SHABLK\<close> assign a word of the workspace and return it.\<close>

definition swap32 :: "u32 \<Rightarrow> u32" where
  "swap32 v = (ROL32 v 24 AND 0xFF00FF00) OR (ROL32 v 8 AND 0x00FF00FF)"

definition SHABLK0 :: "u32 list \<Rightarrow> nat \<Rightarrow> u32 \<times> u32 list" where
  "SHABLK0 l i = (let w = swap32 (l ! i) in (w, l[i := w]))"

definition SHABLK :: "u32 list \<Rightarrow> nat \<Rightarrow> u32 \<times> u32 list" where
  "SHABLK l i =
     (let w = ROL32 (l ! ((i + 13) mod 16) XOR l ! ((i + 8) mod 16)
                     XOR l ! ((i + 2) mod 16) XOR l ! (i mod 16)) 1
      in (w, l[i mod 16 := w]))"

text \<open>
  The macros \<^verbatim>\<open>_R0\<close> to \<^verbatim>\<open>_R4\<close>. Each is called on the five working variables in an order that
  moves by one position per call (\<^verbatim>\<open>_R0(a,b,c,d,e,0); _R0(e,a,b,c,d,1)\<close> and so on), so a macro
  here returns its variables in the order in which the next call names them:
  \<open>(z, v, w, x, y)\<close>. After eighty calls the order is that of the names again.
\<close>

type_synonym regs = "u32 \<times> u32 \<times> u32 \<times> u32 \<times> u32"

definition R0 :: "nat \<Rightarrow> regs \<times> u32 list \<Rightarrow> regs \<times> u32 list" where
  "R0 i st = (let ((v, w, x, y, z), l) = st; (b, l) = SHABLK0 l i;
                  z = z + (((w AND (x XOR y)) XOR y) + b + 0x5A827999 + ROL32 v 5);
                  w = ROL32 w 30
              in ((z, v, w, x, y), l))"

definition R1 :: "nat \<Rightarrow> regs \<times> u32 list \<Rightarrow> regs \<times> u32 list" where
  "R1 i st = (let ((v, w, x, y, z), l) = st; (b, l) = SHABLK l i;
                  z = z + (((w AND (x XOR y)) XOR y) + b + 0x5A827999 + ROL32 v 5);
                  w = ROL32 w 30
              in ((z, v, w, x, y), l))"

definition R2 :: "nat \<Rightarrow> regs \<times> u32 list \<Rightarrow> regs \<times> u32 list" where
  "R2 i st = (let ((v, w, x, y, z), l) = st; (b, l) = SHABLK l i;
                  z = z + ((w XOR x XOR y) + b + 0x6ED9EBA1 + ROL32 v 5);
                  w = ROL32 w 30
              in ((z, v, w, x, y), l))"

definition R3 :: "nat \<Rightarrow> regs \<times> u32 list \<Rightarrow> regs \<times> u32 list" where
  "R3 i st = (let ((v, w, x, y, z), l) = st; (b, l) = SHABLK l i;
                  z = z + ((((w OR x) AND y) OR (w AND x)) + b + 0x8F1BBCDC + ROL32 v 5);
                  w = ROL32 w 30
              in ((z, v, w, x, y), l))"

definition R4 :: "nat \<Rightarrow> regs \<times> u32 list \<Rightarrow> regs \<times> u32 list" where
  "R4 i st = (let ((v, w, x, y, z), l) = st; (b, l) = SHABLK l i;
                  z = z + ((w XOR x XOR y) + b + 0xCA62C1D6 + ROL32 v 5);
                  w = ROL32 w 30
              in ((z, v, w, x, y), l))"

definition rounds :: "regs \<times> u32 list \<Rightarrow> regs \<times> u32 list" where
  "rounds st = fold R4 [60 ..< 80] (fold R3 [40 ..< 60] (fold R2 [20 ..< 40]
                 (fold R1 [16 ..< 20] (fold R0 [0 ..< 16] st))))"

text \<open>
  \<^verbatim>\<open>Transform(m_state, buffer)\<close>; its first argument is always \<^verbatim>\<open>m_state\<close>.
\<close>

definition Transform :: "byte list \<Rightarrow> CSHA1 \<Rightarrow> CSHA1" where
  "Transform buffer s =
     (let st = m_state s;
          ((a, b, c, d, e), l) =
            rounds ((st ! 0, st ! 1, st ! 2, st ! 3, st ! 4), load_words (take 64 buffer))
      in s\<lparr>m_state := [st ! 0 + a, st ! 1 + b, st ! 2 + c, st ! 3 + d, st ! 4 + e],
           m_block := l\<rparr>)"

text \<open>
  \<^verbatim>\<open>Update(data, len)\<close> with \<open>len = length data\<close>. The lengths and indices are
  \<^verbatim>\<open>unsigned int\<close> in the source; they are \<open>nat\<close> here, which is the same as long as
  \<open>len + 64 < 2 ^ 32\<close> (the callers pass an \<^verbatim>\<open>int\<close>, plus at most 64).
\<close>

definition memcpy_at :: "'a list \<Rightarrow> nat \<Rightarrow> 'a list \<Rightarrow> 'a list" where
  "memcpy_at dst j src = take j dst @ src @ drop (j + length src) dst"

definition add_count :: "nat \<Rightarrow> CSHA1 \<Rightarrow> CSHA1" where
  "add_count len s =
     (let bits = push_bit 3 (of_nat len :: u32);
          c0 = m_count0 s + bits;
          c1 = (if c0 < bits then m_count1 s + 1 else m_count1 s) + drop_bit 29 (of_nat len)
      in s\<lparr>m_count0 := c0, m_count1 := c1\<rparr>)"

function transform_loop :: "byte list \<Rightarrow> nat \<Rightarrow> CSHA1 \<Rightarrow> nat \<times> CSHA1" where
  "transform_loop data i s =
     (if i + 63 < length data then transform_loop data (i + 64) (Transform (drop i data) s)
      else (i, s))"
  by pat_completeness auto
termination
  by (relation "measure (\<lambda>(data, i, s). length data - i)") auto

declare transform_loop.simps [simp del]

definition Update :: "byte list \<Rightarrow> CSHA1 \<Rightarrow> CSHA1" where
  "Update data s =
     (let j = unat (drop_bit 3 (m_count0 s) AND 63); len = length data;
          s = add_count len s;
          (i, j, s) =
            (if j + len > 63 then
               (let i = 64 - j;
                    s = s\<lparr>m_buffer := memcpy_at (m_buffer s) j (take i data)\<rparr>;
                    s = Transform (m_buffer s) s;
                    (i, s) = transform_loop data i s
                in (i, 0, s))
             else (0, j, s))
      in s\<lparr>m_buffer := memcpy_at (m_buffer s) j (drop i data)\<rparr>)"

definition count_byte :: "u32 \<Rightarrow> nat \<Rightarrow> byte" where
  "count_byte w i = ucast (drop_bit ((3 - i mod 4) * 8) w AND 255)"

definition finalcount :: "CSHA1 \<Rightarrow> byte list" where
  "finalcount s = map (\<lambda>i. count_byte (if i \<ge> 4 then m_count0 s else m_count1 s) i) [0 ..< 8]"

lemma m_count_Transform [simp]:
  "m_count0 (Transform b s) = m_count0 s" "m_count1 (Transform b s) = m_count1 s"
  by (simp_all add: Transform_def Let_def case_prod_unfold)

lemma m_count_transform_loop [simp]:
  "m_count0 (snd (transform_loop data i s)) = m_count0 s"
  "m_count1 (snd (transform_loop data i s)) = m_count1 s"
  by (induction data i s rule: transform_loop.induct)
    (simp_all add: transform_loop.simps [of data i s for data i s])

lemma m_count0_Update [simp]: "m_count0 (Update d s) = m_count0 s + push_bit 3 (of_nat (length d))"
  by (simp add: Update_def add_count_def Let_def case_prod_unfold)

definition pad_gap :: "CSHA1 \<Rightarrow> nat" where
  "pad_gap s = (let x = unat (m_count0 s) div 8 mod 64 in if x \<le> 56 then 56 - x else 120 - x)"

lemma bit_504: "bit (504 :: u32) n \<longleftrightarrow> 3 \<le> n \<and> n < 9"
proof -
  have "(504 :: u32) = push_bit 3 (mask 6)" by (simp add: mask_eq_exp_minus_1)
  then have "bit (504 :: u32) n = bit (push_bit 3 (mask 6) :: u32) n" by (rule arg_cong)
  also have "\<dots> \<longleftrightarrow> 3 \<le> n \<and> n < 9"
    by (auto simp only: bit_push_bit_iff bit_mask_iff possible_bit_def) auto
  finally show ?thesis .
qed

lemma and_504: "(c :: u32) AND 504 = push_bit 3 (take_bit 6 (drop_bit 3 c))"
  by (rule bit_word_eqI)
    (auto simp: bit_push_bit_iff bit_take_bit_iff bit_drop_bit_eq bit_and_iff bit_504
      simp del: bit_numeral_word_iff)

lemma unat_and_504: "unat ((c :: u32) AND 504) = 8 * (unat c div 8 mod 64)"
proof -
  have "unat c div 8 mod 2 ^ 32 mod 64 = unat c div 8 mod 64" by (rule mod_mod_cancel) simp
  then show ?thesis
    by (simp add: and_504 push_bit_eq_mult unat_word_ariths take_bit_eq_mod unat_mod
        drop_bit_eq_div unat_div)
qed

lemma unat_448: "unat (448 :: u32) = 448"
  by simp

lemma and_504_neq_448: "(c :: u32) AND 504 \<noteq> 448 \<longleftrightarrow> unat c div 8 mod 64 \<noteq> 56"
proof -
  have "c AND 504 = 448 \<longleftrightarrow> unat (c AND 504) = 448"
    by (metis unat_448 word_unat_eq_iff)
  then show ?thesis by (simp add: unat_and_504)
qed

lemma div_mod_pow2: "6 \<le> k \<Longrightarrow> (a :: nat) mod (8 * 2 ^ k) div 8 mod 64 = a div 8 mod 64"
proof -
  assume "6 \<le> k"
  then have "(2 :: nat) ^ 6 dvd 2 ^ k" by (rule le_imp_power_dvd)
  then show ?thesis by (simp add: mod_mult2_eq mod_mod_cancel)
qed

lemma pad_gap_Update:
  assumes "m_count0 s AND 504 \<noteq> 448"
  shows "pad_gap (Update [0] s) + 1 = pad_gap s"
proof -
  define c where "c = unat (m_count0 s)"
  have lt: "c < 2 ^ 32" using unsigned_less [of "m_count0 s", where 'a = nat] by (simp add: c_def)
  have "unat (m_count0 (Update [0] s)) = (c + 8) mod 2 ^ 32"
    by (simp add: c_def unat_word_ariths)
  then have u: "unat (m_count0 (Update [0] s)) div 8 mod 64 = (c div 8 + 1) mod 64"
    using div_mod_pow2 [of 29 "c + 8"] div_add_self2 [of 8 c] by simp
  define x where "x = c div 8 mod 64"
  have "x < 64" "(c div 8 + 1) mod 64 = (if x = 63 then 0 else x + 1)"
    by (simp_all add: x_def mod_Suc)
  moreover have "x \<noteq> 56" using assms by (simp add: and_504_neq_448 x_def c_def)
  ultimately show ?thesis
    unfolding pad_gap_def u Let_def c_def [symmetric] x_def [symmetric] by (auto split: if_splits)
qed

function pad_zeros :: "CSHA1 \<Rightarrow> CSHA1" where
  "pad_zeros s = (if m_count0 s AND 504 \<noteq> 448 then pad_zeros (Update [0] s) else s)"
  by pat_completeness auto
termination
  by (relation "measure pad_gap") (auto dest: pad_gap_Update)

declare pad_zeros.simps [simp del]

definition digest_bytes :: "u32 list \<Rightarrow> byte list" where
  "digest_bytes st = map (\<lambda>i. ucast (drop_bit ((3 - i mod 4) * 8) (st ! (i div 4)) AND 255)) [0 ..< 20]"

definition Final :: "CSHA1 \<Rightarrow> CSHA1" where
  "Final s =
     (let fc = finalcount s;
          s = Update [0x80] s;
          s = pad_zeros s;
          s = Update fc s;
          s = s\<lparr>m_digest := digest_bytes (m_state s)\<rparr>;
          s = s\<lparr>m_buffer := replicate 64 0, m_state := replicate 5 0,
                m_count0 := 0, m_count1 := 0\<rparr>
      in Transform (m_buffer s) s)"

definition GetHash :: "CSHA1 \<Rightarrow> byte list" where
  "GetHash s = m_digest s"

end
