(* ===== verification/Sha1_Spec.thy ===== *)
theory Sha1_Spec
  imports Sha1
begin

text \<open>
  The secure hash algorithm of FIPS 180 as a function on byte lists, and the refinement of it by
  the class of \<open>Sha1\<close>: the circular message schedule, the unrolled rounds, the buffered
  \<^verbatim>\<open>Update\<close> and the padding of \<^verbatim>\<open>Final\<close>.
\<close>

section \<open>Specification\<close>

definition be_word :: "byte \<Rightarrow> byte \<Rightarrow> byte \<Rightarrow> byte \<Rightarrow> u32" where
  "be_word b0 b1 b2 b3 =
     push_bit 24 (ucast b0) OR push_bit 16 (ucast b1) OR push_bit 8 (ucast b2) OR ucast b3"

fun be_words :: "byte list \<Rightarrow> u32 list" where
  "be_words (b0 # b1 # b2 # b3 # bs) = be_word b0 b1 b2 b3 # be_words bs"
| "be_words _ = []"

definition sha_f :: "nat \<Rightarrow> u32 \<Rightarrow> u32 \<Rightarrow> u32 \<Rightarrow> u32" where
  "sha_f t x y z =
     (if t < 20 then (x AND y) OR (NOT x AND z)
      else if t < 40 then x XOR y XOR z
      else if t < 60 then (x AND y) XOR (x AND z) XOR (y AND z)
      else x XOR y XOR z)"

definition sha_k :: "nat \<Rightarrow> u32" where
  "sha_k t = (if t < 20 then 0x5A827999 else if t < 40 then 0x6ED9EBA1
              else if t < 60 then 0x8F1BBCDC else 0xCA62C1D6)"

primrec expand :: "nat \<Rightarrow> u32 list \<Rightarrow> u32 list" where
  "expand 0 w = w"
| "expand (Suc n) w =
     (let v = expand n w; t = length v
      in v @ [ROL32 (v ! (t - 3) XOR v ! (t - 8) XOR v ! (t - 14) XOR v ! (t - 16)) 1])"

definition sha_step :: "u32 list \<Rightarrow> nat \<Rightarrow> regs \<Rightarrow> regs" where
  "sha_step w t r = (let (a, b, c, d, e) = r
     in (ROL32 a 5 + sha_f t b c d + e + sha_k t + w ! t, a, ROL32 b 30, c, d))"

definition compress :: "byte list \<Rightarrow> u32 list \<Rightarrow> u32 list" where
  "compress block h =
     (let w = expand 64 (be_words block);
          (a, b, c, d, e) = fold (sha_step w) [0 ..< 80] (h ! 0, h ! 1, h ! 2, h ! 3, h ! 4)
      in [h ! 0 + a, h ! 1 + b, h ! 2 + c, h ! 3 + d, h ! 4 + e])"

fun hash_blocks :: "byte list \<Rightarrow> u32 list \<Rightarrow> u32 list" where
  "hash_blocks bs h = (if length bs < 64 then h else hash_blocks (drop 64 bs) (compress (take 64 bs) h))"

declare hash_blocks.simps [simp del]

definition sha_iv :: "u32 list" where
  "sha_iv = [0x67452301, 0xEFCDAB89, 0x98BADCFE, 0x10325476, 0xC3D2E1F0]"

definition sha_pad :: "byte list \<Rightarrow> byte list" where
  "sha_pad m = m @ 0x80 # replicate ((119 - length m mod 64) mod 64) 0
               @ map (\<lambda>i. of_nat (8 * length m div 256 ^ (7 - i))) [0 ..< 8]"

definition sha1_spec :: "byte list \<Rightarrow> byte list" where
  "sha1_spec m = digest_bytes (hash_blocks (sha_pad m) sha_iv)"

section \<open>One block\<close>

lemma swap32_le_word: "swap32 (le_word b0 b1 b2 b3) = be_word b0 b1 b2 b3"
  by (rule u32_eqI) (simp add: upt_rec swap32_def ROL32_def le_word_def be_word_def bit_simps)

lemma length_load_words: "length (load_words bs) = length bs div 4"
  by (induction bs rule: load_words.induct) auto

lemma be_words_load: "be_words bs = map swap32 (load_words bs)"
  by (induction bs rule: load_words.induct) (simp_all add: swap32_le_word)

lemma length_expand [simp]: "length (expand n w) = length w + n"
  by (induction n) (simp_all add: Let_def)

lemma nth_expand_mono: "t < length w + m \<Longrightarrow> m \<le> n \<Longrightarrow> expand n w ! t = expand m w ! t"
  by (induction n) (auto simp: le_Suc_eq Let_def nth_append)

lemma expand_low: "t < length w \<Longrightarrow> expand n w ! t = w ! t"
  using nth_expand_mono [of t w 0 n] by simp

lemma expand_high:
  assumes "length w = 16" and "16 \<le> t" and "t < 16 + n"
  shows "expand n w ! t = ROL32 (expand n w ! (t - 3) XOR expand n w ! (t - 8)
           XOR expand n w ! (t - 14) XOR expand n w ! (t - 16)) 1"
proof -
  define m where "m = t - 16"
  have t: "t = length (expand m w)" using assms by (simp add: m_def)
  have "expand n w ! t = expand (Suc m) w ! t"
    using assms by (intro nth_expand_mono) (auto simp: m_def)
  also have "\<dots> = ROL32 (expand m w ! (t - 3) XOR expand m w ! (t - 8)
           XOR expand m w ! (t - 14) XOR expand m w ! (t - 16)) 1"
    by (simp add: t Let_def nth_append)
  finally have "expand n w ! t = ROL32 (expand m w ! (t - 3) XOR expand m w ! (t - 8)
           XOR expand m w ! (t - 14) XOR expand m w ! (t - 16)) 1" .
  moreover have "expand m w ! k = expand n w ! k" if "k < t" for k
    using nth_expand_mono [of k w m n] that assms by (simp add: m_def)
  then have "expand m w ! (t - 3) = expand n w ! (t - 3)" "expand m w ! (t - 8) = expand n w ! (t - 8)"
    "expand m w ! (t - 14) = expand n w ! (t - 14)" "expand m w ! (t - 16) = expand n w ! (t - 16)"
    using assms(2) by simp_all
  ultimately show ?thesis by simp
qed

text \<open>
  Before round \<open>t\<close> the working variables are those of the specification and the workspace holds
  the last sixteen words of the schedule, at their index modulo 16; in the first rounds the words
  not yet visited are still in the machine's byte order.
\<close>

definition round_rel :: "u32 list \<Rightarrow> regs \<Rightarrow> nat \<Rightarrow> regs \<times> u32 list \<Rightarrow> bool" where
  "round_rel l0 r0 t st =
     (let w = expand 64 (map swap32 l0); (r, l) = st in
      r = fold (sha_step w) [0 ..< t] r0 \<and> length l = 16 \<and>
      (\<forall>k < t. t \<le> k + 16 \<longrightarrow> l ! (k mod 16) = w ! k) \<and>
      (\<forall>k < 16. t \<le> k \<longrightarrow> l ! k = l0 ! k))"

lemma sha_ch: "(w AND (x XOR y)) XOR y = (w AND x) OR (NOT w AND (y :: u32))"
  by (rule bit_word_eqI) (auto simp: bit_simps)

lemma sha_maj: "((w OR x) AND y) OR (w AND x) = (w AND x) XOR (w AND y) XOR (x AND (y :: u32))"
  by (rule bit_word_eqI) (auto simp: bit_simps)

lemma schedule_slot:
  assumes "length l = 16" and "length l0 = 16" and "16 \<le> t" and "t < 80"
    and w: "w = expand 64 (map swap32 l0)"
    and rel: "\<forall>k < t. t \<le> k + 16 \<longrightarrow> l ! (k mod 16) = w ! k"
  shows "SHABLK l t = (w ! t, l[t mod 16 := w ! t])"
    and "\<forall>k < Suc t. Suc t \<le> k + 16 \<longrightarrow> l[t mod 16 := w ! t] ! (k mod 16) = w ! k"
proof -
  have idx: "(t + 13) mod 16 = (t - 3) mod 16" "(t + 8) mod 16 = (t - 8) mod 16"
    "(t + 2) mod 16 = (t - 14) mod 16" "t mod 16 = (t - 16) mod 16"
    using assms(3) mod_add_self2 [of "t - 3" 16] mod_add_self2 [of "t - 8" 16]
      mod_add_self2 [of "t - 14" 16] mod_add_self2 [of "t - 16" 16]
    by (simp_all add: add.commute)
  have "l ! ((t - d) mod 16) = w ! (t - d)" if "0 < d" "d \<le> 16" for d
    using rel assms(3) that by auto
  then have "ROL32 (l ! ((t + 13) mod 16) XOR l ! ((t + 8) mod 16)
               XOR l ! ((t + 2) mod 16) XOR l ! (t mod 16)) 1 = w ! t"
    using expand_high [of "map swap32 l0" t 64] assms(2-4) unfolding idx w by simp
  then show "SHABLK l t = (w ! t, l[t mod 16 := w ! t])" by (simp add: SHABLK_def Let_def)
  show "\<forall>k < Suc t. Suc t \<le> k + 16 \<longrightarrow> l[t mod 16 := w ! t] ! (k mod 16) = w ! k"
  proof (intro allI impI)
    fix k
    assume k: "k < Suc t" "Suc t \<le> k + 16"
    show "l[t mod 16 := w ! t] ! (k mod 16) = w ! k"
    proof (cases "k = t")
      case True
      then show ?thesis using assms(1) by simp
    next
      case False
      then have "\<not> 16 dvd t - k" using k by (auto dest: dvd_imp_le)
      then have "k mod 16 \<noteq> t mod 16" using k by (metis mod_eq_dvd_iff_nat less_Suc_eq_le)
      then show ?thesis using rel k False by simp
    qed
  qed
qed

lemma R0_rel:
  assumes "length l0 = 16" and "t < 16" and rel: "round_rel l0 r0 t st"
  shows "round_rel l0 r0 (Suc t) (R0 t st)"
proof -
  obtain v w x y z l where st: "st = ((v, w, x, y, z), l)" by (metis prod.exhaust)
  let ?w = "expand 64 (map swap32 l0)"
  have "SHABLK0 l t = (?w ! t, l[t := ?w ! t])"
    using assms expand_low [of t "map swap32 l0" 64]
    by (simp add: SHABLK0_def Let_def st round_rel_def)
  moreover have "\<forall>k < Suc t. Suc t \<le> k + 16 \<longrightarrow> l[t := ?w ! t] ! (k mod 16) = ?w ! k"
    using assms by (auto simp: st round_rel_def Let_def less_Suc_eq nth_list_update)
  ultimately show ?thesis
    using assms
    by (auto simp: st round_rel_def R0_def sha_step_def sha_f_def sha_k_def Let_def sha_ch
        add_ac split: prod.splits)
qed

lemma R14_rel:
  assumes "length l0 = 16" and "16 \<le> t" and "t < 80" and "round_rel l0 r0 t st"
  shows "t < 20 \<Longrightarrow> round_rel l0 r0 (Suc t) (R1 t st)"
    and "20 \<le> t \<Longrightarrow> t < 40 \<Longrightarrow> round_rel l0 r0 (Suc t) (R2 t st)"
    and "40 \<le> t \<Longrightarrow> t < 60 \<Longrightarrow> round_rel l0 r0 (Suc t) (R3 t st)"
    and "60 \<le> t \<Longrightarrow> round_rel l0 r0 (Suc t) (R4 t st)"
proof -
  obtain v w x y z l where st: "st = ((v, w, x, y, z), l)" by (metis prod.exhaust)
  let ?w = "expand 64 (map swap32 l0)"
  have l: "length l = 16" and rel: "\<forall>k < t. t \<le> k + 16 \<longrightarrow> l ! (k mod 16) = ?w ! k"
    and r: "(v, w, x, y, z) = fold (sha_step ?w) [0 ..< t] r0"
    using assms(4) by (simp_all add: st round_rel_def Let_def)
  note slot = schedule_slot [OF l assms(1-3) refl rel]
  note unfold = st round_rel_def sha_step_def sha_f_def sha_k_def Let_def slot(1)
    R1_def R2_def R3_def R4_def sha_ch sha_maj
  show "t < 20 \<Longrightarrow> round_rel l0 r0 (Suc t) (R1 t st)"
    and "20 \<le> t \<Longrightarrow> t < 40 \<Longrightarrow> round_rel l0 r0 (Suc t) (R2 t st)"
    and "40 \<le> t \<Longrightarrow> t < 60 \<Longrightarrow> round_rel l0 r0 (Suc t) (R3 t st)"
    and "60 \<le> t \<Longrightarrow> round_rel l0 r0 (Suc t) (R4 t st)"
    using assms(2) slot(2) l by (simp_all add: unfold r [symmetric] add_ac)
qed

lemma rounds_rel:
  assumes "length l0 = 16"
  shows "round_rel l0 r0 80 (rounds (r0, l0))"
proof -
  note rel = R0_rel [OF assms] R14_rel [OF assms]
  note loop = fold_upt_invariant [where P = "round_rel l0 r0"]
  have base: "round_rel l0 r0 0 (r0, l0)" using assms by (simp add: round_rel_def)
  have s0: "round_rel l0 r0 16 (fold R0 [0 ..< 16] (r0, l0))" (is "round_rel _ _ _ ?s0")
    by (rule loop [OF _ base], simp, rule rel(1); simp)
  have s1: "round_rel l0 r0 20 (fold R1 [16 ..< 20] ?s0)" (is "round_rel _ _ _ ?s1")
    by (rule loop [OF _ s0], simp, rule rel(2); simp)
  have s2: "round_rel l0 r0 40 (fold R2 [20 ..< 40] ?s1)" (is "round_rel _ _ _ ?s2")
    by (rule loop [OF _ s1], simp, rule rel(3); simp)
  have s3: "round_rel l0 r0 60 (fold R3 [40 ..< 60] ?s2)" (is "round_rel _ _ _ ?s3")
    by (rule loop [OF _ s2], simp, rule rel(4); simp)
  show ?thesis
    unfolding rounds_def by (rule loop [OF _ s3], simp, rule rel(5); simp)
qed

lemma Transform_compress:
  assumes "64 \<le> length b"
  shows "m_state (Transform b s) = compress (take 64 b) (m_state s)"
proof -
  let ?l = "load_words (take 64 b)" and ?h = "m_state s"
  let ?r0 = "(?h ! 0, ?h ! 1, ?h ! 2, ?h ! 3, ?h ! 4)"
  have "length ?l = 16" using assms by (simp add: length_load_words)
  then have "fst (rounds (?r0, ?l)) = fold (sha_step (expand 64 (be_words (take 64 b)))) [0 ..< 80] ?r0"
    using rounds_rel [of ?l ?r0] by (auto simp: round_rel_def Let_def be_words_load case_prod_unfold)
  then show ?thesis
    by (simp add: Transform_def compress_def Let_def case_prod_unfold)
qed

lemma m_buffer_Transform [simp]: "m_buffer (Transform b s) = m_buffer s"
  by (simp add: Transform_def Let_def case_prod_unfold)

section \<open>Whole messages\<close>

definition tail_block :: "byte list \<Rightarrow> byte list" where
  "tail_block m = drop (64 * (length m div 64)) m"

lemma length_tail_block [simp]: "length (tail_block m) = length m mod 64"
  by (simp add: tail_block_def minus_mult_div_eq_mod)

lemma hash_blocks_short [simp]: "length m < 64 \<Longrightarrow> hash_blocks m h = h"
  by (simp add: hash_blocks.simps)

lemma tail_block_short [simp]: "length m < 64 \<Longrightarrow> tail_block m = m"
  by (simp add: tail_block_def)

lemma hash_blocks_step: "length b = 64 \<Longrightarrow> hash_blocks (b @ m) h = hash_blocks m (compress b h)"
  by (subst hash_blocks.simps) simp

lemma tail_block_step: "length b = 64 \<Longrightarrow> tail_block (b @ m) = tail_block m"
  by (simp add: tail_block_def div_add_self1)

lemma block_cases:
  obtains "length m < 64" | b n where "m = b @ n" "length b = 64" "length n < length m"
proof (cases "length m < 64")
  case False
  then show ?thesis using that(2) [of "take 64 m" "drop 64 m"] by simp
qed (rule that(1))

lemma hash_blocks_append:
  "hash_blocks (m @ d) h = hash_blocks (tail_block m @ d) (hash_blocks m h)"
proof (induction m arbitrary: h rule: measure_induct_rule [of length])
  case (less m)
  show ?case
  proof (cases m rule: block_cases)
    case (2 b n)
    with less.IH [of n "compress b h"] show ?thesis
      by (simp add: hash_blocks_step tail_block_step)
  qed simp
qed

lemma tail_block_append: "tail_block (m @ d) = tail_block (tail_block m @ d)"
proof (induction m rule: measure_induct_rule [of length])
  case (less m)
  show ?case
  proof (cases m rule: block_cases)
    case (2 b n)
    with less.IH [of n] show ?thesis by (simp add: tail_block_step)
  qed simp
qed

lemma transform_loop_blocks:
  "i \<le> length data \<Longrightarrow>
   m_state (snd (transform_loop data i s)) = hash_blocks (drop i data) (m_state s) \<and>
   drop (fst (transform_loop data i s)) data = tail_block (drop i data) \<and>
   m_buffer (snd (transform_loop data i s)) = m_buffer s"
proof (induction data i s rule: transform_loop.induct)
  case (1 data i s)
  show ?case
  proof (cases "i + 63 < length data")
    case True
    have d: "drop i data = take 64 (drop i data) @ drop (i + 64) data"
      by (metis add.commute append_take_drop_id drop_drop)
    have "m_state (Transform (drop i data) s) = compress (take 64 (drop i data)) (m_state s)"
      using True by (intro Transform_compress) simp
    with 1 True show ?thesis
      by (subst (1 2 3) transform_loop.simps, subst (1 2) d)
        (simp add: hash_blocks_step tail_block_step)
  next
    case False
    then show ?thesis by (simp add: transform_loop.simps [of data i s])
  qed
qed

section \<open>The bit counter\<close>

definition bit_count :: "CSHA1 \<Rightarrow> nat" where
  "bit_count s = unat (m_count1 s) * 2 ^ 32 + unat (m_count0 s)"

lemma unat_u32_less: "unat (x :: u32) < 2 ^ 32"
  using unsigned_less [of x, where 'a = nat] by simp

lemma mod_square: "r < M \<Longrightarrow> (k * M + r) mod (M * M) = (k mod M) * M + (r :: nat)"
  by (simp add: mod_mult2_eq)

lemma add_carry_nat:
  fixes c0 c1 b h :: nat
  assumes "c0 < 2 ^ 32" and "b < 2 ^ 32"
  shows "(((if (c0 + b) mod 2 ^ 32 < b then c1 + 1 else c1) + h) mod 2 ^ 32) * 2 ^ 32
          + (c0 + b) mod 2 ^ 32 = (c1 * 2 ^ 32 + c0 + (h * 2 ^ 32 + b)) mod 2 ^ 64"
proof -
  let ?M = "2 ^ 32 :: nat"
  define q where "q = (c0 + b) div ?M"
  have s: "c0 + b = q * ?M + (c0 + b) mod ?M" by (simp add: q_def)
  have "(c0 + b) mod ?M < b \<longleftrightarrow> q = 1" and "q < 2"
    using assms by (auto simp: q_def mod_if div_if)
  then have c: "(if (c0 + b) mod ?M < b then c1 + 1 else c1) = c1 + q" by auto
  have "c1 * ?M + c0 + (h * ?M + b) = (c1 + q + h) * ?M + (c0 + b) mod ?M"
    using s by (simp add: algebra_simps)
  also have "\<dots> mod (?M * ?M) = ((c1 + q + h) mod ?M) * ?M + (c0 + b) mod ?M"
    by (rule mod_square) simp
  finally show ?thesis unfolding c by (simp add: power_add [symmetric])
qed

lemma bit_count_add_count:
  assumes "len < 2 ^ 32"
  shows "bit_count (add_count len s) = (bit_count s + 8 * len) mod 2 ^ 64"
proof -
  let ?b = "8 * len mod 2 ^ 32" and ?h = "len div 2 ^ 29"
  have b: "unat (push_bit 3 (of_nat len :: u32)) = ?b"
    using assms by (simp add: push_bit_eq_mult unat_word_ariths unat_of_nat take_bit_eq_mod mult.commute)
  have h: "unat (drop_bit 29 (of_nat len :: u32)) = ?h"
    using assms by (simp add: drop_bit_eq_div unat_div unat_of_nat take_bit_eq_mod)
  have split: "?h * 2 ^ 32 + ?b = 8 * len"
  proof -
    have "8 * len div 2 ^ 32 = ?h" by simp
    then show ?thesis by (metis div_mult_mod_eq)
  qed
  have c0: "unat (m_count0 s + push_bit 3 (of_nat len)) = (unat (m_count0 s) + ?b) mod 2 ^ 32"
    by (simp add: unat_word_ariths b)
  have "bit_count (add_count len s) =
      (((if (unat (m_count0 s) + ?b) mod 2 ^ 32 < ?b then unat (m_count1 s) + 1
         else unat (m_count1 s)) + ?h) mod 2 ^ 32) * 2 ^ 32 + (unat (m_count0 s) + ?b) mod 2 ^ 32"
    by (simp add: bit_count_def add_count_def Let_def word_less_nat_alt c0 [unfolded b] b h
        unat_word_ariths mod_simps)
  also have "\<dots> = (bit_count s + 8 * len) mod 2 ^ 64"
    using add_carry_nat [of "unat (m_count0 s)" ?b "unat (m_count1 s)" ?h] unat_u32_less split
    by (simp add: bit_count_def)
  finally show ?thesis .
qed

section \<open>Update\<close>

text \<open>
  The abstraction relation: the object has taken in the message \<open>m\<close>. Its state words are the hash
  of the complete blocks, the buffer starts with the incomplete one, and the counter is the
  length in bits.
\<close>

definition hashed :: "CSHA1 \<Rightarrow> byte list \<Rightarrow> bool" where
  "hashed s m \<longleftrightarrow> length (m_buffer s) = 64 \<and> m_state s = hash_blocks m sha_iv \<and>
     take (length m mod 64) (m_buffer s) = tail_block m \<and>
     bit_count s = 8 * length m mod 2 ^ 64"

lemma hashed_Reset: "length (m_buffer s) = 64 \<Longrightarrow> hashed (Reset s) []"
  by (simp add: hashed_def Reset_def bit_count_def sha_iv_def)

lemma unat_and_63: "unat (drop_bit 3 (c :: u32) AND 63) = unat c div 8 mod 64"
proof -
  have m: "(63 :: u32) = mask 6" by (simp add: mask_eq_exp_minus_1)
  have "drop_bit 3 c AND 63 = take_bit 6 (drop_bit 3 c)" unfolding m by (rule take_bit_eq_mask [symmetric])
  then show ?thesis by (simp add: take_bit_eq_mod unat_mod drop_bit_eq_div unat_div)
qed

lemma hashed_fill:
  assumes "hashed s m"
  shows "unat (drop_bit 3 (m_count0 s) AND 63) = length m mod 64"
proof -
  have "unat (m_count0 s) = bit_count s mod 2 ^ 32"
    using unat_u32_less [of "m_count0 s"] by (simp add: bit_count_def)
  also have "\<dots> = 8 * length m mod 2 ^ 32"
    using assms by (simp add: hashed_def mod_mod_cancel)
  finally have "unat (m_count0 s) div 8 mod 64 = 8 * length m div 8 mod 64"
    using div_mod_pow2 [of 29 "8 * length m"] by simp
  then show ?thesis by (simp add: unat_and_63)
qed

lemma memcpy_at_take:
  "j + length d \<le> length buf \<Longrightarrow> take (j + length d) (memcpy_at buf j d) = take j buf @ d"
  "j + length d \<le> length buf \<Longrightarrow> length (memcpy_at buf j d) = length buf"
  by (simp_all add: memcpy_at_def)

lemma add_count_frame [simp]:
  "m_state (add_count n s) = m_state s" "m_buffer (add_count n s) = m_buffer s"
  by (simp_all add: add_count_def Let_def)

lemma Update_short:
  assumes "hashed s m" and "length m mod 64 + length d < 64"
  shows "Update d s = (add_count (length d) s)\<lparr>m_buffer := memcpy_at (m_buffer s) (length m mod 64) d\<rparr>"
  using assms hashed_fill [OF assms(1)] by (simp add: Update_def Let_def)

lemma Update_long:
  assumes "hashed s m" and "64 \<le> length m mod 64 + length d"
  defines "i \<equiv> 64 - length m mod 64"
  shows "m_state (Update d s) = hash_blocks (drop i d) (compress (tail_block m @ take i d) (m_state s))"
    and "m_buffer (Update d s) =
           memcpy_at (tail_block m @ take i d) 0 (tail_block (drop i d))"
    and "bit_count (Update d s) = bit_count (add_count (length d) s)"
proof -
  let ?j = "length m mod 64" and ?s = "add_count (length d) s"
  have j: "?j < 64" "i \<le> length d" "length (take i d) = i" using assms(2) by (auto simp: i_def)
  have buf: "memcpy_at (m_buffer s) ?j (take i d) = tail_block m @ take i d"
    using assms(1) j by (simp add: memcpy_at_def hashed_def i_def)
  define s1 where "s1 = Transform (tail_block m @ take i d)
                          (?s\<lparr>m_buffer := tail_block m @ take i d\<rparr>)"
  have "m_state s1 = compress (tail_block m @ take i d) (m_state s)"
    unfolding s1_def using j by (subst Transform_compress) (simp_all add: i_def)
  moreover have "m_buffer s1 = tail_block m @ take i d" by (simp add: s1_def)
  moreover have "Update d s = (snd (transform_loop d i s1))
      \<lparr>m_buffer := memcpy_at (m_buffer (snd (transform_loop d i s1))) 0 (drop (fst (transform_loop d i s1)) d)\<rparr>"
    using assms(2) buf hashed_fill [OF assms(1)]
    by (simp add: Update_def Let_def case_prod_unfold s1_def i_def)
  ultimately show
    "m_state (Update d s) = hash_blocks (drop i d) (compress (tail_block m @ take i d) (m_state s))"
    "m_buffer (Update d s) = memcpy_at (tail_block m @ take i d) 0 (tail_block (drop i d))"
    "bit_count (Update d s) = bit_count (add_count (length d) s)"
    using transform_loop_blocks [OF j(2), of s1] by (simp_all add: bit_count_def) (simp_all add: s1_def)
qed

lemma hashed_Update:
  assumes h: "hashed s m" and "length d < 2 ^ 32"
  shows "hashed (Update d s) (m @ d)"
proof (cases "length m mod 64 + length d < 64")
  case True
  have "bit_count (Update d s) = 8 * length (m @ d) mod 2 ^ 64"
    using h bit_count_add_count [OF assms(2), of s]
    by (simp add: Update_short [OF h True] bit_count_def hashed_def mod_simps algebra_simps)
  moreover have "(length m + length d) mod 64 = length m mod 64 + length d"
    using True by (metis mod_add_left_eq mod_less)
  moreover have "tail_block (m @ d) = tail_block m @ d"
    using True by (simp add: tail_block_append [of m d])
  moreover have "hash_blocks (m @ d) sha_iv = hash_blocks m sha_iv"
    using True by (simp add: hash_blocks_append [of m d])
  ultimately show ?thesis
    using h True memcpy_at_take [of "length m mod 64" d "m_buffer s"]
    by (simp add: hashed_def Update_short [OF h True])
next
  case False
  let ?i = "64 - length m mod 64"
  let ?b = "tail_block m @ take ?i d"
  have long: "64 \<le> length m mod 64 + length d" using False by simp
  note U = Update_long [OF h long]
  have b: "length ?b = 64" using long by simp
  have md: "tail_block m @ d = ?b @ drop ?i d" by simp
  have "hash_blocks (m @ d) sha_iv = hash_blocks (drop ?i d) (compress ?b (hash_blocks m sha_iv))"
    by (simp only: hash_blocks_append [of m d] md hash_blocks_step [OF b])
  moreover have "tail_block (m @ d) = tail_block (drop ?i d)"
    by (simp only: tail_block_append [of m d] md tail_block_step [OF b])
  moreover have "bit_count (Update d s) = 8 * length (m @ d) mod 2 ^ 64"
    using h bit_count_add_count [OF assms(2), of s]
    by (simp add: U(3) hashed_def mod_simps algebra_simps)
  moreover have tk: "take (length (m @ d) mod 64) (m_buffer (Update d s)) = tail_block (m @ d)"
  proof -
    have "length (m @ d) mod 64 = length (tail_block (drop ?i d))"
      using \<open>tail_block (m @ d) = tail_block (drop ?i d)\<close> length_tail_block [of "m @ d"]
      by (simp only:)
    then show ?thesis
      using \<open>tail_block (m @ d) = tail_block (drop ?i d)\<close>
      by (simp only: U(2)) (simp add: memcpy_at_def)
  qed
  moreover have "length (m_buffer (Update d s)) = 64"
  proof -
    have "length (tail_block (drop ?i d)) \<le> 64" by simp
    then show ?thesis
      using b memcpy_at_take(2) [of 0 "tail_block (drop ?i d)" ?b] by (simp only: U(2))
  qed
  moreover have "m_state (Update d s) = hash_blocks (drop ?i d) (compress ?b (hash_blocks m sha_iv))"
    using h by (simp only: U(1) hashed_def)
  ultimately show ?thesis unfolding hashed_def by (intro conjI) (simp_all only:)
qed

section \<open>Padding and the digest\<close>

lemma pad_gap_zero: "m_count0 s AND 504 = 448 \<Longrightarrow> pad_gap s = 0"
  using and_504_neq_448 [of "m_count0 s"] by (simp add: pad_gap_def)

lemma hashed_pad_zeros:
  "hashed s m \<Longrightarrow> hashed (pad_zeros s) (m @ replicate (pad_gap s) 0)"
proof (induction s arbitrary: m rule: pad_zeros.induct)
  case (1 s)
  show ?case
  proof (cases "m_count0 s AND 504 = 448")
    case True
    then show ?thesis using 1(2) by (simp add: pad_zeros.simps [of s] pad_gap_zero)
  next
    case False
    have "hashed (Update [0] s) (m @ [0])" using 1(2) by (intro hashed_Update) simp_all
    from 1(1) [OF False this] show ?thesis
      using False pad_gap_Update [OF False]
      by (simp add: pad_zeros.simps [of s] replicate_Suc [symmetric] del: replicate_Suc)
  qed
qed

lemma pad_gap_hashed:
  assumes "hashed s (m @ [b])"
  shows "pad_gap s = (119 - length m mod 64) mod 64"
proof -
  define x where "x = length m mod 64"
  have "x < 64" by (simp add: x_def)
  have "unat (m_count0 s) div 8 mod 64 = (if x = 63 then 0 else x + 1)"
    using hashed_fill [OF assms] by (simp add: unat_and_63 x_def mod_Suc)
  then have "pad_gap s = (if x < 56 then 55 - x else 119 - x)"
    using \<open>x < 64\<close> by (auto simp: pad_gap_def Let_def)
  also have "\<dots> = (119 - x) mod 64"
  proof (cases "x < 56")
    case True
    then have "119 - x = (55 - x) + 64" by simp
    then show ?thesis using True by (simp only: mod_add_self2) simp
  next
    case False
    then have "119 - x < 64" by simp
    then show ?thesis using False by simp
  qed
  finally show ?thesis by (simp add: x_def)
qed

lemma ucast_and_255: "(ucast ((w :: u32) AND 255) :: byte) = of_nat (unat w)"
proof -
  have "(255 :: u32) = mask 8" by (simp add: mask_eq_exp_minus_1)
  then have "w AND 255 = take_bit 8 w" by (simp only: take_bit_eq_mask)
  then have "(ucast (w AND 255) :: byte) = ucast (take_bit 8 w)" by (simp only:)
  also have "\<dots> = ucast w" by (rule bit_word_eqI) (simp add: bit_simps)
  finally show ?thesis by simp
qed

lemma unat_drop_bit_u32: "unat (drop_bit k (w :: u32)) = unat w div 2 ^ k"
  unfolding unsigned_drop_bit_eq
  using unat_u32_less [of w] by (simp add: drop_bit_eq_div take_bit_nat_eq_self)

lemma count_byte_nat: "count_byte w i = of_nat (unat w div 256 ^ (3 - i mod 4))"
proof -
  have p: "(2 :: nat) ^ ((3 - i mod 4) * 8) = 256 ^ (3 - i mod 4)"
    by (simp add: power_mult mult.commute [of _ 8])
  show ?thesis
    unfolding count_byte_def ucast_and_255
    by (simp only: unat_drop_bit_u32 p)
qed

lemma of_nat_byte_eq: "a mod 256 = b mod 256 \<Longrightarrow> (of_nat a :: byte) = of_nat b"
  by (simp add: word_of_nat_eq_iff take_bit_eq_mod)

lemma div_pow_mod_256:
  assumes "k < (4 :: nat)"
  shows "n mod 2 ^ 32 div 256 ^ k mod 256 = n div 256 ^ k mod (256 :: nat)"
proof -
  have e: "(2 :: nat) ^ 32 = 256 ^ k * (256 * 256 ^ (3 - k))"
  proof -
    have "(256 :: nat) ^ k * (256 * 256 ^ (3 - k)) = 256 ^ (k + (1 + (3 - k)))"
      by (simp only: power_add power_one_right)
    also have "k + (1 + (3 - k)) = 4" using assms by simp
    finally show ?thesis by simp
  qed
  have "n mod 2 ^ 32 div 256 ^ k = n div 256 ^ k mod (256 * 256 ^ (3 - k))"
    by (simp only: e mod_mult2_eq) simp
  then show ?thesis by (simp only: mod_mod_cancel [OF dvd_triv_left])
qed

lemma finalcount_bit_count:
  "finalcount s = map (\<lambda>i. of_nat (bit_count s div 256 ^ (7 - i))) [0 ..< 8]"
proof -
  have hi: "unat (m_count1 s) = bit_count s div 2 ^ 32" and lo: "unat (m_count0 s) = bit_count s mod 2 ^ 32"
    using unat_u32_less [of "m_count0 s"] by (simp_all add: bit_count_def)
  have "count_byte (if i \<ge> 4 then m_count0 s else m_count1 s) i
        = of_nat (bit_count s div 256 ^ (7 - i))" if "i < 8" for i
  proof (cases "4 \<le> i")
    case True
    with that have "i = 4 \<or> i = 5 \<or> i = 6 \<or> i = 7" by auto
    then have "3 - i mod 4 = 7 - i" by auto
    then have "count_byte (m_count0 s) i = of_nat (bit_count s mod 2 ^ 32 div 256 ^ (7 - i))"
      by (simp only: count_byte_nat lo)
    also have "\<dots> = of_nat (bit_count s div 256 ^ (7 - i))"
      using True that by (intro of_nat_byte_eq div_pow_mod_256) simp
    finally show ?thesis using True by (simp only: if_True)
  next
    case False
    then have "(2 :: nat) ^ 32 * 256 ^ (3 - i) = 256 ^ (7 - i)"
    proof -
      have "(256 :: nat) ^ 4 * 256 ^ (3 - i) = 256 ^ (4 + (3 - i))" by (rule power_add [symmetric])
      also have "4 + (3 - i) = 7 - i" using False by simp
      finally show ?thesis by simp
    qed
    moreover have "3 - i mod 4 = 3 - i" using False by simp
    ultimately have "count_byte (m_count1 s) i = of_nat (bit_count s div 256 ^ (7 - i))"
      by (simp only: count_byte_nat hi div_mult2_eq [symmetric])
    then show ?thesis using False by (simp only: if_False)
  qed
  then show ?thesis by (simp add: finalcount_def)
qed

lemma Final_digest:
  assumes h: "hashed s m" and "length m < 2 ^ 61"
  shows "m_digest (Final s) = sha1_spec m"
proof -
  have "bit_count s = 8 * length m"
    using assms by (simp add: hashed_def)
  then have fc: "finalcount s = map (\<lambda>i. of_nat (8 * length m div 256 ^ (7 - i))) [0 ..< 8]"
    by (simp only: finalcount_bit_count)
  have h1: "hashed (Update [0x80] s) (m @ [0x80])"
    using h by (rule hashed_Update) simp
  have h2: "hashed (pad_zeros (Update [0x80] s))
              ((m @ [0x80]) @ replicate ((119 - length m mod 64) mod 64) 0)"
    using hashed_pad_zeros [OF h1] by (simp only: pad_gap_hashed [OF h1])
  have "hashed (Update (finalcount s) (pad_zeros (Update [0x80] s))) (sha_pad m)"
    using hashed_Update [OF h2, of "finalcount s"] by (simp add: sha_pad_def fc)
  then have "m_state (Update (finalcount s) (pad_zeros (Update [0x80] s)))
             = hash_blocks (sha_pad m) sha_iv"
    by (simp only: hashed_def)
  moreover have "m_digest (Transform b t) = m_digest t" for b t
    by (simp add: Transform_def Let_def case_prod_unfold)
  ultimately show ?thesis
    by (simp add: Final_def Let_def sha1_spec_def)
qed

lemma hashed_fold_Update:
  "hashed s m \<Longrightarrow> \<forall>d \<in> set ds. length d < 2 ^ 32 \<Longrightarrow> hashed (fold Update ds s) (m @ concat ds)"
proof (induction ds arbitrary: s m)
  case (Cons d ds)
  from Cons.IH [OF hashed_Update, of s m d] Cons.prems show ?case by simp
qed simp

lemma m_buffer_Reset [simp]: "m_buffer (Reset s) = m_buffer s"
  by (simp add: Reset_def)

lemma length_digest_bytes [simp]: "length (digest_bytes st) = 20"
  by (simp add: digest_bytes_def)

lemma length_sha1_spec [simp]: "length (sha1_spec m) = 20"
  by (simp add: sha1_spec_def)


definition example_object :: CSHA1 where
  "example_object = \<lparr>m_state = [1, 2, 3, 4, 5], m_count0 = 9, m_count1 = 1,
     m_buffer = replicate 64 0xAA, m_digest = replicate 20 0xBB, m_block = replicate 16 7\<rparr>"


end
