(* ===== verification/Hmac.thy ===== *)
theory Hmac
  imports Sha1_Spec
begin

text \<open>
  The keyed hash of \<^verbatim>\<open>Paas/HMAC_SHA1.h\<close> and \<^verbatim>\<open>Paas/HMAC_SHA1.cpp\<close>. The base class object is the
  field \<open>csha1\<close>; the heap buffers have the size the constructor gives them, and a copy that would
  run past the end of one is the error \<open>Buffer_Overflow\<close>.
\<close>

section \<open>The class CHMAC_SHA1\<close>

datatype mem_error = Buffer_Overflow

record CHMAC_SHA1 =
  csha1 :: CSHA1
  m_ipad :: "byte list"
  m_opad :: "byte list"
  szReport :: "byte list"
  SHA1_Key :: "byte list"
  AppendBuf1 :: "byte list"
  AppendBuf2 :: "byte list"

definition SHA1_DIGEST_LENGTH :: nat where "SHA1_DIGEST_LENGTH = 20"
definition SHA1_BLOCK_SIZE :: nat where "SHA1_BLOCK_SIZE = 64"

text \<open>
  The constructor: a reset \<^verbatim>\<open>CSHA1\<close> and four uninitialised buffers of
  \<open>len + 64 + 1024\<close> bytes; \<open>junk\<close> is what the memory holds.
\<close>

definition CHMAC_new :: "(nat \<Rightarrow> byte) \<Rightarrow> nat \<Rightarrow> CHMAC_SHA1" where
  "CHMAC_new junk len =
     (let buf = map junk [0 ..< len + 64 + 1024] in
      \<lparr>csha1 = Reset \<lparr>m_state = [], m_count0 = 0, m_count1 = 0, m_buffer = map junk [0 ..< 64],
                      m_digest = map junk [0 ..< 20], m_block = []\<rparr>,
       m_ipad = map junk [0 ..< 64], m_opad = map junk [0 ..< 64],
       szReport = buf, SHA1_Key = buf, AppendBuf1 = buf, AppendBuf2 = buf\<rparr>)"

definition memcpy_checked :: "byte list \<Rightarrow> nat \<Rightarrow> byte list \<Rightarrow> mem_error + byte list" where
  "memcpy_checked dst off src =
     (if off + length src \<le> length dst then Inr (memcpy_at dst off src) else Inl Buffer_Overflow)"

definition xor_pad :: "byte list \<Rightarrow> byte list \<Rightarrow> byte list" where
  "xor_pad pad k = map2 (XOR) pad (take (length pad) k)"

definition sha1_of :: "byte list \<Rightarrow> CSHA1 \<Rightarrow> byte list \<times> CSHA1" where
  "sha1_of d c = (let c = Final (Update d (Reset c)) in (GetHash c, c))"

definition HMAC_key :: "byte list \<Rightarrow> CHMAC_SHA1 \<Rightarrow> mem_error + CHMAC_SHA1" where
  "HMAC_key key h =
     rbind (memcpy_checked (SHA1_Key h) 0 (replicate SHA1_BLOCK_SIZE 0)) (\<lambda>k.
       let h = h\<lparr>m_ipad := replicate 64 0x36, m_opad := replicate 64 0x5c\<rparr> in
       if length key > SHA1_BLOCK_SIZE then
         (let (dg, c) = sha1_of key (csha1 h) in
          rbind (memcpy_checked k 0 dg) (\<lambda>k. Inr (h\<lparr>csha1 := c, SHA1_Key := k\<rparr>)))
       else rbind (memcpy_checked k 0 key) (\<lambda>k. Inr (h\<lparr>SHA1_Key := k\<rparr>)))"

definition HMAC_inner :: "byte list \<Rightarrow> CHMAC_SHA1 \<Rightarrow> mem_error + CHMAC_SHA1" where
  "HMAC_inner tx h =
     (let ip = xor_pad (m_ipad h) (SHA1_Key h) in
      rbind (memcpy_checked (AppendBuf1 h) 0 ip) (\<lambda>b1.
      rbind (memcpy_checked b1 (length ip) tx) (\<lambda>b1.
        let (dg, c) = sha1_of (take (length ip + length tx) b1) (csha1 h) in
        rbind (memcpy_checked (szReport h) 0 dg) (\<lambda>rep.
          Inr (h\<lparr>m_ipad := ip, AppendBuf1 := b1, csha1 := c, szReport := rep\<rparr>)))))"

definition HMAC_outer :: "CHMAC_SHA1 \<Rightarrow> mem_error + byte list \<times> CHMAC_SHA1" where
  "HMAC_outer h =
     (let op = xor_pad (m_opad h) (SHA1_Key h) in
      rbind (memcpy_checked (AppendBuf2 h) 0 op) (\<lambda>b2.
      rbind (memcpy_checked b2 (length op) (take SHA1_DIGEST_LENGTH (szReport h))) (\<lambda>b2.
        let (dg, c) = sha1_of (take (length op + SHA1_DIGEST_LENGTH) b2) (csha1 h) in
        Inr (dg, h\<lparr>m_opad := op, AppendBuf2 := b2, csha1 := c\<rparr>))))"

text \<open>\<^verbatim>\<open>HMAC_SHA1(text, text_len, key, key_len, digest)\<close>: the digest and the object after the call.\<close>

definition HMAC_SHA1 ::
  "byte list \<Rightarrow> byte list \<Rightarrow> CHMAC_SHA1 \<Rightarrow> mem_error + byte list \<times> CHMAC_SHA1" where
  "HMAC_SHA1 tx key h =
     rbind (HMAC_key key h) (\<lambda>h. rbind (HMAC_inner tx h) (\<lambda>h. HMAC_outer h))"

section \<open>Correctness with respect to RFC 2104\<close>

definition hmac_block_key :: "byte list \<Rightarrow> byte list" where
  "hmac_block_key key =
     (let k = (if length key > 64 then sha1_spec key else key) in k @ replicate (64 - length k) 0)"

definition hmac_spec :: "byte list \<Rightarrow> byte list \<Rightarrow> byte list" where
  "hmac_spec key tx =
     (let k = hmac_block_key key in
      sha1_spec (map (\<lambda>b. 0x5c XOR b) k @ sha1_spec (map (\<lambda>b. 0x36 XOR b) k @ tx)))"

text \<open>What the constructor establishes and every call keeps.\<close>

definition CHMAC_ok :: "nat \<Rightarrow> CHMAC_SHA1 \<Rightarrow> bool" where
  "CHMAC_ok n h \<longleftrightarrow> length (m_buffer (csha1 h)) = 64 \<and> n \<ge> 1088 \<and>
     length (szReport h) = n \<and> length (SHA1_Key h) = n \<and>
     length (AppendBuf1 h) = n \<and> length (AppendBuf2 h) = n"

lemma CHMAC_ok_new: "CHMAC_ok (len + 64 + 1024) (CHMAC_new junk len)"
  by (simp add: CHMAC_ok_def CHMAC_new_def Let_def)

lemma memcpy_checked_Inr [simp]:
  "off + length src \<le> length dst \<Longrightarrow> memcpy_checked dst off src = Inr (memcpy_at dst off src)"
  by (simp add: memcpy_checked_def)

lemma length_m_buffer_Final [simp]: "length (m_buffer (Final c)) = 64"
  by (simp add: Final_def Let_def)

lemma sha1_of_correct:
  assumes "length (m_buffer c) = 64" and "length d < 2 ^ 32"
  shows "fst (sha1_of d c) = sha1_spec d" and "length (m_buffer (snd (sha1_of d c))) = 64"
proof -
  have "hashed (Update d (Reset c)) d"
    using hashed_Update [OF hashed_Reset [OF assms(1)] assms(2)] by simp
  then show "fst (sha1_of d c) = sha1_spec d"
    using assms(2) by (simp add: sha1_of_def Let_def GetHash_def Final_digest)
  show "length (m_buffer (snd (sha1_of d c))) = 64" by (simp add: sha1_of_def Let_def)
qed

lemma length_hmac_block_key: "length (hmac_block_key key) = 64"
  by (simp add: hmac_block_key_def Let_def)

lemma length_memcpy_at: "off + length src \<le> length dst \<Longrightarrow> length (memcpy_at dst off src) = length dst"
  by (rule memcpy_at_take(2))

lemma memcpy_zero_then:
  assumes "length k \<le> 64" and "64 \<le> length buf"
  shows "take 64 (memcpy_at (memcpy_at buf 0 (replicate 64 0)) 0 k) = k @ replicate (64 - length k) 0"
  using assms by (simp add: memcpy_at_def)

lemma HMAC_key_correct:
  assumes "CHMAC_ok n h" and "length key < 2 ^ 32"
  shows "\<exists>h'. HMAC_key key h = Inr h' \<and> CHMAC_ok n h' \<and> take 64 (SHA1_Key h') = hmac_block_key key \<and>
           m_ipad h' = replicate 64 0x36 \<and> m_opad h' = replicate 64 0x5c"
proof (cases "length key > 64")
  case True
  have c: "length (m_buffer (csha1 h)) = 64" and n: "n \<ge> 1088" "length (SHA1_Key h) = n"
    using assms(1) by (auto simp: CHMAC_ok_def)
  obtain dg c where dg: "sha1_of key (csha1 h) = (dg, c)" by (cases "sha1_of key (csha1 h)")
  then have "dg = sha1_spec key" and "length (m_buffer c) = 64"
    using sha1_of_correct [OF c assms(2)] by simp_all
  then show ?thesis
    using assms True n memcpy_zero_then [of dg "SHA1_Key h"]
    by (simp add: HMAC_key_def dg Let_def SHA1_BLOCK_SIZE_def CHMAC_ok_def hmac_block_key_def
        length_memcpy_at)
next
  case False
  then show ?thesis
    using assms memcpy_zero_then [of key "SHA1_Key h"]
    by (simp add: HMAC_key_def Let_def SHA1_BLOCK_SIZE_def CHMAC_ok_def hmac_block_key_def
        length_memcpy_at)
qed

lemma xor_pad_replicate:
  "take 64 k = b \<Longrightarrow> length b = 64 \<Longrightarrow> xor_pad (replicate 64 p) k = map (\<lambda>x. p XOR x) b"
  by (simp add: xor_pad_def map2_map_map [symmetric] zip_replicate1 comp_def)

lemma memcpy_twice:
  assumes "length a + length b \<le> length buf"
  shows "take (length a + length b) (memcpy_at (memcpy_at buf 0 a) (length a) b) = a @ b"
  using assms by (simp add: memcpy_at_def)

lemma HMAC_inner_correct:
  assumes ok: "CHMAC_ok n h" and k: "take 64 (SHA1_Key h) = k" "length k = 64"
    and ip: "m_ipad h = replicate 64 0x36" and len: "length tx + 64 < 2 ^ 32"
  shows "length tx + 64 \<le> n \<Longrightarrow>
      \<exists>h'. HMAC_inner tx h = Inr h' \<and> CHMAC_ok n h' \<and> SHA1_Key h' = SHA1_Key h \<and> m_opad h' = m_opad h \<and>
        take 20 (szReport h') = sha1_spec (map (\<lambda>b. 0x36 XOR b) k @ tx)"
    and "n < length tx + 64 \<Longrightarrow> HMAC_inner tx h = Inl Buffer_Overflow"
proof -
  let ?ip = "map (\<lambda>b. 0x36 XOR b) k"
  have x: "xor_pad (m_ipad h) (SHA1_Key h) = ?ip" using k by (simp add: ip xor_pad_replicate)
  have l: "length ?ip = 64" using k by simp
  have n: "n \<ge> 1088" "length (AppendBuf1 h) = n" "length (szReport h) = n"
    and c: "length (m_buffer (csha1 h)) = 64"
    using ok by (auto simp: CHMAC_ok_def)
  show "HMAC_inner tx h = Inl Buffer_Overflow" if "n < length tx + 64"
    using that n l by (simp add: HMAC_inner_def x memcpy_checked_def length_memcpy_at)
  assume fits: "length tx + 64 \<le> n"
  let ?b1 = "memcpy_at (memcpy_at (AppendBuf1 h) 0 ?ip) 64 tx"
  have b1: "take (64 + length tx) ?b1 = ?ip @ tx"
    using memcpy_twice [of ?ip tx "AppendBuf1 h"] l fits n by simp
  obtain dg c' where dg: "sha1_of (?ip @ tx) (csha1 h) = (dg, c')"
    by (cases "sha1_of (?ip @ tx) (csha1 h)")
  then have "dg = sha1_spec (?ip @ tx)" and "length (m_buffer c') = 64"
    using sha1_of_correct [OF c, of "?ip @ tx"] len l by (simp_all add: add.commute)
  then show "\<exists>h'. HMAC_inner tx h = Inr h' \<and> CHMAC_ok n h' \<and> SHA1_Key h' = SHA1_Key h \<and> m_opad h' = m_opad h \<and>
        take 20 (szReport h') = sha1_spec (?ip @ tx)"
    using ok fits n l b1 dg
    by (simp add: HMAC_inner_def x Let_def length_memcpy_at CHMAC_ok_def k)
      (simp add: memcpy_at_def)
qed

lemma HMAC_outer_correct:
  assumes ok: "CHMAC_ok n h" and k: "take 64 (SHA1_Key h) = k" "length k = 64"
    and opd: "m_opad h = replicate 64 0x5c" and rep: "take 20 (szReport h) = dg" "length dg = 20"
  shows "\<exists>h'. HMAC_outer h = Inr (sha1_spec (map (\<lambda>b. 0x5c XOR b) k @ dg), h') \<and> CHMAC_ok n h'"
proof -
  let ?op = "map (\<lambda>b. 0x5c XOR b) k"
  have x: "xor_pad (m_opad h) (SHA1_Key h) = ?op" using k by (simp add: opd xor_pad_replicate)
  have l: "length ?op = 64" using k by simp
  have n: "n \<ge> 1088" "length (AppendBuf2 h) = n" and c: "length (m_buffer (csha1 h)) = 64"
    using ok by (auto simp: CHMAC_ok_def)
  let ?b2 = "memcpy_at (memcpy_at (AppendBuf2 h) 0 ?op) 64 dg"
  have b2: "take 84 ?b2 = ?op @ dg"
    using memcpy_twice [of ?op dg "AppendBuf2 h"] l n rep by simp
  obtain d' c' where d': "sha1_of (?op @ dg) (csha1 h) = (d', c')"
    by (cases "sha1_of (?op @ dg) (csha1 h)")
  then have "d' = sha1_spec (?op @ dg)" and "length (m_buffer c') = 64"
    using sha1_of_correct [OF c, of "?op @ dg"] l rep by simp_all
  then show ?thesis
    using ok n l b2 d' rep k
    by (simp add: HMAC_outer_def x Let_def length_memcpy_at CHMAC_ok_def SHA1_DIGEST_LENGTH_def)
qed

lemma HMAC_SHA1_ok:
  assumes "CHMAC_ok n h" and "length key < 2 ^ 32" and "length tx + 64 < 2 ^ 32"
    and "length tx + 64 \<le> n"
  shows "\<exists>h'. HMAC_SHA1 tx key h = Inr (hmac_spec key tx, h') \<and> CHMAC_ok n h'"
proof -
  obtain h1 where h1: "HMAC_key key h = Inr h1" "CHMAC_ok n h1"
    "take 64 (SHA1_Key h1) = hmac_block_key key" "m_ipad h1 = replicate 64 0x36"
    "m_opad h1 = replicate 64 0x5c"
    using HMAC_key_correct [OF assms(1,2)] by blast
  obtain h2 where h2: "HMAC_inner tx h1 = Inr h2" "CHMAC_ok n h2" "SHA1_Key h2 = SHA1_Key h1"
    "m_opad h2 = m_opad h1"
    "take 20 (szReport h2) = sha1_spec (map (\<lambda>b. 0x36 XOR b) (hmac_block_key key) @ tx)"
    using HMAC_inner_correct(1) [OF h1(2,3) length_hmac_block_key h1(4) assms(3,4)] by blast
  obtain h3 where
    "HMAC_outer h2 = Inr (sha1_spec (map (\<lambda>b. 0x5c XOR b) (hmac_block_key key) @ take 20 (szReport h2)), h3)"
    "CHMAC_ok n h3"
    using HMAC_outer_correct [OF h2(2) _ length_hmac_block_key, of key] h1(3,5) h2 by auto
  then show ?thesis using h1(1) h2 by (simp add: HMAC_SHA1_def hmac_spec_def Let_def)
qed

lemma HMAC_SHA1_overflow:
  assumes "CHMAC_ok n h" and "length key < 2 ^ 32" and "length tx + 64 < 2 ^ 32"
    and "n < length tx + 64"
  shows "HMAC_SHA1 tx key h = Inl Buffer_Overflow"
proof -
  obtain h1 where h1: "HMAC_key key h = Inr h1" "CHMAC_ok n h1"
    "take 64 (SHA1_Key h1) = hmac_block_key key" "m_ipad h1 = replicate 64 0x36"
    using HMAC_key_correct [OF assms(1,2)] by blast
  then show ?thesis
    using HMAC_inner_correct(2) [OF h1(2,3) length_hmac_block_key h1(4) assms(3,4)]
    by (simp add: HMAC_SHA1_def)
qed

text \<open>
  C35. A \<^verbatim>\<open>CHMAC_SHA1\<close> object built for \<open>len\<close> bytes computes the RFC 2104 HMAC of a text exactly
  when the text is at most \<open>len + 1024\<close> bytes long; a longer text overruns \<^verbatim>\<open>AppendBuf1\<close>.
\<close>

theorem HMAC_SHA1_correct:
  assumes "length key < 2 ^ 31" and "length tx < 2 ^ 31"
  shows "(if length tx \<le> len + 1024
          then \<exists>h'. HMAC_SHA1 tx key (CHMAC_new junk len) = Inr (hmac_spec key tx, h')
          else HMAC_SHA1 tx key (CHMAC_new junk len) = Inl Buffer_Overflow)"
  using HMAC_SHA1_ok [OF CHMAC_ok_new, of key tx len junk]
    HMAC_SHA1_overflow [OF CHMAC_ok_new, of key tx len junk] assms by auto

theorem HMAC_SHA1_correct_witness:
  "\<exists>h'. HMAC_SHA1 (bytes_of ''a=b'') (bytes_of ''key'') (CHMAC_new (\<lambda>_. 7) 0)
     = Inr (hmac_spec (bytes_of ''key'') (bytes_of ''a=b''), h')"
  using HMAC_SHA1_correct [of "bytes_of ''key''" "bytes_of ''a=b''" 0 "\<lambda>_. 7"] by simp

end
