(* ===== verification/Base64.thy ===== *)
theory Base64
  imports Prelude
begin

text \<open>
  The Base64 codec of \<^verbatim>\<open>Paas/base64.cpp\<close>. An array together with its fill index
  (\<^verbatim>\<open>char_array_3\<close>/\<^verbatim>\<open>char_array_4\<close> and \<^verbatim>\<open>i\<close>) is the list of the cells filled so far.
  All intermediate values fit in eight bits or are truncated to \<^verbatim>\<open>unsigned char\<close> by the
  assignment, so the arithmetic is on bytes.
\<close>

section \<open>The codec\<close>

definition base64_chars :: string where
  "base64_chars = ''ABCDEFGHIJKLMNOPQRSTUVWXYZ'' @ ''abcdefghijklmnopqrstuvwxyz''
                  @ ''0123456789+/''"

text \<open>\<^verbatim>\<open>isalnum\<close> in the C locale.\<close>

definition isalnum :: "char \<Rightarrow> bool" where
  "isalnum c = (let n = (of_char c :: nat) in
     48 \<le> n \<and> n \<le> 57 \<or> 65 \<le> n \<and> n \<le> 90 \<or> 97 \<le> n \<and> n \<le> 122)"

definition is_base64 :: "char \<Rightarrow> bool" where
  "is_base64 c \<longleftrightarrow> isalnum c \<or> c = CHR ''+'' \<or> c = CHR ''/''"

text \<open>The four six-bit groups of three bytes.\<close>

definition enc_group :: "byte \<Rightarrow> byte \<Rightarrow> byte \<Rightarrow> byte list" where
  "enc_group a b c =
     [drop_bit 2 (a AND 0xfc),
      push_bit 4 (a AND 0x03) + drop_bit 4 (b AND 0xf0),
      push_bit 2 (b AND 0x0f) + drop_bit 6 (c AND 0xc0),
      c AND 0x3f]"

definition enc_chars :: "byte list \<Rightarrow> string" where
  "enc_chars gs = map (\<lambda>g. base64_chars ! unat g) gs"

fun encode_loop :: "byte list \<Rightarrow> byte list \<Rightarrow> string \<Rightarrow> byte list \<times> string" where
  "encode_loop a3 [] ret = (a3, ret)"
| "encode_loop a3 (x # xs) ret =
     (let a3 = a3 @ [x] in
      if length a3 = 3
      then encode_loop [] xs (ret @ enc_chars (enc_group (a3 ! 0) (a3 ! 1) (a3 ! 2)))
      else encode_loop a3 xs ret)"

definition base64_encode :: "byte list \<Rightarrow> string" where
  "base64_encode bytes =
     (let (a3, ret) = encode_loop [] bytes []; i = length a3 in
      if i = 0 then ret
      else let p = a3 @ replicate (3 - i) 0;
               a4 = enc_group (p ! 0) (p ! 1) (p ! 2) in
           ret @ enc_chars (take (i + 1) a4) @ replicate (3 - i) (CHR ''=''))"

text \<open>
  \<^verbatim>\<open>base64_chars.find(c)\<close>, assigned to an \<^verbatim>\<open>unsigned char\<close>; \<^verbatim>\<open>npos\<close> becomes 255.
\<close>

fun find_index :: "char \<Rightarrow> string \<Rightarrow> nat \<Rightarrow> nat option" where
  "find_index c [] i = None"
| "find_index c (x # xs) i = (if x = c then Some i else find_index c xs (Suc i))"

definition base64_find :: "char \<Rightarrow> byte" where
  "base64_find c = (case find_index c base64_chars 0 of None \<Rightarrow> 255 | Some i \<Rightarrow> of_nat i)"

definition dec_group :: "byte \<Rightarrow> byte \<Rightarrow> byte \<Rightarrow> byte \<Rightarrow> byte list" where
  "dec_group a b c d =
     [push_bit 2 a + drop_bit 4 (b AND 0x30),
      push_bit 4 (b AND 0xf) + drop_bit 2 (c AND 0x3c),
      push_bit 6 (c AND 0x3) + d]"

fun decode_loop :: "string \<Rightarrow> string \<Rightarrow> byte list \<Rightarrow> string \<times> byte list" where
  "decode_loop a4 [] ret = (a4, ret)"
| "decode_loop a4 (x # xs) ret =
     (if x \<noteq> CHR ''='' \<and> is_base64 x then
        (let a4 = a4 @ [x] in
         if length a4 = 4
         then let v = map base64_find a4 in
              decode_loop [] xs (ret @ dec_group (v ! 0) (v ! 1) (v ! 2) (v ! 3))
         else decode_loop a4 xs ret)
      else (a4, ret))"

text \<open>
  The cells of \<^verbatim>\<open>char_array_4\<close> that the last, partial group does not fill hold whatever was
  there before; \<open>stale\<close> stands for them.
\<close>

definition decode_finish :: "(nat \<Rightarrow> byte) \<Rightarrow> string \<times> byte list \<Rightarrow> byte list" where
  "decode_finish stale st =
     (let (a4, ret) = st; i = length a4 in
      if i = 0 then ret
      else let v = map base64_find a4 @ map stale [i ..< 4];
               a3 = dec_group (v ! 0) (v ! 1) (v ! 2) (v ! 3) in
           ret @ take (i - 1) a3)"

definition base64_decode :: "(nat \<Rightarrow> byte) \<Rightarrow> string \<Rightarrow> byte list" where
  "base64_decode stale s = decode_finish stale (decode_loop [] s [])"

section \<open>Reference definition\<close>

text \<open>The codec by recursion on whole groups, as the RFC describes it.\<close>

fun b64_spec :: "byte list \<Rightarrow> string" where
  "b64_spec (a # b # c # xs) = enc_chars (enc_group a b c) @ b64_spec xs"
| "b64_spec [a, b] = enc_chars (take 3 (enc_group a b 0)) @ ''=''"
| "b64_spec [a] = enc_chars (take 2 (enc_group a 0 0)) @ ''==''"
| "b64_spec [] = []"

lemma encode_loop_spec:
  "length a3 < 3 \<Longrightarrow>
   (let (r, s) = encode_loop a3 xs ret in length r < 3 \<and> s @ b64_spec r = ret @ b64_spec (a3 @ xs))"
proof (induction a3 xs ret rule: encode_loop.induct)
  case (1 a3 ret)
  then show ?case by simp
next
  case (2 a3 x xs ret)
  show ?case
  proof (cases "length (a3 @ [x]) = 3")
    case True
    then obtain a b where "a3 = [a, b]" by (auto simp: length_Suc_conv numeral_eq_Suc)
    with 2(1) [OF refl] show ?thesis by (simp add: Let_def case_prod_unfold)
  next
    case False
    with 2(2) [OF refl] 2(3) show ?thesis by (simp add: Let_def case_prod_unfold)
  qed
qed

lemma base64_encode_spec: "base64_encode bs = b64_spec bs"
proof -
  obtain r s where rs: "encode_loop [] bs [] = (r, s)" by (cases "encode_loop [] bs []")
  from encode_loop_spec [of "[]" bs "[]"] rs have "length r < 3" and s: "s @ b64_spec r = b64_spec bs"
    by auto
  then consider "r = []" | a where "r = [a]" | a b where "r = [a, b]"
    by (auto simp: less_Suc_eq length_Suc_conv numeral_eq_Suc)
  then have "base64_encode bs = s @ b64_spec r"
    by cases (simp_all add: base64_encode_def rs Let_def numeral_eq_Suc)
  with s show ?thesis by simp
qed

section \<open>Groups of six bits\<close>

lemma enc_group_or:
  "enc_group a b c =
     [drop_bit 2 a,
      push_bit 4 (a AND 0x03) OR drop_bit 4 b,
      push_bit 2 (b AND 0x0f) OR drop_bit 6 c,
      c AND 0x3f]"
proof -
  have "push_bit 4 (a AND 0x03) + drop_bit 4 (b AND 0xf0) = push_bit 4 (a AND 0x03) OR drop_bit 4 b"
    by (subst byte_add_or) ((rule byte_eqI; simp add: bit_simps), (rule byte_eqI; simp add: bit_simps))
  moreover have
    "push_bit 2 (b AND 0x0f) + drop_bit 6 (c AND 0xc0) = push_bit 2 (b AND 0x0f) OR drop_bit 6 c"
    by (subst byte_add_or) ((rule byte_eqI; simp add: bit_simps), (rule byte_eqI; simp add: bit_simps))
  moreover have "drop_bit 2 (a AND 0xfc) = drop_bit 2 a"
    by (rule byte_eqI; simp add: bit_simps)
  ultimately show ?thesis by (simp add: enc_group_def)
qed

lemma dec_group_or:
  "dec_group a b c (d AND 0x3f) =
     [push_bit 2 a OR drop_bit 4 (b AND 0x30),
      push_bit 4 (b AND 0xf) OR drop_bit 2 (c AND 0x3c),
      push_bit 6 (c AND 0x3) OR (d AND 0x3f)]"
  unfolding dec_group_def list.inject
  by (intro conjI refl byte_add_or; rule byte_eqI; simp add: bit_simps)

lemma dec_enc_group:
  "enc_group a b c = [w, x, y, z] \<Longrightarrow> dec_group w x y z = [a, b, c]"
proof -
  assume "enc_group a b c = [w, x, y, z]"
  then have g: "w = drop_bit 2 a" "x = push_bit 4 (a AND 0x03) OR drop_bit 4 b"
    "y = push_bit 2 (b AND 0x0f) OR drop_bit 6 c" "z = c AND 0x3f"
    by (simp_all add: enc_group_or)
  show ?thesis
    unfolding g dec_group_or list.inject
    by (intro conjI refl; rule byte_eqI; simp add: bit_simps)
qed

lemma byte_less_64I: "x AND 0x3f = x \<Longrightarrow> unat (x :: byte) < 64"
proof -
  assume "x AND 0x3f = x"
  moreover have "unat (x AND 0x3f) \<le> unat (0x3f :: byte)"
    by (rule word_and_le1 [THEN word_le_nat_alt [THEN iffD1]])
  ultimately show ?thesis by simp
qed

lemma enc_group_less_64: "\<forall>g \<in> set (enc_group a b c). unat g < 64"
  unfolding enc_group_or
  by (simp, intro conjI; rule byte_less_64I; rule byte_eqI; simp add: bit_simps)

lemma base64_alphabet:
  "i < 64 \<Longrightarrow> base64_find (base64_chars ! i) = of_nat i"
  "i < 64 \<Longrightarrow> is_base64 (base64_chars ! i)"
  "i < 64 \<Longrightarrow> base64_chars ! i \<noteq> CHR ''=''"
proof -
  have "\<forall>i < 64. base64_find (base64_chars ! i) = of_nat i \<and> is_base64 (base64_chars ! i)
          \<and> base64_chars ! i \<noteq> CHR ''=''"
    by code_simp
  then show "i < 64 \<Longrightarrow> base64_find (base64_chars ! i) = of_nat i"
    "i < 64 \<Longrightarrow> is_base64 (base64_chars ! i)"
    "i < 64 \<Longrightarrow> base64_chars ! i \<noteq> CHR ''=''"
    by blast+
qed

lemma base64_find_enc:
  "unat g < 64 \<Longrightarrow> base64_find (base64_chars ! unat g) = g"
  by (simp add: base64_alphabet)

section \<open>Decoding what was encoded\<close>

lemma decode_loop_collect:
  assumes "\<forall>g \<in> set gs. unat g < 64" and "length a4 + length gs < 4"
  shows "decode_loop a4 (enc_chars gs @ rest) ret = decode_loop (a4 @ enc_chars gs) rest ret"
  using assms
  by (induction gs arbitrary: a4) (simp_all add: enc_chars_def base64_alphabet)

lemma decode_loop_group:
  assumes "\<forall>g \<in> set [w, x, y, z]. unat g < 64"
  shows "decode_loop [] (enc_chars [w, x, y, z] @ rest) ret
         = decode_loop [] rest (ret @ dec_group w x y z)"
proof -
  have "decode_loop [] (enc_chars ([w, x, y] @ [z]) @ rest) ret
        = decode_loop (enc_chars [w, x, y]) (enc_chars [z] @ rest) ret"
    using decode_loop_collect [of "[w, x, y]" "[]" "enc_chars [z] @ rest" ret] assms
    by (simp add: enc_chars_def)
  also have "\<dots> = decode_loop [] rest (ret @ dec_group w x y z)"
    using assms by (simp add: enc_chars_def base64_alphabet base64_find_enc)
  finally show ?thesis by simp
qed

lemma decode_finish_spec:
  "decode_finish stale (decode_loop [] (b64_spec bs) ret) = ret @ bs"
proof (induction bs arbitrary: ret rule: b64_spec.induct)
  case (1 a b c xs)
  obtain w x y z where g: "enc_group a b c = [w, x, y, z]" by (simp add: enc_group_def)
  then have l: "\<forall>g \<in> set [w, x, y, z]. unat g < 64" by (metis enc_group_less_64)
  show ?case
    using 1 [of "ret @ [a, b, c]"]
    by (simp add: g decode_loop_group [OF l] dec_enc_group [OF g] del: decode_loop.simps)
next
  case (2 a b)
  obtain w x y z where g: "enc_group a b 0 = [w, x, y, z]" by (simp add: enc_group_def)
  then have l: "\<forall>g \<in> set [w, x, y]. unat g < 64"
    by (metis enc_group_less_64 list.set_intros set_ConsD)
  have "decode_loop [] (b64_spec [a, b]) ret = (enc_chars [w, x, y], ret)"
    using decode_loop_collect [OF l, of "[]" "''=''" ret] by (simp add: g)
  moreover have "take (Suc (Suc 0)) (dec_group w x y v) = [a, b]" for v
    using dec_enc_group [OF g] by (simp add: dec_group_def)
  ultimately show ?case
    using l by (simp add: decode_finish_def enc_chars_def base64_find_enc Let_def)
next
  case (3 a)
  obtain w x y z where g: "enc_group a 0 0 = [w, x, y, z]" by (simp add: enc_group_def)
  then have l: "\<forall>g \<in> set [w, x]. unat g < 64"
    by (metis enc_group_less_64 list.set_intros set_ConsD)
  have "decode_loop [] (b64_spec [a]) ret = (enc_chars [w, x], ret)"
    using decode_loop_collect [OF l, of "[]" "''==''" ret] by (simp add: g)
  moreover have "take (Suc 0) (dec_group w x v u) = [a]" for u v
    using dec_enc_group [OF g] by (simp add: dec_group_def)
  ultimately show ?case
    using l by (simp add: decode_finish_def enc_chars_def base64_find_enc Let_def)
next
  case 4
  then show ?case by (simp add: decode_finish_def)
qed

text \<open>
  C37. Decoding the output of \<^verbatim>\<open>base64_encode\<close> with \<^verbatim>\<open>base64_decode\<close> returns the encoded bytes,
  for every byte sequence and whatever the unfilled cells of the decoder's array hold.
\<close>

theorem base64_roundtrip: "base64_decode stale (base64_encode bs) = bs"
  using decode_finish_spec [of stale bs "[]"] by (simp add: base64_decode_def base64_encode_spec)

lemma length_b64_spec: "length (b64_spec bs) = 4 * ((length bs + 2) div 3)"
  by (induction bs rule: b64_spec.induct) (simp_all add: enc_chars_def enc_group_def, presburger)

end
