(* ===== verification/Signature.thy ===== *)
theory Signature
  imports Base64 Hmac
begin

text \<open>
  The request signing of \<^verbatim>\<open>Paas/paas_common.cpp\<close>: line-wrapped Base64, URL encoding, the random
  nonce and the signed URL. The random source and the formatted local time are arguments.
\<close>

section \<open>Base64 with line breaks\<close>

definition CRLF :: string where
  "CRLF = [CHR 0x0D, CHR 0x0A]"

definition enc6 :: "byte \<Rightarrow> char" where
  "enc6 b = base64_chars ! unat b"

text \<open>
  The loop over whole groups with \<^verbatim>\<open>LineLength\<close>, then the remainder. The \<^verbatim>\<open>int\<close> shifts of
  the source are followed by \<^verbatim>\<open>& 0x3F\<close>, so eight bits are enough.
\<close>

fun Base64_loop :: "nat \<Rightarrow> byte list \<Rightarrow> string" where
  "Base64_loop LineLength (a # b # c # xs) =
     [enc6 (drop_bit 2 a), enc6 ((push_bit 4 a OR drop_bit 4 b) AND 0x3F),
      enc6 ((push_bit 2 b OR drop_bit 6 c) AND 0x3F), enc6 (c AND 0x3F)]
     @ (if LineLength + 4 = 76 then CRLF @ Base64_loop 0 xs else Base64_loop (LineLength + 4) xs)"
| "Base64_loop LineLength [a, b] =
     [enc6 (drop_bit 2 (a AND 0xFC)), enc6 (push_bit 4 (a AND 0x03) OR drop_bit 4 (b AND 0xF0)),
      enc6 (push_bit 2 (b AND 0x0F))] @ ''=''"
| "Base64_loop LineLength [a] =
     [enc6 (drop_bit 2 (a AND 0xFC)), enc6 (push_bit 4 (a AND 0x03))] @ ''==''"
| "Base64_loop LineLength [] = []"

definition Base64_Encode :: "byte list \<Rightarrow> string" where
  "Base64_Encode Data = Base64_loop 0 Data"

section \<open>URL encoding\<close>

definition ToHex :: "byte \<Rightarrow> byte" where
  "ToHex x = (if x > 9 then x + 55 else x + 48)"

definition url_plain :: "char \<Rightarrow> bool" where
  "url_plain c \<longleftrightarrow> isalnum c \<or> c \<in> {CHR ''-'', CHR ''_'', CHR ''.'', CHR ''~''}"

definition url_char :: "char \<Rightarrow> string" where
  "url_char c =
     (if url_plain c then [c]
      else if c = CHR '' '' then ''+''
      else [CHR ''%'', chr (ToHex (drop_bit 4 (ord c))), chr (ToHex (ord c mod 16))])"

fun UrlEncode :: "string \<Rightarrow> string" where
  "UrlEncode [] = []"
| "UrlEncode (c # s) = url_char c @ UrlEncode s"

section \<open>The nonce\<close>

definition hex_digit :: "nat \<Rightarrow> char" where
  "hex_digit d = (if d < 10 then char_of (48 + d) else char_of (87 + d))"

fun hex_of :: "nat \<Rightarrow> string" where
  "hex_of n = (if n < 16 then [hex_digit n] else hex_of (n div 16) @ [hex_digit (n mod 16)])"

declare hex_of.simps [simp del]

text \<open>One call of \<^verbatim>\<open>random_char\<close> per element of the list.\<close>

definition generate_hex :: "nat list \<Rightarrow> string" where
  "generate_hex rcs = concat (map (\<lambda>rc. let hex = hex_of rc in
                                        if length hex < 2 then CHR ''0'' # hex else hex) rcs)"

section \<open>The signed URL\<close>

definition sign_map :: "string \<Rightarrow> string \<Rightarrow> string \<Rightarrow> string \<Rightarrow> string omap \<Rightarrow> string omap" where
  "sign_map access_key_id time_stamp nonce jsonstr url_params =
     (let m = map_insert ''access_key_id'' access_key_id [];
          m = map_insert ''timestamp'' time_stamp m;
          m = map_insert ''signature_nonce'' nonce m;
          m = (if jsonstr \<noteq> [] then map_insert ''request_body'' jsonstr m else m)
      in if url_params \<noteq> [] then fold (\<lambda>(k, v). map_insert k v) url_params m else m)"

fun sign_join :: "string omap \<Rightarrow> string" where
  "sign_join [] = []"
| "sign_join ((k, v) # m) = k @ ''='' @ v @ (if m = [] then [] else ''&'') @ sign_join m"

definition param_suffix :: "string omap \<Rightarrow> string" where
  "param_suffix ps = concat (map (\<lambda>(k, v). ''&'' @ k @ ''='' @ v) ps)"

text \<open>
  \<open>rcs\<close> are the sixteen random bytes of the nonce, \<open>time_stamp\<close> the local time as
  \<^verbatim>\<open>strftime\<close> formats it, \<open>junk\<close> the contents of uninitialised memory.
\<close>

definition generateSignature ::
  "(nat \<Rightarrow> byte) \<Rightarrow> nat list \<Rightarrow> string \<Rightarrow> string \<Rightarrow> string \<Rightarrow> string \<Rightarrow> string \<Rightarrow> string omap
   \<Rightarrow> mem_error + string" where
  "generateSignature junk rcs time_stamp server_api access_key_id access_key_secret jsonstr url_params =
     (let nonce = generate_hex rcs;
          sha1_key = access_key_secret @ ''&'';
          sign_string = sign_join (sign_map access_key_id time_stamp nonce jsonstr url_params)
      in rbind (HMAC_SHA1 (bytes_of sign_string) (bytes_of sha1_key) (CHMAC_new junk (length jsonstr)))
           (\<lambda>(byte_sha1, _).
              let signature = UrlEncode (Base64_Encode byte_sha1) in
              Inr (server_api @ ''?access_key_id='' @ access_key_id @ param_suffix url_params
                   @ ''&signature='' @ signature @ ''&signature_nonce='' @ nonce
                   @ ''&timestamp='' @ time_stamp)))"

section \<open>Line breaks do not change the encoding\<close>

lemma enc_chars_Cons: "enc_chars (g # gs) = enc6 g # enc_chars gs"
  by (simp add: enc_chars_def enc6_def)

lemma enc_chars_Nil: "enc_chars [] = []"
  by (simp add: enc_chars_def)

lemma group_masks:
  "(push_bit 4 a OR drop_bit 4 b) AND 0x3F = push_bit 4 (a AND 0x03) OR drop_bit 4 (b :: byte)"
  "(push_bit 2 b OR drop_bit 6 c) AND 0x3F = push_bit 2 (b AND 0x0F) OR drop_bit 6 (c :: byte)"
  "drop_bit 2 (a AND 0xFC) = drop_bit 2 a"
  "push_bit 4 (a AND 0x03) OR drop_bit 4 (b AND 0xF0) = push_bit 4 (a AND 0x03) OR drop_bit 4 b"
  by (rule byte_eqI; simp add: bit_simps)+

lemma enc6_not_break:
  assumes "unat g < 64"
  shows "enc6 g \<noteq> CHR 0x0D" and "enc6 g \<noteq> CHR 0x0A"
  using base64_alphabet(2) [OF assms]
  by (auto simp: enc6_def is_base64_def isalnum_def Let_def)

lemma enc_chars_filter:
  "\<forall>g \<in> set gs. unat g < 64 \<Longrightarrow> filter (\<lambda>c. c \<notin> set CRLF) (enc_chars gs) = enc_chars gs"
  by (induction gs) (simp_all add: enc_chars_Cons enc_chars_Nil CRLF_def enc6_not_break)

lemma Base64_loop_group:
  "Base64_loop L (a # b # c # xs) = enc_chars (enc_group a b c) @
     (if L + 4 = 76 then CRLF @ Base64_loop 0 xs else Base64_loop (L + 4) xs)"
  "Base64_loop L [a, b] = enc_chars (take 3 (enc_group a b 0)) @ ''=''"
  "Base64_loop L [a] = enc_chars (take 2 (enc_group a 0 0)) @ ''==''"
  unfolding Base64_loop.simps group_masks enc_group_or
  by (simp_all add: enc_chars_Cons enc_chars_Nil)

lemma Base64_loop_filter: "filter (\<lambda>c. c \<notin> set CRLF) (Base64_loop L bs) = b64_spec bs"
proof (induction L bs rule: Base64_loop.induct)
  case (1 L a b c xs)
  then show ?case
    using enc_chars_filter [OF enc_group_less_64 [of a b c]]
    by (simp add: Base64_loop_group del: Base64_loop.simps)
next
  case (2 L a b)
  have "\<forall>g \<in> set (take 3 (enc_group a b 0)). unat g < 64"
    using enc_group_less_64 [of a b 0] by (meson in_set_takeD)
  then show ?case
    by (simp add: Base64_loop_group enc_chars_filter del: Base64_loop.simps) (simp add: CRLF_def)
next
  case (3 L a)
  have "\<forall>g \<in> set (take 2 (enc_group a 0 0)). unat g < 64"
    using enc_group_less_64 [of a 0 0] by (meson in_set_takeD)
  then show ?case
    by (simp add: Base64_loop_group enc_chars_filter del: Base64_loop.simps) (simp add: CRLF_def)
qed simp

lemma Base64_loop_short: "length bs < 3 * (19 - q) \<Longrightarrow> Base64_loop (4 * q) bs = b64_spec bs"
proof (induction bs arbitrary: q rule: b64_spec.induct)
  case (1 a b c xs)
  then have "length xs < 3 * (19 - Suc q)" by simp
  from 1(1) [OF this] 1(2) show ?case
    by (auto simp: Base64_loop_group add.commute simp del: Base64_loop.simps)
qed (simp_all only: Base64_loop_group Base64_loop.simps b64_spec.simps)

text \<open>
  Without its line breaks the output of \<^verbatim>\<open>PaasCommon::Base64_Encode\<close> is that of
  \<^verbatim>\<open>base64_encode\<close>, and for fewer than 57 bytes (a digest has 20) there is no line break at all.
\<close>

theorem Base64_Encode_equiv:
  "filter (\<lambda>c. c \<notin> set CRLF) (Base64_Encode bs) = base64_encode bs
   \<and> (length bs \<ge> 57 \<or> Base64_Encode bs = base64_encode bs)"
  using Base64_loop_filter [of 0 bs] Base64_loop_short [of bs 0]
  by (cases "length bs < 57") (simp_all add: Base64_Encode_def base64_encode_spec)

section \<open>URL encoding can be undone\<close>

definition unhex :: "char \<Rightarrow> nat" where
  "unhex c = (let n = (of_char c :: nat) in if n \<ge> 65 then n - 55 else n - 48)"

text \<open>The reference decoder of \<^verbatim>\<open>application/x-www-form-urlencoded\<close>.\<close>

fun url_decode :: "string \<Rightarrow> string" where
  "url_decode [] = []"
| "url_decode (c # s) =
     (if c = CHR ''+'' then CHR '' '' # url_decode s
      else if c = CHR ''%'' then
        (case s of h # l # t \<Rightarrow> char_of (16 * unhex h + unhex l) # url_decode t | _ \<Rightarrow> [])
      else c # url_decode s)"

lemma of_char_chr: "(of_char (chr b) :: nat) = unat b"
  by (simp add: chr_def of_char_of)

lemma unat_ToHex: "unat x < 16 \<Longrightarrow> unat (ToHex x) = (if unat x > 9 then unat x + 55 else unat x + 48)"
  by (auto simp: ToHex_def word_less_nat_alt unat_word_ariths)

lemma unhex_ToHex: "unat x < 16 \<Longrightarrow> unhex (chr (ToHex x)) = unat x"
  by (auto simp: unhex_def of_char_chr unat_ToHex Let_def)

lemma isalnum_ToHex: "unat x < 16 \<Longrightarrow> isalnum (chr (ToHex x))"
  by (auto simp: isalnum_def of_char_chr unat_ToHex Let_def)

lemma unat_nibbles: "unat (drop_bit 4 (b :: byte)) = unat b div 16" "unat (b mod 16) = unat b mod 16"
  by (simp_all add: drop_bit_eq_div unat_div unat_mod)

lemma nibble_less: "unat (b :: byte) div 16 < 16"
  by (rule less_mult_imp_div_less) (use unat_byte_less [of b] in simp)

lemma url_decode_append: "url_decode (url_char c @ s) = c # url_decode s"
proof (cases "url_plain c")
  case True
  then have "c \<noteq> CHR ''+''" "c \<noteq> CHR ''%''" by (auto simp: url_plain_def isalnum_def Let_def)
  with True show ?thesis by (simp add: url_char_def)
next
  case False
  have "unat (ord c) div 16 < 16" by (rule nibble_less)
  then have "char_of (16 * unhex (chr (ToHex (drop_bit 4 (ord c)))) + unhex (chr (ToHex (ord c mod 16)))) = c"
    using chr_ord [of c, unfolded chr_def] by (simp add: unhex_ToHex unat_nibbles)
  with False show ?thesis by (simp add: url_char_def)
qed

definition url_safe :: "char \<Rightarrow> bool" where
  "url_safe c \<longleftrightarrow> url_plain c \<or> c = CHR ''+'' \<or> c = CHR ''%''"

lemma url_char_safe: "list_all url_safe (url_char c)"
proof -
  have "unat (ord c) div 16 < 16" by (rule nibble_less)
  then have "isalnum (chr (ToHex (drop_bit 4 (ord c))))" "isalnum (chr (ToHex (ord c mod 16)))"
    by (simp_all add: isalnum_ToHex unat_nibbles)
  then show ?thesis by (simp add: url_char_def url_safe_def url_plain_def)
qed

text \<open>
  \<^verbatim>\<open>UrlEncode\<close> loses nothing: the standard decoder gives the string back. Its output consists of
  unreserved characters, \<^verbatim>\<open>+\<close> and \<^verbatim>\<open>%\<close> only, so it can stand in a query string.
\<close>

theorem UrlEncode_roundtrip: "url_decode (UrlEncode s) = s \<and> list_all url_safe (UrlEncode s)"
  using url_char_safe by (induction s) (simp_all add: url_decode_append)

section \<open>The signature\<close>

lemma UrlEncode_append: "UrlEncode (s @ t) = UrlEncode s @ UrlEncode t"
  by (induction s) simp_all

lemma Base64_Encode_digest: "length bs = 20 \<Longrightarrow> Base64_Encode bs = b64_spec bs"
  using Base64_loop_short [of bs 0] by (simp add: Base64_Encode_def)

lemma length_hmac_spec [simp]: "length (hmac_spec k t) = 20"
  by (simp add: hmac_spec_def Let_def)

lemma sign_map_wf: "omap_wf (sign_map i t n j ps)"
proof -
  have "omap_wf m \<Longrightarrow> omap_wf (fold (\<lambda>(k, v). map_insert k v) ps m)" for m
    by (induction ps arbitrary: m) (auto simp: case_prod_unfold)
  then show ?thesis by (auto simp: sign_map_def Let_def simp del: map_insert.simps)
qed

text \<open>
  C36. The signed URL carries, URL-encoded, the Base64 of the HMAC-SHA1 of the canonical string
  (all parameters in byte order of their names, joined as \<^verbatim>\<open>k=v&k=v\<close>) under the key
  \<^verbatim>\<open>secret&\<close>, provided the canonical string is at most 1024 bytes longer than the body; otherwise
  the fixed slack of the HMAC buffers is overrun.
\<close>

theorem generateSignature_correct:
  fixes rcs :: "nat list"
  defines "nonce \<equiv> generate_hex rcs"
  assumes "length secret < 2 ^ 31 - 1"
    and "length (sign_join (sign_map key_id time_stamp nonce body params)) < 2 ^ 31"
  shows "generateSignature junk rcs time_stamp api key_id secret body params =
     (let canonical = sign_join (sign_map key_id time_stamp nonce body params) in
      if length canonical \<le> length body + 1024 then
        Inr (api @ ''?access_key_id='' @ key_id @ param_suffix params
             @ ''&signature='' @ UrlEncode (base64_encode
                  (hmac_spec (bytes_of (secret @ ''&'')) (bytes_of canonical)))
             @ ''&signature_nonce='' @ nonce @ ''&timestamp='' @ time_stamp)
      else Inl Buffer_Overflow)
     \<and> omap_wf (sign_map key_id time_stamp nonce body params)"
proof -
  let ?c = "sign_join (sign_map key_id time_stamp nonce body params)"
  let ?k = "bytes_of (secret @ ''&'')"
  have l: "length ?k < 2 ^ 32" "length (bytes_of ?c) + 64 < 2 ^ 32" using assms by simp_all
  show ?thesis
  proof (cases "length ?c \<le> length body + 1024")
    case True
    then obtain h' where "HMAC_SHA1 (bytes_of ?c) ?k (CHMAC_new junk (length body))
        = Inr (hmac_spec ?k (bytes_of ?c), h')"
      using HMAC_SHA1_ok [OF CHMAC_ok_new l, of "length body" junk] by auto
    with True show ?thesis
      by (simp add: generateSignature_def nonce_def [symmetric] Let_def Base64_Encode_digest
          base64_encode_spec sign_map_wf)
  next
    case False
    then have "HMAC_SHA1 (bytes_of ?c) ?k (CHMAC_new junk (length body)) = Inl Buffer_Overflow"
      using HMAC_SHA1_overflow [OF CHMAC_ok_new l, of "length body" junk] by simp
    with False show ?thesis
      by (simp add: generateSignature_def nonce_def [symmetric] Let_def sign_map_wf)
  qed
qed

theorem generateSignature_correct_witness:
  "generateSignature (\<lambda>_. 0) [2, 255] ''2024-01-01T00:00:00'' ''http://h/p'' ''id'' ''sec'' ''{}'' [] =
   Inr (''http://h/p?access_key_id=id&signature='' @ UrlEncode (base64_encode (hmac_spec
          (bytes_of ''sec&'')
          (bytes_of ''access_key_id=id&request_body={}&signature_nonce=02ff&timestamp=2024-01-01T00:00:00'')))
        @ ''&signature_nonce=02ff&timestamp=2024-01-01T00:00:00'')"
proof -
  have n: "generate_hex [2, 255] = ''02ff''" by code_simp
  have m: "sign_join (sign_map ''id'' ''2024-01-01T00:00:00'' ''02ff'' ''{}'' []) =
    ''access_key_id=id&request_body={}&signature_nonce=02ff&timestamp=2024-01-01T00:00:00''"
    by code_simp
  show ?thesis
    using generateSignature_correct [of "''sec''" "''id''" "''2024-01-01T00:00:00''" "[2, 255]" "''{}''" "[]"
        "\<lambda>_. 0" "''http://h/p''"]
    by (simp add: n m param_suffix_def)
qed

end
