(* ===== verification/Errors.thy ===== *)
theory Errors
  imports Prelude
begin

text \<open>
  The error catalogue: \<^verbatim>\<open>TALError\<close> and the error tables of \<^verbatim>\<open>common/base_error.h\<close>,
  \<^verbatim>\<open>common/base_error.cpp\<close> and \<^verbatim>\<open>service_error.h\<close>. Each C++ struct of errors is a record,
  and C++ inheritance between them is record extension. Codes are \<^verbatim>\<open>long\<close>.
\<close>

section \<open>TALError\<close>

record TALError =
  code :: int
  message :: string

definition TALError_default :: TALError where
  "TALError_default = \<lparr>code = 20000, message = ''ok''\<rparr>"

definition TALError_new :: "int \<Rightarrow> string \<Rightarrow> TALError" where
  "TALError_new c m = \<lparr>code = c, message = m\<rparr>"

text \<open>\<^verbatim>\<open>operator==\<close> and \<^verbatim>\<open>operator!=\<close> look at the code only.\<close>

definition TALError_eq :: "TALError \<Rightarrow> TALError \<Rightarrow> bool" where
  "TALError_eq a b \<longleftrightarrow> code a = code b"

definition TALError_neq :: "TALError \<Rightarrow> TALError \<Rightarrow> bool" where
  "TALError_neq a b \<longleftrightarrow> code a \<noteq> code b"

definition TALError_ToString :: "TALError \<Rightarrow> string" where
  "TALError_ToString e = (''error_code: '' @ to_string (code e)) @ '', error_msg: '' @ message e"

definition GenerateAlarmMsg :: "TALError \<Rightarrow> string \<Rightarrow> string \<Rightarrow> string" where
  "GenerateAlarmMsg e url extra_msg =
     '' alertcode:'' @ to_string (code e)
     @ '', alerturl:'' @ url
     @ '', alertmsg:'' @ message e
     @ (if extra_msg = [] then [] else '', '' @ extra_msg)"

section \<open>The error tables\<close>

definition base_code :: int where
  "base_code = 300000000"

definition base_service_code :: int where
  "base_service_code = 1000"

definition tech_base_code :: int where
  "tech_base_code = 91001000000"

record CommonError =
  sub_code :: int
  service_code :: int
  E_OK :: TALError
  E_UNKNOWN_REQ :: TALError
  E_REQ_BODY_JSON :: TALError
  E_REQ_BODY_OBJECT :: TALError

record ImageCommonError = CommonError +
  E_IMAGE_URL_TYPE :: TALError
  E_IMAGE_DOWNLOAD :: TALError
  E_IMAGE_BASE64_TYPE :: TALError
  E_IMAGE_BASE64_DECODE :: TALError
  E_REQ_IMAGE_NULL :: TALError
  E_IMAGE_DECODE :: TALError
  E_IMAGE_RESOLUTION :: TALError
  E_IMAGE_FORMAT :: TALError
  E_FACE_RECTS_NULL :: TALError
  E_FACE_RECTS_TYPE :: TALError
  E_FACE_RECTS_ELEM_TYPE :: TALError
  E_FACE_RECT_TYPE :: TALError
  E_FACE_RECT_DATA_TYPE :: TALError
  E_FACE_RECT_DATA_INCOMPLETE :: TALError
  E_FACE_RECT_NULL :: TALError
  E_IMAGE_BASE64_NULL :: TALError

record ServiceError = ImageCommonError +
  E_ALG_FAILED :: TALError
  E_TIME_TYPE :: TALError
  E_KEY_WORDS_TYPE :: TALError

record CommonTechError = CommonError +
  tech_code_start :: int
  E_DATA_FLOW :: TALError
  E_URL_TRANS :: TALError

text \<open>The constructor of each struct initialises its part of the table.\<close>

definition CommonError_init :: "int \<Rightarrow> CommonError" where
  "CommonError_init sub = (let sc = base_code + sub * base_service_code in
     \<lparr>sub_code = sub, service_code = sc,
      E_OK = TALError_new 20000 ''ok'',
      E_UNKNOWN_REQ = TALError_new (sc + 101) ''unknown input param error'',
      E_REQ_BODY_JSON = TALError_new (sc + 102) ''the request body is an illegal json'',
      E_REQ_BODY_OBJECT = TALError_new (sc + 103) ''the request body is not a json object''\<rparr>)"

definition ImageCommonError_init :: "int \<Rightarrow> ImageCommonError" where
  "ImageCommonError_init sub =
     (let c = CommonError_init sub; sc = service_code c in
      CommonError.extend c (ImageCommonError.fields
        (TALError_new (sc + 1) ''error input param'')
        (TALError_new (sc + 5) ''download image file failed'')
        (TALError_new (sc + 1) ''error input param'')
        (TALError_new (sc + 6) ''image_base64 decode failed'')
        (TALError_new (sc + 2) ''no image data'')
        (TALError_new (sc + 8) ''failed to decode image from string'')
        (TALError_new (sc + 11) ''picture resolution too large'')
        (TALError_new (sc + 7) ''unsupported image format'')
        (TALError_new (sc + 109) ''face_rectangles cannot be null'')
        (TALError_new (sc + 110) ''face_rectangles type error'')
        (TALError_new (sc + 111) ''face_rectangles element type error'')
        (TALError_new (sc + 112) ''face rectangle type error'')
        (TALError_new (sc + 113) ''face rectangle data type error'')
        (TALError_new (sc + 114) ''face rectangle data is incomplete'')
        (TALError_new (sc + 115) ''face rectangle cannnot be null'')
        (TALError_new (sc + 116) ''image_base64 cannot be null'')))"

definition ServiceError_init :: "int \<Rightarrow> ServiceError" where
  "ServiceError_init sub =
     (let c = ImageCommonError_init sub; sc = service_code c in
      ImageCommonError.extend c (ServiceError.fields
        (TALError_new (sc + 501) ''algorithm failed'')
        (TALError_new (sc + 502) ''time_type type error'')
        (TALError_new (sc + 503) ''key_words type error'')))"

definition CommonTechError_init :: "int \<Rightarrow> CommonTechError" where
  "CommonTechError_init sub =
     (let c = CommonError_init sub;
          tc = tech_base_code + sub_code c * base_service_code in
      CommonError.extend c (CommonTechError.fields tc
        (TALError_new (tc + 1) ''data flow failed'')
        (TALError_new (tc + 2) ''url translation failed'')))"

definition service_sub_code :: int where
  "service_sub_code = 12"

definition SERVICE_ERROR :: ServiceError where
  "SERVICE_ERROR = ServiceError_init service_sub_code"

definition TECHNICAL_ERROR :: CommonTechError where
  "TECHNICAL_ERROR = CommonTechError_init service_sub_code"

section \<open>Facts about the catalogue\<close>

named_theorems error_table \<open>the members of SERVICE_ERROR and TECHNICAL_ERROR, evaluated\<close>

lemmas error_init_defs =
  CommonError_init_def ImageCommonError_init_def ServiceError_init_def CommonTechError_init_def
  CommonError.extend_def ImageCommonError.extend_def
  ImageCommonError.fields_def ServiceError.fields_def CommonTechError.fields_def
  base_code_def base_service_code_def tech_base_code_def service_sub_code_def
  TALError_new_def Let_def

lemma SERVICE_ERROR_codes [error_table]:
  "code (E_OK SERVICE_ERROR) = 20000"
  "code (E_UNKNOWN_REQ SERVICE_ERROR) = 300012101"
  "code (E_REQ_BODY_JSON SERVICE_ERROR) = 300012102"
  "code (E_REQ_BODY_OBJECT SERVICE_ERROR) = 300012103"
  "code (E_IMAGE_URL_TYPE SERVICE_ERROR) = 300012001"
  "code (E_IMAGE_DOWNLOAD SERVICE_ERROR) = 300012005"
  "code (E_IMAGE_BASE64_TYPE SERVICE_ERROR) = 300012001"
  "code (E_IMAGE_BASE64_DECODE SERVICE_ERROR) = 300012006"
  "code (E_REQ_IMAGE_NULL SERVICE_ERROR) = 300012002"
  "code (E_IMAGE_DECODE SERVICE_ERROR) = 300012008"
  "code (E_IMAGE_RESOLUTION SERVICE_ERROR) = 300012011"
  "code (E_IMAGE_FORMAT SERVICE_ERROR) = 300012007"
  "code (E_FACE_RECTS_NULL SERVICE_ERROR) = 300012109"
  "code (E_FACE_RECTS_TYPE SERVICE_ERROR) = 300012110"
  "code (E_FACE_RECTS_ELEM_TYPE SERVICE_ERROR) = 300012111"
  "code (E_FACE_RECT_TYPE SERVICE_ERROR) = 300012112"
  "code (E_FACE_RECT_DATA_TYPE SERVICE_ERROR) = 300012113"
  "code (E_FACE_RECT_DATA_INCOMPLETE SERVICE_ERROR) = 300012114"
  "code (E_FACE_RECT_NULL SERVICE_ERROR) = 300012115"
  "code (E_IMAGE_BASE64_NULL SERVICE_ERROR) = 300012116"
  "code (E_ALG_FAILED SERVICE_ERROR) = 300012501"
  "code (E_TIME_TYPE SERVICE_ERROR) = 300012502"
  "code (E_KEY_WORDS_TYPE SERVICE_ERROR) = 300012503"
  by (simp_all add: SERVICE_ERROR_def error_init_defs)

lemma SERVICE_ERROR_ok [simp]: "E_OK SERVICE_ERROR = TALError_default"
  by (simp add: SERVICE_ERROR_def error_init_defs TALError_default_def)

lemma TALError_default_code [simp]: "code TALError_default = 20000"
  by (simp add: TALError_default_def)

lemma TALError_differ: "code a \<noteq> code b \<Longrightarrow> a \<noteq> b"
  by auto

definition service_failures :: "(string \<times> TALError) list" where
  "service_failures =
    [(''E_UNKNOWN_REQ'', E_UNKNOWN_REQ SERVICE_ERROR),
     (''E_REQ_BODY_JSON'', E_REQ_BODY_JSON SERVICE_ERROR),
     (''E_REQ_BODY_OBJECT'', E_REQ_BODY_OBJECT SERVICE_ERROR),
     (''E_IMAGE_URL_TYPE'', E_IMAGE_URL_TYPE SERVICE_ERROR),
     (''E_IMAGE_DOWNLOAD'', E_IMAGE_DOWNLOAD SERVICE_ERROR),
     (''E_IMAGE_BASE64_TYPE'', E_IMAGE_BASE64_TYPE SERVICE_ERROR),
     (''E_IMAGE_BASE64_DECODE'', E_IMAGE_BASE64_DECODE SERVICE_ERROR),
     (''E_REQ_IMAGE_NULL'', E_REQ_IMAGE_NULL SERVICE_ERROR),
     (''E_IMAGE_DECODE'', E_IMAGE_DECODE SERVICE_ERROR),
     (''E_IMAGE_RESOLUTION'', E_IMAGE_RESOLUTION SERVICE_ERROR),
     (''E_IMAGE_FORMAT'', E_IMAGE_FORMAT SERVICE_ERROR),
     (''E_FACE_RECTS_NULL'', E_FACE_RECTS_NULL SERVICE_ERROR),
     (''E_FACE_RECTS_TYPE'', E_FACE_RECTS_TYPE SERVICE_ERROR),
     (''E_FACE_RECTS_ELEM_TYPE'', E_FACE_RECTS_ELEM_TYPE SERVICE_ERROR),
     (''E_FACE_RECT_TYPE'', E_FACE_RECT_TYPE SERVICE_ERROR),
     (''E_FACE_RECT_DATA_TYPE'', E_FACE_RECT_DATA_TYPE SERVICE_ERROR),
     (''E_FACE_RECT_DATA_INCOMPLETE'', E_FACE_RECT_DATA_INCOMPLETE SERVICE_ERROR),
     (''E_FACE_RECT_NULL'', E_FACE_RECT_NULL SERVICE_ERROR),
     (''E_IMAGE_BASE64_NULL'', E_IMAGE_BASE64_NULL SERVICE_ERROR),
     (''E_ALG_FAILED'', E_ALG_FAILED SERVICE_ERROR),
     (''E_TIME_TYPE'', E_TIME_TYPE SERVICE_ERROR),
     (''E_KEY_WORDS_TYPE'', E_KEY_WORDS_TYPE SERVICE_ERROR)]"

lemma service_failures_codes:
  "map (code \<circ> snd) service_failures =
    [300012101, 300012102, 300012103, 300012001, 300012005, 300012001, 300012006, 300012002, 300012008,
     300012011, 300012007, 300012109, 300012110, 300012111, 300012112, 300012113, 300012114, 300012115,
     300012116, 300012501, 300012502, 300012503]"
  by (simp add: service_failures_def error_table)



end
