(* ===== verification/Base_Codec.thy ===== *)
theory Base_Codec
  imports Base64
begin

text \<open>
  \<^verbatim>\<open>base::Base64Decode\<close> of \<^verbatim>\<open>base/base64.cc\<close>, the decoder the image pipeline uses, with the
  \<^verbatim>\<open>modp_b64_decode\<close> of \<^verbatim>\<open>third_party/modp_b64\<close> it calls (little endian, \<^verbatim>\<open>DOPAD\<close>). The four
  256-entry tables of \<^verbatim>\<open>modp_b64_data.h\<close> are given by the formula they tabulate: the six-bit value of
  the character at its place in the little endian result, \<^verbatim>\<open>BADCHAR\<close> outside the alphabet.
\<close>

definition BADCHAR :: u32 where
  "BADCHAR = 0x01FFFFFF"

definition sextet :: "char \<Rightarrow> u32" where
  "sextet c = ucast (base64_find c)"

definition d0 :: "char \<Rightarrow> u32" where
  "d0 c = (if is_base64 c then push_bit 2 (sextet c) else BADCHAR)"

definition d1 :: "char \<Rightarrow> u32" where
  "d1 c = (if is_base64 c then drop_bit 4 (sextet c) OR push_bit 12 (sextet c AND 15) else BADCHAR)"

definition d2 :: "char \<Rightarrow> u32" where
  "d2 c = (if is_base64 c then push_bit 8 (drop_bit 2 (sextet c)) OR push_bit 22 (sextet c AND 3)
           else BADCHAR)"

definition d3 :: "char \<Rightarrow> u32" where
  "d3 c = (if is_base64 c then push_bit 16 (sextet c) else BADCHAR)"

definition byte_at :: "u32 \<Rightarrow> nat \<Rightarrow> byte" where
  "byte_at x k = ucast (drop_bit (8 * k) x)"

text \<open>The loop over the complete chunks: \<open>None\<close> is \<^verbatim>\<open>MODP_B64_ERROR\<close>.\<close>

fun modp_chunks :: "nat \<Rightarrow> string \<Rightarrow> byte list \<Rightarrow> (byte list \<times> string) option" where
  "modp_chunks 0 y p = Some (p, y)"
| "modp_chunks (Suc n) (a # b # c # d # y) p =
     (let x = d0 a OR d1 b OR d2 c OR d3 d in
      if x \<ge> BADCHAR then None
      else modp_chunks n y (p @ [byte_at x 0, byte_at x 1, byte_at x 2]))"
| "modp_chunks (Suc n) y p = None"

definition modp_last :: "nat \<Rightarrow> byte list \<times> string \<Rightarrow> byte list option" where
  "modp_last leftover st =
     (let (p, y) = st in
      if leftover = 0 then
        (let x = d0 (y ! 0) OR d1 (y ! 1) OR d2 (y ! 2) OR d3 (y ! 3)
         in if x \<ge> BADCHAR then None else Some (p @ [byte_at x 0, byte_at x 1, byte_at x 2]))
      else if leftover = 1 then
        (let x = d0 (y ! 0) in if x \<ge> BADCHAR then None else Some p)
      else if leftover = 2 then
        (let x = d0 (y ! 0) OR d1 (y ! 1) in if x \<ge> BADCHAR then None else Some (p @ [byte_at x 0]))
      else
        (let x = d0 (y ! 0) OR d1 (y ! 1) OR d2 (y ! 2)
         in if x \<ge> BADCHAR then None else Some (p @ [byte_at x 0, byte_at x 1])))"

definition strip_pad :: "string \<Rightarrow> string" where
  "strip_pad s = (if s \<noteq> [] \<and> last s = CHR ''='' then
                    (let t = butlast s in
                     if t \<noteq> [] \<and> last t = CHR ''='' then butlast t else t)
                  else s)"

definition modp_b64_decode :: "string \<Rightarrow> byte list option" where
  "modp_b64_decode s =
     (if s = [] then Some []
      else if length s < 4 \<or> length s mod 4 \<noteq> 0 then None
      else let s = strip_pad s; leftover = length s mod 4;
               chunks = (if leftover = 0 then length s div 4 - 1 else length s div 4)
           in Option.bind (modp_chunks chunks s []) (modp_last leftover))"

text \<open>\<^verbatim>\<open>Base64Decode(input, &output)\<close>: \<open>None\<close> is the return value false, with the output unchanged.\<close>

definition Base64Decode :: "string \<Rightarrow> byte list option" where
  "Base64Decode input = modp_b64_decode input"

section \<open>The encoder\<close>

text \<open>\<^verbatim>\<open>modp_b64_encode\<close> with its three tables, again given by what they tabulate.\<close>

definition e0 :: "byte \<Rightarrow> char" where
  "e0 t = base64_chars ! unat (drop_bit 2 t)"

definition e1 :: "byte \<Rightarrow> char" where
  "e1 t = base64_chars ! unat (t AND 0x3f)"

definition e2 :: "byte \<Rightarrow> char" where
  "e2 t = base64_chars ! unat (t AND 0x3f)"

fun modp_b64_encode :: "byte list \<Rightarrow> string" where
  "modp_b64_encode (t1 # t2 # t3 # str) =
     [e0 t1, e1 (push_bit 4 (t1 AND 0x03) OR (drop_bit 4 t2 AND 0x0F)),
      e1 (push_bit 2 (t2 AND 0x0F) OR (drop_bit 6 t3 AND 0x03)), e2 t3] @ modp_b64_encode str"
| "modp_b64_encode [t1, t2] =
     [e0 t1, e1 (push_bit 4 (t1 AND 0x03) OR (drop_bit 4 t2 AND 0x0F)),
      e2 (push_bit 2 (t2 AND 0x0F)), CHR ''='']"
| "modp_b64_encode [t1] = [e0 t1, e1 (push_bit 4 (t1 AND 0x03)), CHR ''='', CHR ''='']"
| "modp_b64_encode [] = []"

definition Base64Encode :: "byte list \<Rightarrow> string" where
  "Base64Encode input = modp_b64_encode input"

lemma e1_group:
  "(push_bit 4 (a AND 0x03) OR (drop_bit 4 b AND 0x0F) :: byte) AND 0x3f = push_bit 4 (a AND 0x03) OR drop_bit 4 b"
  "(push_bit 2 (b AND 0x0F) OR (drop_bit 6 c AND 0x03) :: byte) AND 0x3f = push_bit 2 (b AND 0x0F) OR drop_bit 6 c"
  "(push_bit 4 (a AND 0x03) :: byte) AND 0x3f = push_bit 4 (a AND 0x03)"
  "(push_bit 2 (b AND 0x0F) :: byte) AND 0x3f = push_bit 2 (b AND 0x0F)"
  by (rule byte_eqI; simp add: bit_simps)+

lemma take_three: "take 3 [w, x, y, z] = [w, x, y]" "take 2 [w, x, y, z] = [w, x]"
  by simp_all

text \<open>
  The two Base64 encoders of the code base, the table-driven \<^verbatim>\<open>base::Base64Encode\<close> and the loop of
  \<^verbatim>\<open>Paas/base64.cpp\<close>, produce the same text for every byte sequence.
\<close>

theorem Base64Encode_equiv: "Base64Encode bs = base64_encode bs"
  unfolding Base64Encode_def base64_encode_spec
  by (induction bs rule: b64_spec.induct)
    (simp_all only: modp_b64_encode.simps b64_spec.simps e0_def e1_def e2_def e1_group enc_chars_def
      enc_group_or list.map append.simps take_three drop_bit_of_0 or.right_neutral)

section \<open>One chunk\<close>

lemma sextet_enc: "unat (g :: byte) < 64 \<Longrightarrow> sextet (base64_chars ! unat g) = ucast g"
  unfolding sextet_def by (simp only: base64_find_enc)

lemma enc_group_cells:
  "enc_chars (enc_group a b c) =
     [base64_chars ! unat (drop_bit 2 a),
      base64_chars ! unat (push_bit 4 (a AND 0x03) OR drop_bit 4 b),
      base64_chars ! unat (push_bit 2 (b AND 0x0f) OR drop_bit 6 c),
      base64_chars ! unat (c AND 0x3f)]"
  by (simp add: enc_chars_def enc_group_or)

lemma enc_group_small:
  "unat (drop_bit 2 a :: byte) < 64"
  "unat (push_bit 4 (a AND 0x03) OR drop_bit 4 b :: byte) < 64"
  "unat (push_bit 2 (b AND 0x0f) OR drop_bit 6 c :: byte) < 64"
  "unat (c AND 0x3f :: byte) < 64"
  using enc_group_less_64 [of a b c] by (simp_all add: enc_group_or)

lemma d_enc:
  assumes "unat (g :: byte) < 64"
  shows "d0 (base64_chars ! unat g) = push_bit 2 (ucast g)"
    and "d1 (base64_chars ! unat g) = drop_bit 4 (ucast g) OR push_bit 12 (ucast g AND 15)"
    and "d2 (base64_chars ! unat g) = push_bit 8 (drop_bit 2 (ucast g)) OR push_bit 22 (ucast g AND 3)"
    and "d3 (base64_chars ! unat g) = push_bit 16 (ucast g)"
  unfolding d0_def d1_def d2_def d3_def sextet_enc [OF assms]
  by (simp_all add: base64_alphabet(2) [OF assms])

lemma below_BADCHAR: "(\<And>n. bit x n \<Longrightarrow> n < 24) \<Longrightarrow> \<not> BADCHAR \<le> (x :: u32)"
proof -
  assume "\<And>n. bit x n \<Longrightarrow> n < 24"
  then have "take_bit 24 x = x" by (intro bit_word_eqI) (auto simp: bit_take_bit_iff)
  then have "unat x = take_bit 24 (unat x)" by (metis unsigned_take_bit_eq)
  then have "unat x < 2 ^ 24" by (metis take_bit_nat_less_exp)
  then show ?thesis by (simp add: BADCHAR_def word_le_nat_alt)
qed

lemma chunk_enc:
  fixes a b c :: byte
  defines "x0 \<equiv> d0 (base64_chars ! unat (drop_bit 2 a))"
    and "x1 \<equiv> d1 (base64_chars ! unat (push_bit 4 (a AND 0x03) OR drop_bit 4 b))"
    and "x2 \<equiv> d2 (base64_chars ! unat (push_bit 2 (b AND 0x0f) OR drop_bit 6 c))"
    and "x3 \<equiv> d3 (base64_chars ! unat (c AND 0x3f))"
  shows "x0 OR x1 OR x2 OR x3 = ucast a OR push_bit 8 (ucast b) OR push_bit 16 (ucast c)"
    and "x0 OR x1 OR x2 = ucast a OR push_bit 8 (ucast b) OR push_bit 22 (ucast (drop_bit 6 c))"
    and "x0 OR x1 = ucast a OR push_bit 12 (ucast (drop_bit 4 b))"
proof -
  note xs = x0_def x1_def x2_def x3_def d_enc(1) [OF enc_group_small(1)]
    d_enc(2) [OF enc_group_small(2)] d_enc(3) [OF enc_group_small(3)] d_enc(4) [OF enc_group_small(4)]
  show "x0 OR x1 = ucast a OR push_bit 12 (ucast (drop_bit 4 b))"
    unfolding xs by (rule u32_eqI) (simp add: upt_rec bit_simps, (simp add: numeral_eq_Suc)?)
  show "x0 OR x1 OR x2 = ucast a OR push_bit 8 (ucast b) OR push_bit 22 (ucast (drop_bit 6 c))"
    unfolding xs by (rule u32_eqI) (simp add: upt_rec bit_simps, (simp add: numeral_eq_Suc)?)
  show "x0 OR x1 OR x2 OR x3 = ucast a OR push_bit 8 (ucast b) OR push_bit 16 (ucast c)"
    unfolding xs by (rule u32_eqI) (simp add: upt_rec bit_simps, (simp add: numeral_eq_Suc)?)
qed

lemma chunk_bytes:
  fixes a b c :: byte
  shows "x = ucast a OR push_bit 8 (ucast b) OR push_bit 16 (ucast c) \<Longrightarrow>
           \<not> BADCHAR \<le> x \<and> byte_at x 0 = a \<and> byte_at x 1 = b \<and> byte_at x 2 = c"
    and "x = ucast a OR push_bit 8 (ucast b) OR push_bit 22 (ucast (drop_bit 6 c)) \<Longrightarrow>
           \<not> BADCHAR \<le> x \<and> byte_at x 0 = a \<and> byte_at x 1 = b"
    and "x = ucast a OR push_bit 12 (ucast (drop_bit 4 b)) \<Longrightarrow> \<not> BADCHAR \<le> x \<and> byte_at x 0 = a"
proof -
  have h: "bit (e :: byte) n \<Longrightarrow> n < 8" for e n by (metis byte_bit_high not_le)
  show "x = ucast a OR push_bit 8 (ucast b) OR push_bit 16 (ucast c) \<Longrightarrow>
           \<not> BADCHAR \<le> x \<and> byte_at x 0 = a \<and> byte_at x 1 = b \<and> byte_at x 2 = c"
    by (intro conjI; (rule below_BADCHAR | rule byte_eqI); simp add: byte_at_def bit_simps)
      (auto dest!: h)
  show "x = ucast a OR push_bit 8 (ucast b) OR push_bit 22 (ucast (drop_bit 6 c)) \<Longrightarrow>
           \<not> BADCHAR \<le> x \<and> byte_at x 0 = a \<and> byte_at x 1 = b"
    by (intro conjI; (rule below_BADCHAR | rule byte_eqI); simp add: byte_at_def bit_simps)
      (auto dest!: h)
  show "x = ucast a OR push_bit 12 (ucast (drop_bit 4 b)) \<Longrightarrow> \<not> BADCHAR \<le> x \<and> byte_at x 0 = a"
    by (intro conjI; (rule below_BADCHAR | rule byte_eqI); simp add: byte_at_def bit_simps)
      (auto dest!: h)
qed

lemma enc_chunk:
  assumes "enc_chars (enc_group a b c) = [p, q, r, t]"
  shows "\<not> BADCHAR \<le> d0 p OR d1 q OR d2 r OR d3 t"
    and "byte_at (d0 p OR d1 q OR d2 r OR d3 t) 0 = a"
    and "byte_at (d0 p OR d1 q OR d2 r OR d3 t) 1 = b"
    and "byte_at (d0 p OR d1 q OR d2 r OR d3 t) 2 = c"
    and "\<not> BADCHAR \<le> d0 p OR d1 q OR d2 r"
    and "byte_at (d0 p OR d1 q OR d2 r) 0 = a"
    and "byte_at (d0 p OR d1 q OR d2 r) 1 = b"
    and "\<not> BADCHAR \<le> d0 p OR d1 q"
    and "byte_at (d0 p OR d1 q) 0 = a"
proof -
  note g = assms [unfolded enc_group_cells list.inject, THEN conjunct1, symmetric]
    assms [unfolded enc_group_cells list.inject, THEN conjunct2, THEN conjunct1, symmetric]
    assms [unfolded enc_group_cells list.inject, THEN conjunct2, THEN conjunct2, THEN conjunct1, symmetric]
    assms [unfolded enc_group_cells list.inject, THEN conjunct2, THEN conjunct2, THEN conjunct2,
      THEN conjunct1, symmetric]
  note cs = chunk_bytes(1) [OF chunk_enc(1) [of a b c, folded g]]
    chunk_bytes(2) [OF chunk_enc(2) [of a b c, folded g]] chunk_bytes(3) [OF chunk_enc(3) [of a b, folded g]]
  show "\<not> BADCHAR \<le> d0 p OR d1 q OR d2 r OR d3 t"
    and "byte_at (d0 p OR d1 q OR d2 r OR d3 t) 0 = a"
    and "byte_at (d0 p OR d1 q OR d2 r OR d3 t) 1 = b"
    and "byte_at (d0 p OR d1 q OR d2 r OR d3 t) 2 = c"
    and "\<not> BADCHAR \<le> d0 p OR d1 q OR d2 r"
    and "byte_at (d0 p OR d1 q OR d2 r) 0 = a"
    and "byte_at (d0 p OR d1 q OR d2 r) 1 = b"
    and "\<not> BADCHAR \<le> d0 p OR d1 q"
    and "byte_at (d0 p OR d1 q) 0 = a"
    using cs by blast+
qed

lemma enc_cells: obtains p q r t where "enc_chars (enc_group a b c) = [p, q, r, t]"
  by (simp add: enc_group_cells)

section \<open>Decoding what was encoded\<close>

text \<open>The encoded text without its padding.\<close>

fun b64_core :: "byte list \<Rightarrow> string" where
  "b64_core (a # b # c # xs) = enc_chars (enc_group a b c) @ b64_core xs"
| "b64_core [a, b] = enc_chars (take 3 (enc_group a b 0))"
| "b64_core [a] = enc_chars (take 2 (enc_group a 0 0))"
| "b64_core [] = []"

lemma length_b64_core: "length (b64_core bs) = (4 * length bs + 2) div 3"
  by (induction bs rule: b64_core.induct) (simp_all add: enc_chars_def enc_group_def)

lemma b64_core_last: "b64_core bs \<noteq> [] \<Longrightarrow> last (b64_core bs) \<noteq> CHR ''=''"
proof -
  have "is_base64 c" if "c \<in> set (b64_core bs)" for c
    using that
    by (induction bs rule: b64_core.induct)
      (auto simp: enc_chars_def enc_group_or base64_alphabet(2) enc_group_small [simplified]
        enc_group_small(2) [where b = 0, simplified] enc_group_small(3) [where c = 0, simplified])
  moreover have "\<not> is_base64 (CHR ''='')" by (simp add: is_base64_def isalnum_def)
  ultimately show "b64_core bs \<noteq> [] \<Longrightarrow> last (b64_core bs) \<noteq> CHR ''=''" by (metis last_in_set)
qed

lemma b64_spec_core:
  "b64_spec bs = b64_core bs \<or> b64_spec bs = b64_core bs @ ''='' \<or>
   b64_core bs \<noteq> [] \<and> b64_spec bs = b64_core bs @ ''==''"
  by (induction bs rule: b64_spec.induct) (auto simp: enc_chars_def enc_group_def)

lemma strip_pad_spec: "strip_pad (b64_spec bs) = b64_core bs"
  using b64_core_last [of bs] b64_spec_core [of bs]
  by (elim disjE) (auto simp: strip_pad_def butlast_append Let_def)

lemma modp_chunks_core:
  "k \<le> length bs div 3 \<Longrightarrow>
   modp_chunks k (b64_core bs) p = Some (p @ take (3 * k) bs, b64_core (drop (3 * k) bs))"
proof (induction k arbitrary: bs p)
  case (Suc k)
  then have "3 \<le> length bs" by simp
  then obtain a b c xs where bs: "bs = a # b # c # xs" by (auto simp: numeral_eq_Suc Suc_le_length_iff)
  have "k \<le> length xs div 3" using Suc.prems bs by simp
  note IH = Suc.IH [OF this]
  obtain w x y z where g: "enc_chars (enc_group a b c) = [w, x, y, z]" by (rule enc_cells)
  show ?case
    using IH [of "p @ [a, b, c]"] enc_chunk [OF g] by (simp add: bs g Let_def numeral_3_eq_3)
qed simp

lemma modp_last_core:
  assumes "bs \<noteq> []" and "length bs \<le> 3"
  shows "modp_last (length (b64_core bs) mod 4) (p, b64_core bs) = Some (p @ bs)"
proof -
  from assms consider a where "bs = [a]" | a b where "bs = [a, b]" | a b c where "bs = [a, b, c]"
    by (auto simp: numeral_eq_Suc le_Suc_eq length_Suc_conv)
  then show ?thesis
  proof cases
    case 1
    obtain w x y z where g: "enc_chars (enc_group a 0 0) = [w, x, y, z]" by (rule enc_cells)
    have "b64_core bs = take 2 (enc_chars (enc_group a 0 0))"
      by (simp add: 1 enc_chars_def take_map)
    then have "b64_core bs = [w, x]" by (simp add: g)
    then show ?thesis using enc_chunk(8,9) [OF g] by (simp add: modp_last_def 1 Let_def)
  next
    case 2
    obtain w x y z where g: "enc_chars (enc_group a b 0) = [w, x, y, z]" by (rule enc_cells)
    have "b64_core bs = take 3 (enc_chars (enc_group a b 0))"
      by (simp add: 2 enc_chars_def take_map)
    then have "b64_core bs = [w, x, y]" by (simp add: g)
    then show ?thesis using enc_chunk(5-7) [OF g] by (simp add: modp_last_def 2 Let_def)
  next
    case 3
    obtain w x y z where g: "enc_chars (enc_group a b c) = [w, x, y, z]" by (rule enc_cells)
    then have "b64_core bs = [w, x, y, z]" by (simp add: 3)
    then show ?thesis using enc_chunk(1-4) [OF g] by (simp add: modp_last_def 3 Let_def)
  qed
qed

lemma b64_core_size:
  "length bs = 3 * k + 1 \<Longrightarrow> length (b64_core bs) = 4 * k + 2"
  "length bs = 3 * k + 2 \<Longrightarrow> length (b64_core bs) = 4 * k + 3"
  "length bs = 3 * k + 3 \<Longrightarrow> length (b64_core bs) = 4 * k + 4"
  by (simp_all add: length_b64_core)

lemma core_leftover: "length (b64_core bs) mod 4 = length (b64_core (drop (3 * k) bs)) mod 4"
  if "3 * k \<le> length bs"
proof -
  have "4 * length bs + 2 = 4 * (length bs - 3 * k) + 2 + 4 * k * 3" using that by simp
  then have "(4 * length bs + 2) div 3 = (4 * (length bs - 3 * k) + 2) div 3 + 4 * k"
    by (metis add.commute div_mult_self3 zero_neq_numeral)
  then show ?thesis by (simp add: length_b64_core)
qed

lemma Base64Decode_encode: "Base64Decode (base64_encode bs) = Some bs"
proof -
  define k where "k = (length bs - 1) div 3"
  have 1: "Base64Decode (base64_encode bs) = Some bs" if "bs \<noteq> []"
  proof -
    obtain r where r: "length bs = 3 * k + r" "r = 1 \<or> r = 2 \<or> r = 3"
    proof (rule that)
      show "length bs = 3 * k + (length bs - 3 * k)" using k_def by simp
      show "length bs - 3 * k = 1 \<or> length bs - 3 * k = 2 \<or> length bs - 3 * k = 3"
        using \<open>bs \<noteq> []\<close> k_def by (cases bs) (simp_all, linarith)
    qed
    then have k: "k \<le> length bs div 3" "3 * k < length bs" "length bs - 3 * k \<le> 3"
      and len: "length (b64_spec bs) = 4 * k + 4"
      and chunks: "(if length (b64_core bs) mod 4 = 0 then length (b64_core bs) div 4 - 1
        else length (b64_core bs) div 4) = k"
      by (auto simp: length_b64_spec b64_core_size)
    have "modp_chunks k (b64_core bs) [] = Some (take (3 * k) bs, b64_core (drop (3 * k) bs))"
      using modp_chunks_core [OF k(1), of "[]"] by simp
    moreover have "modp_last (length (b64_core bs) mod 4) (take (3 * k) bs, b64_core (drop (3 * k) bs))
        = Some bs"
      using modp_last_core [of "drop (3 * k) bs" "take (3 * k) bs"] k core_leftover [of k bs] by simp
    ultimately have "Option.bind (modp_chunks k (b64_core bs) []) (modp_last (length (b64_core bs) mod 4))
        = Some bs"
      by simp
    moreover have "b64_spec bs \<noteq> []" and "\<not> (length (b64_spec bs) < 4 \<or> length (b64_spec bs) mod 4 \<noteq> 0)"
      using len by auto
    ultimately show ?thesis
      unfolding Base64Decode_def modp_b64_decode_def base64_encode_spec strip_pad_spec Let_def chunks
      by (simp only: if_False)
  qed
  moreover have "Base64Decode (base64_encode []) = Some []"
    by (simp add: Base64Decode_def modp_b64_decode_def base64_encode_spec)
  ultimately show ?thesis by metis
qed

text \<open>
  \<^verbatim>\<open>base::Base64Decode\<close>, with its table-driven chunk loop and separate last chunk, returns the
  original bytes for the output of the service's own \<^verbatim>\<open>base64_encode\<close>, and fails for every input
  whose length is not a multiple of four.
\<close>

theorem Base64Decode_inverts:
  "Base64Decode (base64_encode bs) = Some bs \<and> (length s mod 4 \<noteq> 0 \<longrightarrow> Base64Decode s = None)"
  by (auto simp: Base64Decode_encode) (auto simp: Base64Decode_def modp_b64_decode_def)

theorem Base64Decode_inverts_witness:
  "length ''QUJ'' mod 4 \<noteq> 0 \<and> Base64Decode ''QUJ'' = None \<and> Base64Decode (base64_encode [65, 66]) = Some [65, 66]"
  using Base64Decode_inverts [of "[65, 66]" "''QUJ''"] by simp

end
