(* ===== verification/Json_Value.thy ===== *)
theory Json_Value
  imports Complex_Main Prelude
begin

text \<open>
  The JSON values the service passes around: \<^verbatim>\<open>Json::Value\<close> as declared in
  \<^verbatim>\<open>3rdParty/eureka/json/value.h\<close> and \<^verbatim>\<open>base::Value\<close> of \<^verbatim>\<open>base/values.h\<close>. The object members are
  kept in a \<^verbatim>\<open>std::map\<close>, hence in key order. A finite \<^verbatim>\<open>double\<close> is the rational number it denotes.
  The readers and writers of the two libraries are arguments of the definitions that call them.
\<close>

section \<open>Faults\<close>

text \<open>What leaves a C++ function other than by return: an exception, or undefined behaviour.\<close>

datatype fault =
    LogicError           \<comment> \<open>\<^verbatim>\<open>Json::LogicError\<close>: an operation on a value of the wrong type\<close>
  | ParseException       \<comment> \<open>\<^verbatim>\<open>Json::RuntimeError\<close>: the reader's nesting limit\<close>
  | ConfigException      \<comment> \<open>\<^verbatim>\<open>std::stoi\<close> on a configuration value\<close>
  | NullPointer          \<comment> \<open>a null pointer is dereferenced\<close>
  | IndexError           \<comment> \<open>\<^verbatim>\<open>operator[]\<close> past the end of a vector\<close>

section \<open>Json::Value\<close>

datatype json =
    nullValue
  | intValue int
  | uintValue nat
  | realValue rat
  | stringValue string
  | booleanValue bool
  | arrayValue "json list"
  | objectValue "(string \<times> json) list"

datatype parse_result = Parsed json | NotParsed | ParseThrows

fun isObject :: "json \<Rightarrow> bool" where
  "isObject (objectValue m) = True"
| "isObject j = False"

fun isArray :: "json \<Rightarrow> bool" where
  "isArray (arrayValue xs) = True"
| "isArray j = False"

fun isString :: "json \<Rightarrow> bool" where
  "isString (stringValue s) = True"
| "isString j = False"

definition in_int :: "int \<Rightarrow> bool" where
  "in_int i \<longleftrightarrow> - (2 ^ 31) \<le> i \<and> i < 2 ^ 31"

fun isInt :: "json \<Rightarrow> bool" where
  "isInt (intValue i) = in_int i"
| "isInt (uintValue n) = in_int (int n)"
| "isInt (realValue r) = (of_int \<lfloor>r\<rfloor> = r \<and> in_int \<lfloor>r\<rfloor>)"
| "isInt j = False"

text \<open>
  \<^verbatim>\<open>asInt\<close> and \<^verbatim>\<open>asString\<close> are called only behind \<^verbatim>\<open>isInt\<close> and \<^verbatim>\<open>isString\<close>; the last equation of
  each is for values that never reach it.
\<close>

fun asInt :: "json \<Rightarrow> int" where
  "asInt (intValue i) = i"
| "asInt (uintValue n) = int n"
| "asInt (realValue r) = \<lfloor>r\<rfloor>"
| "asInt j = 0"

fun asString :: "json \<Rightarrow> string" where
  "asString (stringValue s) = s"
| "asString j = []"

lemma asString_isString: "isString j \<longleftrightarrow> j = stringValue (asString j)"
  by (cases j) auto

text \<open>Member access on an object or null; any other type is a \<^verbatim>\<open>LogicError\<close>.\<close>

fun isMember :: "string \<Rightarrow> json \<Rightarrow> fault + bool" where
  "isMember k (objectValue m) = Inr (map_of m k \<noteq> None)"
| "isMember k nullValue = Inr False"
| "isMember k j = Inl LogicError"

text \<open>The value \<^verbatim>\<open>j[k]\<close> refers to: a missing member is created as null.\<close>

fun jget :: "string \<Rightarrow> json \<Rightarrow> fault + json" where
  "jget k (objectValue m) = Inr (case map_of m k of None \<Rightarrow> nullValue | Some v \<Rightarrow> v)"
| "jget k nullValue = Inr nullValue"
| "jget k j = Inl LogicError"

text \<open>\<^verbatim>\<open>j[k] = v\<close>\<close>

fun jset :: "string \<Rightarrow> json \<Rightarrow> json \<Rightarrow> fault + json" where
  "jset k v (objectValue m) = Inr (objectValue (map_assign k v m))"
| "jset k v nullValue = Inr (objectValue [(k, v)])"
| "jset k v j = Inl LogicError"

fun jappend :: "json \<Rightarrow> json \<Rightarrow> fault + json" where
  "jappend x (arrayValue xs) = Inr (arrayValue (xs @ [x]))"
| "jappend x nullValue = Inr (arrayValue [x])"
| "jappend x j = Inl LogicError"

fun removeMember :: "string \<Rightarrow> json \<Rightarrow> json" where
  "removeMember k (objectValue m) = objectValue (filter (\<lambda>(k', v). k' \<noteq> k) m)"
| "removeMember k j = j"

text \<open>A sequence of assignments to members of one value.\<close>

fun jset_all :: "(string \<times> json) list \<Rightarrow> json \<Rightarrow> fault + json" where
  "jset_all [] j = Inr j"
| "jset_all ((k, v) # kvs) j = rbind (jset k v j) (jset_all kvs)"

section \<open>Well-formed values\<close>

text \<open>Every object of a value has its members in key order, as \<^verbatim>\<open>std::map\<close> keeps them.\<close>

fun json_wf :: "json \<Rightarrow> bool" where
  "json_wf (arrayValue xs) = list_all json_wf xs"
| "json_wf (objectValue m) = (omap_wf m \<and> list_all (\<lambda>p. json_wf (snd p)) m)"
| "json_wf j = True"

fun member :: "string \<Rightarrow> json \<Rightarrow> json option" where
  "member k (objectValue m) = map_of m k"
| "member k j = None"

lemma list_all_map_assign:
  "list_all (\<lambda>p. P (snd p)) m \<Longrightarrow> P v \<Longrightarrow> list_all (\<lambda>p. P (snd p)) (map_assign k v m)"
  by (induction k v m rule: map_assign.induct) auto

lemma jset_wf: "json_wf j \<Longrightarrow> json_wf v \<Longrightarrow> jset k v j = Inr j' \<Longrightarrow> json_wf j' \<and> isObject j'"
  by (cases j) (auto intro: list_all_map_assign simp: map_simps)

lemma member_jset:
  "json_wf j \<Longrightarrow> jset k v j = Inr j' \<Longrightarrow> member k' j' = (if k' = k then Some v else member k' j)"
  by (cases j) auto

lemma jset_object: "isObject j \<or> j = nullValue \<Longrightarrow> \<exists>j'. jset k v j = Inr j'"
  by (cases j) auto

lemma isObject_E: "isObject j \<Longrightarrow> (\<And>m. j = objectValue m \<Longrightarrow> P) \<Longrightarrow> P"
  by (cases j) auto

lemma jset_all_ok:
  assumes "isObject j" and "json_wf j" and "list_all (\<lambda>p. json_wf (snd p)) kvs"
  shows "\<exists>j'. jset_all kvs j = Inr j' \<and> isObject j' \<and> json_wf j'
    \<and> (\<forall>k. member k j' = (case map_of (rev kvs) k of Some v \<Rightarrow> Some v | None \<Rightarrow> member k j))"
  using assms
proof (induction kvs arbitrary: j)
  case (Cons p kvs)
  obtain k v where p: "p = (k, v)" by (cases p)
  obtain j1 where j1: "jset k v j = Inr j1" using jset_object Cons.prems(1) by blast
  have wf: "isObject j1" "json_wf j1" using jset_wf [OF Cons.prems(2) _ j1] Cons.prems(3) p by auto
  obtain j2 where "jset_all kvs j1 = Inr j2" "isObject j2" "json_wf j2"
    "\<forall>k. member k j2 = (case map_of (rev kvs) k of Some v \<Rightarrow> Some v | None \<Rightarrow> member k j1)"
    using Cons.IH [OF wf] Cons.prems(3) by auto
  then show ?case
    using p j1 member_jset [OF Cons.prems(2) j1]
    by (auto simp: map_add_def split: option.splits)
qed simp

section \<open>base::Value\<close>

datatype base_value =
    TYPE_NULL
  | TYPE_BOOLEAN bool
  | TYPE_INTEGER int
  | TYPE_DOUBLE rat
  | TYPE_STRING string
  | TYPE_DICTIONARY "(string \<times> base_value) list"
  | TYPE_LIST "base_value list"

fun GetAsDictionary :: "base_value \<Rightarrow> (string \<times> base_value) list option" where
  "GetAsDictionary (TYPE_DICTIONARY d) = Some d"
| "GetAsDictionary v = None"

text \<open>Look-ups by a path without dots.\<close>

definition GetInteger :: "string \<Rightarrow> (string \<times> base_value) list \<Rightarrow> int option" where
  "GetInteger k d = (case map_of d k of Some (TYPE_INTEGER i) \<Rightarrow> Some i | _ \<Rightarrow> None)"

definition GetString :: "string \<Rightarrow> (string \<times> base_value) list \<Rightarrow> string option" where
  "GetString k d = (case map_of d k of Some (TYPE_STRING s) \<Rightarrow> Some s | _ \<Rightarrow> None)"

definition GetList :: "string \<Rightarrow> (string \<times> base_value) list \<Rightarrow> base_value list option" where
  "GetList k d = (case map_of d k of Some (TYPE_LIST xs) \<Rightarrow> Some xs | _ \<Rightarrow> None)"

end
