(* ===== verification/Data_Flow.thy ===== *)
theory Data_Flow
  imports Json_Value
begin

text \<open>
  The data flow record sent to Kafka for every request (\<^verbatim>\<open>common/data_flow.h\<close>,
  \<^verbatim>\<open>common/data_flow.cpp\<close>) and the Kafka client (\<^verbatim>\<open>common/kafka_client.h\<close>,
  \<^verbatim>\<open>common/kafka_client.cpp\<close>). The static members of both classes are one record; the messages
  handed to the producer, with their topics, are kept in the order they were produced. The JSON
  reader and writer are arguments.
\<close>

section \<open>Member names\<close>

definition data_api_id :: string where "data_api_id = ''apiId''"
definition data_api_name :: string where "data_api_name = ''apiName''"
definition data_api_type :: string where "data_api_type = ''apiType''"
definition data_biz_type :: string where "data_biz_type = ''bizType''"
definition data_appkey :: string where "data_appkey = ''appKey''"
definition data_version :: string where "data_version = ''version''"
definition data_url :: string where "data_url = ''url''"
definition data_request_id :: string where "data_request_id = ''requestId''"
definition data_request_time :: string where "data_request_time = ''requestTime''"
definition data_response_time :: string where "data_response_time = ''responseTime''"
definition data_code :: string where "data_code = ''code''"
definition data_msg :: string where "data_msg = ''msg''"
definition data_err_code :: string where "data_err_code = ''errCode''"
definition data_err_msg :: string where "data_err_msg = ''errMsg''"
definition data_duration :: string where "data_duration = ''duration''"
definition data_send_time :: string where "data_send_time = ''sendTime''"
definition data_source_infos :: string where "data_source_infos = ''sourceInfos''"
definition data_source_id :: string where "data_source_id = ''id''"
definition data_source_type :: string where "data_source_type = ''sourceType''"
definition data_source_content :: string where "data_source_content = ''content''"
definition data_source_remark :: string where "data_source_remark = ''sourceRemark''"
definition data_ret_data :: string where "data_ret_data = ''data''"
definition trans_body_json :: string where "trans_body_json = ''body''"
definition trans_response_json :: string where "trans_response_json = ''response''"

lemmas data_names =
  data_api_id_def data_api_name_def data_api_type_def data_biz_type_def data_appkey_def
  data_version_def data_url_def data_request_id_def data_request_time_def data_response_time_def
  data_code_def data_msg_def data_err_code_def data_err_msg_def data_duration_def
  data_send_time_def data_source_infos_def data_source_id_def data_source_type_def
  data_source_content_def data_source_remark_def data_ret_data_def trans_body_json_def
  trans_response_json_def

section \<open>Static state\<close>

record KafkaClient =
  m_topic :: string

record dataflow_static =
  api_type :: string
  biz_type :: string
  p_instance :: "KafkaClient option"
  p_producer :: "(string \<times> string) list option"   \<comment> \<open>the broker configuration of the producer\<close>
  produced :: "(string \<times> string) list"            \<comment> \<open>topic and payload\<close>

definition dataflow_initial :: dataflow_static where
  "dataflow_initial = \<lparr>api_type = ''0'', biz_type = ''datawork-image'', p_instance = None,
     p_producer = None, produced = []\<rparr>"

definition SetApiType :: "string \<Rightarrow> dataflow_static \<Rightarrow> dataflow_static" where
  "SetApiType t s = s\<lparr>api_type := t\<rparr>"

definition SetBizType :: "string \<Rightarrow> dataflow_static \<Rightarrow> dataflow_static" where
  "SetBizType t s =
     (if t = ''image'' then s\<lparr>biz_type := ''datawork-image''\<rparr>
      else if t = ''speech'' then s\<lparr>biz_type := ''datawork-speech''\<rparr>
      else if t = ''text'' then s\<lparr>biz_type := ''datawork-text''\<rparr>
      else if t = ''other'' then s\<lparr>biz_type := ''datawork-other''\<rparr>
      else s)"

section \<open>KafkaClient\<close>

definition GetInstance :: "dataflow_static \<Rightarrow> KafkaClient \<times> dataflow_static" where
  "GetInstance s = (case p_instance s of
     Some c \<Rightarrow> (c, s)
   | None \<Rightarrow> let c = \<lparr>m_topic = ''datawork-image''\<rparr> in (c, s\<lparr>p_instance := Some c\<rparr>))"

text \<open>\<^verbatim>\<open>Init\<close>, called on the instance: the first call creates the producer, later calls keep it.\<close>

definition Init :: "string \<Rightarrow> string \<Rightarrow> dataflow_static \<Rightarrow> dataflow_static" where
  "Init hosts topic s =
     (let config = [(''metadata.broker.list'', hosts), (''message.max.bytes'', to_string (10 * 1024 * 1024))];
          s = s\<lparr>p_instance := Some \<lparr>m_topic = topic\<rparr>\<rparr>
      in if p_producer s = None then s\<lparr>p_producer := Some config\<rparr> else s)"

text \<open>
  \<^verbatim>\<open>produce\<close> may throw (queue full, unknown topic); every exception is caught. A null producer is
  dereferenced.
\<close>

definition SendMsg :: "bool \<Rightarrow> KafkaClient \<Rightarrow> string \<Rightarrow> dataflow_static \<Rightarrow> fault + dataflow_static" where
  "SendMsg produce_throws c msg s =
     (case p_producer s of
        None \<Rightarrow> Inl NullPointer
      | Some _ \<Rightarrow> if produce_throws then Inr s
                   else Inr (s\<lparr>produced := produced s @ [(m_topic c, msg)]\<rparr>))"

text \<open>
  The destructor deletes the producer and then, through \<^verbatim>\<open>p_instance_\<close>, the object it is running
  on: the nested call finds the producer null and the instance still set. \<open>fuel\<close> bounds the nesting;
  \<open>None\<close> is a call that has not returned within it.
\<close>

fun KafkaClient_destroy :: "nat \<Rightarrow> dataflow_static \<Rightarrow> dataflow_static option" where
  "KafkaClient_destroy 0 s = None"
| "KafkaClient_destroy (Suc fuel) s =
     (let s = (if p_producer s = None then s else s\<lparr>p_producer := None\<rparr>)
      in if p_instance s = None then Some s
         else map_option (\<lambda>s. s\<lparr>p_instance := None\<rparr>) (KafkaClient_destroy fuel s))"

section \<open>DataFlow\<close>

definition DataFlow_new :: "dataflow_static \<Rightarrow> json" where
  "DataFlow_new s = objectValue (map_assign data_biz_type (stringValue (biz_type s))
                                  (map_assign data_api_type (stringValue (api_type s)) []))"

text \<open>\<^verbatim>\<open>SetValue(key, value)\<close> on the root of the record.\<close>

definition DataFlow_SetValue :: "string \<Rightarrow> json \<Rightarrow> json \<Rightarrow> fault + json" where
  "DataFlow_SetValue k v m_root = jset k v m_root"

definition SetSourceInfos :: "bool \<Rightarrow> string \<Rightarrow> string \<Rightarrow> json \<Rightarrow> fault + json" where
  "SetSourceInfos b_url val request_id m_root =
     (if val = [] then jset data_source_infos (arrayValue []) m_root
      else rbind (jset_all [(data_source_id, stringValue request_id),
                            (data_source_content, stringValue val),
                            (data_source_type, stringValue (if b_url then ''url'' else ''base64''))]
                    nullValue) (\<lambda>source_info.
           rbind (jget data_source_infos m_root) (\<lambda>infos.
           rbind (jappend source_info infos) (\<lambda>infos.
           jset data_source_infos infos m_root))))"

text \<open>\<^verbatim>\<open>data.data()\<close> passed as a C string: the text up to the first NUL.\<close>

definition c_str :: "string \<Rightarrow> string" where
  "c_str s = takeWhile (\<lambda>c. c \<noteq> CHR 0x00) s"

text \<open>The \<^verbatim>\<open>sourceRemark\<close> member: an object with the request parameters as text.\<close>

definition request_param :: "string \<Rightarrow> json" where
  "request_param s = objectValue [(''requestParam'', stringValue s)]"

definition has_base64 :: "json \<Rightarrow> bool" where
  "has_base64 j = (case member ''image_base64'' j of
     Some v \<Rightarrow> isString v \<and> asString v \<noteq> [] | None \<Rightarrow> False)"

definition TransDataToJson ::
  "(string \<Rightarrow> parse_result) \<Rightarrow> (json \<Rightarrow> string) \<Rightarrow> string \<Rightarrow> string \<Rightarrow> json \<Rightarrow> fault + json" where
  "TransDataToJson parse write type data m_root =
     (case parse (c_str data) of
        ParseThrows \<Rightarrow> Inl ParseException
      | Parsed json_root \<Rightarrow>
          if type = trans_body_json then
            (if isObject json_root \<and> has_base64 json_root
             then jset data_source_remark
                    (request_param (write (removeMember ''image_base64'' json_root))) m_root
             else jset data_source_remark (request_param data) m_root)
          else if type = trans_response_json then jset data_ret_data json_root m_root
          else Inr m_root
      | NotParsed \<Rightarrow> jset data_source_remark (request_param data) m_root)"

definition GetJsonData :: "(json \<Rightarrow> string) \<Rightarrow> json \<Rightarrow> string" where
  "GetJsonData write m_root = write m_root"

section \<open>What the operations do to the record\<close>

definition root_ok :: "json \<Rightarrow> bool" where
  "root_ok j \<longleftrightarrow> isObject j \<and> json_wf j"

lemma root_ok_new [simp]: "root_ok (DataFlow_new s)"
  unfolding root_ok_def DataFlow_new_def json_wf.simps
  by (intro conjI omap_wf_assign list_all_map_assign) auto

lemma member_new:
  "member k (DataFlow_new s) =
     (if k = data_biz_type then Some (stringValue (biz_type s))
      else if k = data_api_type then Some (stringValue (api_type s)) else None)"
  by (simp add: DataFlow_new_def del: map_assign.simps)

lemma jset_root:
  "root_ok j \<Longrightarrow> json_wf v \<Longrightarrow>
   \<exists>j'. jset k v j = Inr j' \<and> root_ok j' \<and> (\<forall>k'. member k' j' = (if k' = k then Some v else member k' j))"
  using jset_object [of j k v] jset_wf [of j v k] member_jset [of j k v] by (force simp: root_ok_def)

text \<open>The array stored for the source of a request.\<close>

definition source_infos :: "bool \<Rightarrow> string \<Rightarrow> string \<Rightarrow> json" where
  "source_infos b_url val request_id =
     arrayValue (if val = [] then []
       else [objectValue [(''content'', stringValue val), (''id'', stringValue request_id),
                          (''sourceType'', stringValue (if b_url then ''url'' else ''base64''))]])"

lemma SetSourceInfos_ok:
  assumes "root_ok j" and "member data_source_infos j = None"
  shows "\<exists>j'. SetSourceInfos b_url val request_id j = Inr j' \<and> root_ok j'
    \<and> (\<forall>k. member k j' = (if k = data_source_infos then Some (source_infos b_url val request_id) else member k j))"
proof -
  obtain m where m: "j = objectValue m" using assms(1) by (auto simp: root_ok_def elim: isObject_E)
  have wf: "json_wf (source_infos b_url val request_id)"
    by (simp add: source_infos_def map_simps)
  have "SetSourceInfos b_url val request_id j = jset data_source_infos (source_infos b_url val request_id) j"
    using assms(2) by (simp add: SetSourceInfos_def source_infos_def m data_source_id_def
        data_source_content_def data_source_type_def)
  then show ?thesis using jset_root [OF assms(1) wf] by simp
qed

lemma json_wf_request_param [simp]: "json_wf (request_param s)"
  by (simp add: request_param_def map_simps)

text \<open>The text kept of a request body: the body itself, without its \<^verbatim>\<open>image_base64\<close> member if it has one.\<close>

definition body_remark :: "(json \<Rightarrow> string) \<Rightarrow> parse_result \<Rightarrow> string \<Rightarrow> string" where
  "body_remark write r data =
     (case r of Parsed j \<Rightarrow> if isObject j \<and> has_base64 j then write (removeMember ''image_base64'' j) else data
      | _ \<Rightarrow> data)"

lemma TransDataToJson_body:
  assumes "root_ok j" and "parse (c_str data) \<noteq> ParseThrows"
  shows "\<exists>j'. TransDataToJson parse write trans_body_json data j = Inr j' \<and> root_ok j'
    \<and> (\<forall>k. member k j' = (if k = data_source_remark
         then Some (request_param (body_remark write (parse (c_str data)) data)) else member k j))"
proof -
  have "TransDataToJson parse write trans_body_json data j
      = jset data_source_remark (request_param (body_remark write (parse (c_str data)) data)) j"
    using assms(2) by (simp add: TransDataToJson_def body_remark_def split: parse_result.splits)
  then show ?thesis using jset_root [OF assms(1) json_wf_request_param] by simp
qed

lemma TransDataToJson_response:
  assumes "root_ok j" and "parse (c_str data) = Parsed v" and "json_wf v"
  shows "\<exists>j'. TransDataToJson parse write trans_response_json data j = Inr j' \<and> root_ok j'
    \<and> (\<forall>k. member k j' = (if k = data_ret_data then Some v else member k j))"
proof -
  have "TransDataToJson parse write trans_response_json data j = jset data_ret_data v j"
    using assms(2) by (simp add: TransDataToJson_def data_names)
  then show ?thesis using jset_root [OF assms(1,3)] by simp
qed

lemma removeMember_gone: "member k (removeMember k j) = None"
  by (cases j) (auto simp: map_of_eq_None_iff)

lemma member_removeMember: "k' \<noteq> k \<Longrightarrow> member k' (removeMember k j) = member k' j"
proof (cases j)
  case (objectValue m)
  moreover assume "k' \<noteq> k"
  moreover have "map_of (filter (\<lambda>(k', v). k' \<noteq> k) m) k' = map_of m k'" if "k' \<noteq> k"
    using that by (induction m) auto
  ultimately show ?thesis by simp
qed simp_all

section \<open>The life of the client\<close>

text \<open>
  Once the singleton exists, running the destructor of \<^verbatim>\<open>KafkaClient\<close> never returns: it deletes
  \<^verbatim>\<open>p_instance_\<close>, which is the object being destroyed, before it clears the pointer, so no recursion
  depth is enough. Without an instance it returns at once with the producer released.
\<close>

theorem KafkaClient_destroy_diverges:
  "KafkaClient_destroy fuel s = None \<longleftrightarrow> fuel = 0 \<or> (\<exists>c. p_instance s = Some c)"
proof (cases fuel)
  case (Suc n)
  have "KafkaClient_destroy fuel s = None" if "p_instance s \<noteq> None" for fuel s
    using that by (induction fuel arbitrary: s) (auto simp: Let_def)
  then show ?thesis using Suc by (cases "p_instance s") auto
qed simp

lemma Init_SendMsg:
  "SendMsg False (fst (GetInstance (Init hosts topic s))) msg (snd (GetInstance (Init hosts topic s)))
   = Inr ((Init hosts topic s)\<lparr>produced := produced s @ [(topic, msg)]\<rparr>)"
  by (auto simp: SendMsg_def GetInstance_def Init_def Let_def)

end
