(* ===== verification/Download.thy ===== *)
theory Download
  imports Data_Flow
begin

text \<open>
  The HTTP helpers of \<^verbatim>\<open>common/file_download.cpp\<close>. libcurl is an argument: what one transfer does
  (whether the handle could be created, the buffers handed to the write callback, the result code,
  the HTTP status, the announced length) is a \<open>curl_reply\<close>; \<^verbatim>\<open>curl_easy_strerror\<close>, the JSON writer and
  \<^verbatim>\<open>base::JSONReader::Read\<close> are arguments too, gathered in a record.
\<close>

record curl_reply =
  curl_init :: bool
  chunks :: "string list"
  ret :: int
  http_code :: int
  content_length :: int

record net_env =
  write_json :: "json \<Rightarrow> string"
  read_base :: "string \<Rightarrow> base_value option"
  strerror :: "int \<Rightarrow> string"
  post :: "nat \<Rightarrow> string \<Rightarrow> string \<Rightarrow> nat \<Rightarrow> curl_reply"     \<comment> \<open>attempt, URL, body, timeout\<close>
  get_url :: "nat \<Rightarrow> string \<Rightarrow> nat \<Rightarrow> curl_reply"            \<comment> \<open>attempt, URL, timeout\<close>
  send_time :: "nat \<Rightarrow> int"

definition CURLE_OK :: int where "CURLE_OK = 0"
definition CURLE_COULDNT_CONNECT :: int where "CURLE_COULDNT_CONNECT = 7"
definition CURLE_OPERATION_TIMEDOUT :: int where "CURLE_OPERATION_TIMEDOUT = 28"

lemmas curl_codes = CURLE_OK_def CURLE_COULDNT_CONNECT_def CURLE_OPERATION_TIMEDOUT_def

section \<open>Write callbacks\<close>

text \<open>The number of bytes taken and the target string afterwards; \<open>None\<close> is a null pointer.\<close>

definition OnWriteData :: "string option \<Rightarrow> string option \<Rightarrow> nat \<times> string option" where
  "OnWriteData buffer str = (case (buffer, str) of
     (Some b, Some s) \<Rightarrow> (length b, Some (s @ b))
   | _ \<Rightarrow> (0, str))"

definition WriteImageData :: "string \<Rightarrow> string option \<Rightarrow> nat \<times> string option" where
  "WriteImageData buffer stream = (case stream of
     None \<Rightarrow> (0, None)
   | Some tmp \<Rightarrow> (length buffer, Some (tmp @ buffer)))"

text \<open>The callback applied to each buffer; libcurl stops at one that is not taken whole.\<close>

fun deliver :: "(string \<Rightarrow> string option \<Rightarrow> nat \<times> string option) \<Rightarrow> string list \<Rightarrow> string \<Rightarrow> string" where
  "deliver f [] s = s"
| "deliver f (b # bs) s =
     (case f b (Some s) of (n, t) \<Rightarrow>
        (case t of None \<Rightarrow> s | Some s' \<Rightarrow> if n = length b then deliver f bs s' else s'))"

lemma deliver_concat:
  "deliver (\<lambda>b. OnWriteData (Some b)) bs s = s @ concat bs"
  "deliver WriteImageData bs s = s @ concat bs"
  by (induction bs arbitrary: s) (simp_all add: OnWriteData_def WriteImageData_def)

section \<open>Trans2InnerUrl\<close>

definition trans_root :: "string list \<Rightarrow> string \<Rightarrow> int \<Rightarrow> json" where
  "trans_root image_urls request_id now =
     (let r = (if image_urls = [] then [] else [(''urls'', arrayValue (map stringValue image_urls))]);
          r = map_assign ''requestId'' (stringValue request_id) r
      in objectValue (map_assign ''sendTime'' (intValue now) r))"

text \<open>The loop over \<^verbatim>\<open>resultBean\<close>: the collected URLs and the error message.\<close>

fun collect_inner :: "string \<Rightarrow> base_value list \<Rightarrow> string \<Rightarrow> string list \<times> string" where
  "collect_inner response [] err_msg = ([], err_msg)"
| "collect_inner response (v # vs) err_msg =
     (case GetAsDictionary v of
        Some d \<Rightarrow> let (urls, e) = collect_inner response vs err_msg
                   in ((case GetString ''innerUrl'' d of Some u \<Rightarrow> u | None \<Rightarrow> []) # urls, e)
      | None \<Rightarrow> collect_inner response vs (''cannot get resultBean's value: '' @ response))"

text \<open>The part after the transfer: the return value, the URLs and the error message.\<close>

definition trans_result ::
  "net_env \<Rightarrow> string list \<Rightarrow> string \<Rightarrow> string \<Rightarrow> bool \<times> string list \<times> string" where
  "trans_result env image_urls trans_response err_msg =
     (case read_base env trans_response of
        None \<Rightarrow> (False, image_urls, ''failed to parse result: '' @ trans_response)
      | Some v \<Rightarrow> (case GetAsDictionary v of
        None \<Rightarrow> (False, image_urls, ''cannot cast response as dictionary: '' @ trans_response)
      | Some root_dict \<Rightarrow> (case GetInteger ''code'' root_dict of
        None \<Rightarrow> (False, image_urls, ''cannot find code in response: '' @ trans_response)
      | Some ret_code \<Rightarrow>
          if ret_code \<noteq> 2000000 then
            (False, image_urls,
             ''error code: '' @ to_string ret_code
             @ '', error msg: '' @ (case GetString ''msg'' root_dict of Some m \<Rightarrow> m | None \<Rightarrow> [])
             @ '', image url: '' @ concat (map (\<lambda>u. u @ ''; '') image_urls))
          else (case GetList ''resultBean'' root_dict of
            None \<Rightarrow> (False, image_urls, ''cannot get resultBean in response: '' @ trans_response)
          | Some data_list \<Rightarrow>
              let (inner_urls, err_msg) = collect_inner trans_response data_list err_msg
              in if length inner_urls \<noteq> length image_urls
                 then (False, image_urls, ''inner url is empty'' @ trans_response)
                 else (True, inner_urls, err_msg)))))"

definition Trans2InnerUrl ::
  "net_env \<Rightarrow> nat \<Rightarrow> string \<Rightarrow> string list \<Rightarrow> string \<Rightarrow> string \<Rightarrow> nat \<Rightarrow> bool \<times> string list \<times> string" where
  "Trans2InnerUrl env i request_id image_urls trans_url err_msg timeout_seconds =
     (let trans_body = write_json env (trans_root image_urls request_id (send_time env i));
          reply = post env i (c_str trans_url) (c_str trans_body) timeout_seconds
      in if \<not> curl_init reply then (False, image_urls, ''failed to init curl'')
         else let trans_response = deliver (\<lambda>b. OnWriteData (Some b)) (chunks reply) [] in
           if ret reply = CURLE_COULDNT_CONNECT then (False, image_urls, ''connection disconnect'')
           else if ret reply = CURLE_OPERATION_TIMEDOUT then (False, image_urls, ''request timeout'')
           else if ret reply \<noteq> CURLE_OK \<or> trans_response = [] then
             (False, image_urls, ''trans url error: code: '' @ to_string (ret reply)
                                 @ '', msg: '' @ strerror env (ret reply))
           else if http_code reply \<noteq> 200 then
             (False, image_urls, ''error on http code: '' @ to_string (http_code reply))
           else trans_result env image_urls trans_response err_msg)"

section \<open>DownloadImage\<close>

text \<open>
  The return value, the image data, the announced size and the error message. The callback appends
  to the caller's string, whatever the outcome of the transfer.
\<close>

definition DownloadImage ::
  "net_env \<Rightarrow> nat \<Rightarrow> string \<Rightarrow> string \<Rightarrow> int \<Rightarrow> string \<Rightarrow> nat \<Rightarrow> bool \<times> string \<times> int \<times> string" where
  "DownloadImage env i image_url image_data img_size err_msg timeout_seconds =
     (let reply = get_url env i (c_str image_url) timeout_seconds
      in if \<not> curl_init reply then (False, image_data, img_size, ''failed to curl init'')
         else let image_data = deliver WriteImageData (chunks reply) image_data;
                  img_size = content_length reply in
           if ret reply \<noteq> CURLE_OK then
             (False, image_data, img_size,
              ''download image error, code: '' @ to_string (ret reply)
              @ '', msg: '' @ strerror env (ret reply) @ '', image_url: '' @ image_url)
           else if http_code reply \<noteq> 200 then
             (False, image_data, img_size,
              ''download image error, code: '' @ to_string (http_code reply))
           else (True, image_data, img_size, err_msg))"

section \<open>What the translation promises\<close>

text \<open>The reply the translation service must give for a list of \<open>n\<close> addresses.\<close>

definition inner_reply :: "net_env \<Rightarrow> nat \<Rightarrow> curl_reply \<Rightarrow> string list \<Rightarrow> bool" where
  "inner_reply env n reply urls \<longleftrightarrow>
     curl_init reply \<and> ret reply = 0 \<and> http_code reply = 200 \<and> concat (chunks reply) \<noteq> [] \<and>
     (\<exists>d vs. read_base env (concat (chunks reply)) = Some (TYPE_DICTIONARY d)
        \<and> map_of d ''code'' = Some (TYPE_INTEGER 2000000)
        \<and> map_of d ''resultBean'' = Some (TYPE_LIST vs)
        \<and> urls = map (\<lambda>e. case GetString ''innerUrl'' e of Some u \<Rightarrow> u | None \<Rightarrow> [])
                   (List.map_filter GetAsDictionary vs)
        \<and> length urls = n)"

lemma collect_inner_urls:
  "fst (collect_inner r vs e) =
     map (\<lambda>e. case GetString ''innerUrl'' e of Some u \<Rightarrow> u | None \<Rightarrow> []) (List.map_filter GetAsDictionary vs)"
  by (induction r vs e rule: collect_inner.induct)
    (auto simp: List.map_filter_simps case_prod_unfold Let_def split: option.splits)

lemma trans_result_True:
  "trans_result env urls r e = (True, inner, e') \<longleftrightarrow>
     (\<exists>d vs. read_base env r = Some (TYPE_DICTIONARY d) \<and> map_of d ''code'' = Some (TYPE_INTEGER 2000000)
        \<and> map_of d ''resultBean'' = Some (TYPE_LIST vs) \<and> collect_inner r vs e = (inner, e')
        \<and> length inner = length urls)"
  by (auto simp: trans_result_def GetInteger_def GetList_def case_prod_unfold Let_def prod_eq_iff
      elim!: GetAsDictionary.elims split: option.splits base_value.splits if_splits)

lemma trans_result_False:
  "trans_result env urls r e = (False, urls', e') \<Longrightarrow> urls' = urls \<and> e' \<noteq> []"
  by (auto simp: trans_result_def case_prod_unfold Let_def
      split: option.splits if_splits)

lemma inner_reply_length: "inner_reply env n reply urls \<Longrightarrow> length urls = n"
  by (simp only: inner_reply_def) blast

lemma trans_result_inner:
  assumes "curl_init reply" "ret reply = 0" "http_code reply = 200" "concat (chunks reply) \<noteq> []"
  shows "(\<exists>e'. trans_result env urls (concat (chunks reply)) e = (True, inner, e'))
         \<longleftrightarrow> inner_reply env (length urls) reply inner"
proof -
  let ?urls = "\<lambda>vs. map (\<lambda>e. case GetString ''innerUrl'' e of Some u \<Rightarrow> u | None \<Rightarrow> [])
                (List.map_filter GetAsDictionary vs)"
  have "(\<exists>e'. collect_inner r vs e = (inner, e')) \<longleftrightarrow> inner = ?urls vs" for r vs
    by (metis collect_inner_urls prod.collapse fst_conv)
  then have "(\<exists>e'. trans_result env urls (concat (chunks reply)) e = (True, inner, e')) \<longleftrightarrow>
     (\<exists>d vs. read_base env (concat (chunks reply)) = Some (TYPE_DICTIONARY d)
        \<and> map_of d ''code'' = Some (TYPE_INTEGER 2000000)
        \<and> map_of d ''resultBean'' = Some (TYPE_LIST vs) \<and> inner = ?urls vs
        \<and> length inner = length urls)"
    unfolding trans_result_True by blast
  also have "\<dots> \<longleftrightarrow> inner_reply env (length urls) reply inner"
    using assms unfolding inner_reply_def by blast
  finally show ?thesis .
qed

lemma Trans2InnerUrl_inner:
  assumes "Trans2InnerUrl env i request_id urls trans_url e t = (res, urls', e')"
    and "reply = post env i (c_str trans_url)
           (c_str (write_json env (trans_root urls request_id (send_time env i)))) t"
  shows "(res \<longrightarrow> inner_reply env (length urls) reply urls')
    \<and> (\<not> res \<longrightarrow> urls' = urls \<and> e' \<noteq> [] \<and> (\<forall>us. \<not> inner_reply env (length urls) reply us))"
proof -
  note tr0 = assms(1) [unfolded Trans2InnerUrl_def Let_def, folded assms(2)]
  show ?thesis
  proof (cases "curl_init reply \<and> ret reply = 0 \<and> http_code reply = 200 \<and> concat (chunks reply) \<noteq> []")
    case True
    then have tr: "trans_result env urls (concat (chunks reply)) e = (res, urls', e')"
      using tr0 by (auto simp: deliver_concat curl_codes split: if_splits)
    show ?thesis
    proof (cases res)
      case res: True
      then show ?thesis using tr trans_result_inner [of reply env urls e urls'] True by auto
    next
      case False
      have "\<not> inner_reply env (length urls) reply us" for us
        using tr False True trans_result_inner [of reply env urls e us] by auto
      then show ?thesis using tr False trans_result_False [of env urls _ e urls' e'] by auto
    qed
  next
    case False
    then have "\<not> inner_reply env (length urls) reply us" for us by (auto simp: inner_reply_def)
    moreover have "\<not> res \<and> urls' = urls \<and> e' \<noteq> []"
      using False tr0 by (auto simp: deliver_concat curl_codes split: if_splits)
    ultimately show ?thesis by blast
  qed
qed

text \<open>
  \<^verbatim>\<open>Trans2InnerUrl\<close> returns true exactly when the translation service answered the POST of the
  request body with status 200 and a dictionary whose \<^verbatim>\<open>code\<close> is 2000000 and whose \<^verbatim>\<open>resultBean\<close>
  holds one dictionary per address; the addresses are then replaced by the inner ones, one each.
  Otherwise the addresses are unchanged and the error message is not empty.
\<close>

theorem Trans2InnerUrl_correct:
  assumes "Trans2InnerUrl env i request_id urls trans_url e t = (res, urls', e')"
  shows "(let reply = post env i (c_str trans_url)
                 (c_str (write_json env (trans_root urls request_id (send_time env i)))) t
          in if res then inner_reply env (length urls) reply urls' \<and> length urls' = length urls
             else urls' = urls \<and> e' \<noteq> [] \<and> (\<forall>us. \<not> inner_reply env (length urls) reply us))"
  using Trans2InnerUrl_inner [OF assms refl] inner_reply_length unfolding Let_def by (simp split: if_split) blast

definition sample_net :: net_env where
  "sample_net = \<lparr>write_json = (\<lambda>j. ''{}''),
     read_base = (\<lambda>s. if s = ''ok'' then Some (TYPE_DICTIONARY
        [(''code'', TYPE_INTEGER 2000000),
         (''resultBean'', TYPE_LIST [TYPE_DICTIONARY [(''innerUrl'', TYPE_STRING ''http://inner/a'')]])])
        else None),
     strerror = (\<lambda>c. ''error''),
     post = (\<lambda>i u b t. \<lparr>curl_init = True, chunks = [''o'', ''k''], ret = 0, http_code = 200, content_length = 2\<rparr>),
     get_url = (\<lambda>i u t. \<lparr>curl_init = True, chunks = [''x''], ret = 0, http_code = 200, content_length = 1\<rparr>),
     send_time = (\<lambda>i. 0)\<rparr>"

theorem Trans2InnerUrl_correct_witness:
  "Trans2InnerUrl sample_net 0 ''r'' [''http://a''] ''t'' [] 3 = (True, [''http://inner/a''], [])
   \<and> inner_reply sample_net 1 (post sample_net 0 ''t'' ''{}'' 3) [''http://inner/a'']"
proof -
  have "Trans2InnerUrl sample_net 0 ''r'' [''http://a''] ''t'' [] 3 = (True, [''http://inner/a''], [])"
    by (simp add: Trans2InnerUrl_def trans_result_def sample_net_def deliver_concat curl_codes
        GetInteger_def GetList_def GetString_def Let_def)
  then show ?thesis
    using Trans2InnerUrl_correct [of sample_net 0 "''r''" "[''http://a'']" "''t''" "[]" 3 True]
    by (simp add: Let_def sample_net_def c_str_def)
qed

end
