(* ===== verification/Image_Op.thy ===== *)
theory Image_Op
  imports Errors Base_Codec Download
begin

text \<open>
  Getting and checking the image of a request: \<^verbatim>\<open>image_operation.h\<close> and \<^verbatim>\<open>image_operation.cpp\<close>.
  \<^verbatim>\<open>cv::imdecode\<close> is an argument; a \<^verbatim>\<open>cv::Mat\<close> is its dimensions and its pixel bytes.
\<close>

record Mat =
  dims :: int
  rows :: int
  cols :: int
  pixels :: "byte list"

datatype ImageFormat = UNKNOWN | PNG | JPG | JPEG | BMP

section \<open>CallWithRetry\<close>

text \<open>
  The call is a function of the attempt number and the state it changes. The result is the return
  value, the state and the microseconds slept; the sleep is an \<^verbatim>\<open>unsigned int\<close> product.
\<close>

fun retry_loop :: "nat \<Rightarrow> nat \<Rightarrow> nat \<Rightarrow> (nat \<Rightarrow> 's \<Rightarrow> bool \<times> 's) \<Rightarrow> 's \<Rightarrow> nat \<Rightarrow> bool \<times> 's \<times> nat" where
  "retry_loop 0 i sleep call st slept = (False, st, slept)"
| "retry_loop (Suc n) i sleep call st slept =
     (let (ok, st) = call i st
      in if ok then (True, st, slept)
         else retry_loop n (Suc i) sleep call st (slept + sleep * 1000 mod 2 ^ 32))"

definition CallWithRetry :: "nat \<Rightarrow> nat \<Rightarrow> (nat \<Rightarrow> 's \<Rightarrow> bool \<times> 's) \<Rightarrow> 's \<Rightarrow> bool \<times> 's \<times> nat" where
  "CallWithRetry retry_count sleep call st = retry_loop retry_count 0 sleep call st 0"

section \<open>GetImageData\<close>

text \<open>The lambda \<^verbatim>\<open>download_image\<close>: it captures the image data by reference.\<close>

definition download_image :: "net_env \<Rightarrow> string \<Rightarrow> nat \<Rightarrow> nat \<Rightarrow> string \<Rightarrow> bool \<times> string" where
  "download_image env image_url timeout i image_data =
     (let (res, image_data, img_size, err_msg) = DownloadImage env i image_url image_data 0 [] timeout
      in (res, image_data))"

definition GetImageData ::
  "net_env \<Rightarrow> string \<Rightarrow> string \<Rightarrow> string \<Rightarrow> nat \<Rightarrow> nat \<Rightarrow> nat \<Rightarrow> TALError \<times> string" where
  "GetImageData env image_data image_url image_base64 timeout retry_count sleep =
     (if image_base64 \<noteq> [] then
        (case Base64Decode image_base64 of
           None \<Rightarrow> (E_IMAGE_BASE64_DECODE SERVICE_ERROR, image_data)
         | Some bs \<Rightarrow> (TALError_default, string_of bs))
      else if image_url \<noteq> [] then
        (let (ok, image_data, slept) =
               CallWithRetry retry_count sleep (download_image env image_url timeout) image_data
         in (if ok then TALError_default else E_IMAGE_DOWNLOAD SERVICE_ERROR, image_data))
      else (E_REQ_IMAGE_NULL SERVICE_ERROR, image_data))"

text \<open>The default arguments of the declaration.\<close>

definition download_timeout_seconds :: nat where "download_timeout_seconds = 3"
definition retry_count :: nat where "retry_count = 3"
definition retry_sleep_millsecods :: nat where "retry_sleep_millsecods = 500"

section \<open>DecodeImage and CheckImageFormat\<close>

text \<open>\<^verbatim>\<open>rows * cols\<close> is computed as a 32-bit \<^verbatim>\<open>int\<close>.\<close>

definition DecodeImage :: "(byte list \<Rightarrow> Mat) \<Rightarrow> string \<Rightarrow> TALError \<times> Mat" where
  "DecodeImage imdecode src_img =
     (let dest_img = imdecode (bytes_of src_img)
      in if dims dest_img \<noteq> 2 \<or> rows dest_img = 0 \<or> cols dest_img = 0
         then (E_IMAGE_DECODE SERVICE_ERROR, dest_img)
         else if wrap32 (rows dest_img * cols dest_img) > 4096 * 2160
         then (E_IMAGE_RESOLUTION SERVICE_ERROR, dest_img)
         else (E_OK SERVICE_ERROR, dest_img))"

definition CheckImageFormat :: "string \<Rightarrow> ImageFormat" where
  "CheckImageFormat image_binary =
     (if length image_binary < 4 then UNKNOWN
      else let b = bytes_of image_binary in
        if b ! 0 = 0xFF \<and> b ! 1 = 0xD8 then JPG
        else if b ! 0 = 0x42 \<and> b ! 1 = 0x4D then BMP
        else if b ! 0 = 0x89 \<and> b ! 1 = 0x50 \<and> b ! 2 = 0x4E \<and> b ! 3 = 0x47 then PNG
        else UNKNOWN)"

section \<open>Retrying\<close>

text \<open>The state after the first \<open>k\<close> attempts, when each was made.\<close>

fun attempts :: "(nat \<Rightarrow> 's \<Rightarrow> bool \<times> 's) \<Rightarrow> 's \<Rightarrow> nat \<Rightarrow> 's" where
  "attempts call st 0 = st"
| "attempts call st (Suc k) = snd (call k (attempts call st k))"

definition attempt_ok :: "(nat \<Rightarrow> 's \<Rightarrow> bool \<times> 's) \<Rightarrow> 's \<Rightarrow> nat \<Rightarrow> bool" where
  "attempt_ok call st k = fst (call k (attempts call st k))"

lemma retry_loop_first:
  "retry_loop n i sleep call (attempts call st i) slept =
     (case find (attempt_ok call st) [i ..< i + n] of
        Some k \<Rightarrow> (True, attempts call st (Suc k), slept + (k - i) * (sleep * 1000 mod 2 ^ 32))
      | None \<Rightarrow> (False, attempts call st (i + n), slept + n * (sleep * 1000 mod 2 ^ 32)))"
proof (induction n arbitrary: i slept)
  case (Suc n)
  have upt: "[i ..< i + Suc n] = i # [Suc i ..< Suc i + n]" by (simp add: upt_conv_Cons)
  show ?case
  proof (cases "attempt_ok call st i")
    case True
    then show ?thesis unfolding upt by (simp add: attempt_ok_def case_prod_unfold Let_def)
  next
    case False
    have step: "retry_loop (Suc n) i sleep call (attempts call st i) slept
        = retry_loop n (Suc i) sleep call (attempts call st (Suc i)) (slept + sleep * 1000 mod 2 ^ 32)"
      using False by (simp add: attempt_ok_def case_prod_unfold Let_def)
    have find: "find (attempt_ok call st) [i ..< i + Suc n] = find (attempt_ok call st) [Suc i ..< Suc i + n]"
      unfolding upt using False by simp
    show ?thesis
    proof (cases "find (attempt_ok call st) [Suc i ..< Suc i + n]")
      case None
      then show ?thesis
        using Suc.IH [of "Suc i" "slept + sleep * 1000 mod 2 ^ 32"] find step by simp
    next
      case (Some k)
      then have "k \<in> set [Suc i ..< Suc i + n]" by (metis find_Some_iff nth_mem)
      then obtain d where "k = Suc i + d" by (metis atLeastLessThan_iff atLeastLessThan_upt le_Suc_ex)
      then show ?thesis
        using Suc.IH [of "Suc i" "slept + sleep * 1000 mod 2 ^ 32"] find step Some by simp
    qed
  qed
qed simp

lemma CallWithRetry_first:
  "CallWithRetry n sleep call st =
     (case find (attempt_ok call st) [0 ..< n] of
        Some k \<Rightarrow> (True, attempts call st (Suc k), k * (sleep * 1000 mod 2 ^ 32))
      | None \<Rightarrow> (False, attempts call st n, n * (sleep * 1000 mod 2 ^ 32)))"
  using retry_loop_first [of n 0 sleep call st 0] by (simp add: CallWithRetry_def split: option.splits)

section \<open>Downloads\<close>

text \<open>What one attempt delivers, and when it counts as a success.\<close>

definition attempt_body :: "net_env \<Rightarrow> string \<Rightarrow> nat \<Rightarrow> nat \<Rightarrow> string" where
  "attempt_body env url t i = (let r = get_url env i (c_str url) t
     in if curl_init r then concat (chunks r) else [])"

definition attempt_good :: "net_env \<Rightarrow> string \<Rightarrow> nat \<Rightarrow> nat \<Rightarrow> bool" where
  "attempt_good env url t i = (let r = get_url env i (c_str url) t
     in curl_init r \<and> ret r = 0 \<and> http_code r = 200)"

lemma download_image_step:
  "download_image env url t i d = (attempt_good env url t i, d @ attempt_body env url t i)"
  by (simp add: download_image_def DownloadImage_def attempt_good_def attempt_body_def Let_def
      deliver_concat curl_codes)

lemma attempts_download:
  "attempts (download_image env url t) d k = d @ concat (map (attempt_body env url t) [0 ..< k])"
  by (induction k) (simp_all add: download_image_step)

lemma GetImageData_download:
  assumes "url \<noteq> []"
  shows "GetImageData env [] url [] t n s =
    (case find (attempt_good env url t) [0 ..< n] of
       Some k \<Rightarrow> (TALError_default, concat (map (attempt_body env url t) [0 ..< Suc k]))
     | None \<Rightarrow> (E_IMAGE_DOWNLOAD SERVICE_ERROR, concat (map (attempt_body env url t) [0 ..< n])))"
proof -
  have "attempt_ok (download_image env url t) [] = attempt_good env url t"
    by (simp add: fun_eq_iff attempt_ok_def download_image_step)
  then show ?thesis
    using assms
    by (simp add: GetImageData_def CallWithRetry_first attempts_download del: upt_Suc attempts.simps split: option.split)
qed

text \<open>
  C14. With a URL and no inline image, \<^verbatim>\<open>GetImageData\<close> succeeds exactly when one of the
  \<^verbatim>\<open>retry_count\<close> transfers ends with CURLE_OK and status 200, and reports E_IMAGE_DOWNLOAD otherwise.
  The data it returns is that of the first good transfer exactly when the failed ones before it
  delivered no bytes: an error page of a failed attempt stays in front of the image.
\<close>

theorem GetImageData_retry:
  assumes "url \<noteq> []"
  shows "(fst (GetImageData env [] url [] t n s) = E_OK SERVICE_ERROR \<longleftrightarrow> (\<exists>k<n. attempt_good env url t k))
    \<and> (\<not> (\<exists>k<n. attempt_good env url t k) \<longrightarrow>
         fst (GetImageData env [] url [] t n s) = E_IMAGE_DOWNLOAD SERVICE_ERROR)
    \<and> (\<forall>k<n. attempt_good env url t k \<and> (\<forall>i<k. \<not> attempt_good env url t i) \<longrightarrow>
         (snd (GetImageData env [] url [] t n s) = attempt_body env url t k
          \<longleftrightarrow> (\<forall>i<k. attempt_body env url t i = [])))"
proof (cases "find (attempt_good env url t) [0 ..< n]")
  case None
  then have none: "\<forall>k<n. \<not> attempt_good env url t k" by (simp add: find_None_iff)
  have "GetImageData env [] url [] t n s
      = (E_IMAGE_DOWNLOAD SERVICE_ERROR, concat (map (attempt_body env url t) [0 ..< n]))"
    using GetImageData_download [OF assms, of env t n s] None by simp
  moreover have "E_IMAGE_DOWNLOAD SERVICE_ERROR \<noteq> E_OK SERVICE_ERROR"
    by (rule TALError_differ) (simp add: error_table)
  ultimately show ?thesis using none by auto
next
  case (Some k)
  then have k: "k < n" "attempt_good env url t k" "\<forall>i<k. \<not> attempt_good env url t i"
    by (auto simp: find_Some_iff)
  have uniq: "k' = k" if "attempt_good env url t k' \<and> (\<forall>i<k'. \<not> attempt_good env url t i)" for k'
    using that k by (meson linorder_neqE_nat)
  have data: "GetImageData env [] url [] t n s
      = (E_OK SERVICE_ERROR, concat (map (attempt_body env url t) [0 ..< Suc k]))"
    using GetImageData_download [OF assms, of env t n s] Some by simp
  have "(concat (map (attempt_body env url t) [0 ..< Suc k]) = attempt_body env url t k)
      \<longleftrightarrow> (\<forall>i<k. attempt_body env url t i = [])"
    by auto
  then show ?thesis unfolding data fst_conv snd_conv using k(1,2) uniq by blast
qed

text \<open>A download whose first attempt is answered with an error page.\<close>

definition flaky_net :: net_env where
  "flaky_net = sample_net\<lparr>get_url := (\<lambda>i u t.
     if i = 0 then \<lparr>curl_init = True, chunks = [''oops, 502''], ret = 0, http_code = 502, content_length = 9\<rparr>
     else \<lparr>curl_init = True, chunks = [''BM'', ''..''], ret = 0, http_code = 200, content_length = 4\<rparr>)\<rparr>"

theorem GetImageData_retry_witness:
  "fst (GetImageData flaky_net [] ''u'' [] 3 3 500) = E_OK SERVICE_ERROR
   \<and> snd (GetImageData flaky_net [] ''u'' [] 3 3 500) \<noteq> attempt_body flaky_net ''u'' 3 (Suc 0)
   \<and> attempt_body flaky_net ''u'' 3 (Suc 0) = ''BM..''"
proof -
  have u: "''u'' \<noteq> []" by simp
  note r = GetImageData_retry [OF u, of flaky_net 3 3 500]
  have "attempt_good flaky_net ''u'' 3 (Suc 0)" "\<not> attempt_good flaky_net ''u'' 3 0"
    "attempt_body flaky_net ''u'' 3 0 \<noteq> []" "attempt_body flaky_net ''u'' 3 (Suc 0) = ''BM..''"
    by (simp_all add: attempt_good_def attempt_body_def flaky_net_def)
  moreover from this r have "fst (GetImageData flaky_net [] ''u'' [] 3 3 500) = E_OK SERVICE_ERROR"
    by (metis Suc_lessI list.distinct(1) numeral_3_eq_3 zero_less_Suc lessI less_SucI)
  moreover note r [THEN conjunct2, THEN conjunct2, rule_format, of "Suc 0"]
  ultimately show ?thesis by auto
qed

section \<open>Size and format\<close>



lemma CheckImageFormat_known:
  "CheckImageFormat s \<noteq> UNKNOWN \<longleftrightarrow>
     4 \<le> length s \<and> (take 2 (bytes_of s) = [0xFF, 0xD8] \<or> take 2 (bytes_of s) = [0x42, 0x4D]
                     \<or> take 4 (bytes_of s) = [0x89, 0x50, 0x4E, 0x47])"
proof (cases "4 \<le> length s")
  case True
  then have "4 \<le> length (bytes_of s)" by simp
  then obtain a b c d t where "bytes_of s = a # b # c # d # t"
    by (auto simp: numeral_eq_Suc Suc_le_length_iff bytes_of_def)
  with True show ?thesis by (auto simp: CheckImageFormat_def Let_def)
qed (simp add: CheckImageFormat_def)

end
