(* ===== verification/Conf.thy ===== *)
theory Conf
  imports Prelude
begin

text \<open>
  The configuration store of \<^verbatim>\<open>common/conf_param.h\<close> and \<^verbatim>\<open>common/conf_param.cpp\<close>, with the part of
  \<^verbatim>\<open>base/strings/string_split.cc\<close> it parses with. The static map \<^verbatim>\<open>params_\<close> is a map; the order in
  which \<^verbatim>\<open>std::unordered_map\<close> is iterated is not specified, so \<^verbatim>\<open>WriteParams\<close> takes the order as an
  argument.
\<close>

section \<open>Splitting key-value pairs\<close>

definition kWhitespaceASCII :: string where
  "kWhitespaceASCII = [CHR 0x09, CHR 0x0A, CHR 0x0B, CHR 0x0C, CHR 0x0D, CHR '' '']"

definition is_ws :: "char \<Rightarrow> bool" where
  "is_ws c \<longleftrightarrow> c \<in> set kWhitespaceASCII"

definition TrimString :: "string \<Rightarrow> string" where
  "TrimString s = rev (dropWhile is_ws (rev (dropWhile is_ws s)))"

fun split_pieces :: "char \<Rightarrow> string \<Rightarrow> string \<Rightarrow> string list" where
  "split_pieces d acc [] = [acc]"
| "split_pieces d acc (c # s) = (if c = d then acc # split_pieces d [] s else split_pieces d (acc @ [c]) s)"

text \<open>\<^verbatim>\<open>SplitStringT\<close> with \<^verbatim>\<open>TRIM_WHITESPACE\<close> and \<^verbatim>\<open>SPLIT_WANT_NONEMPTY\<close>.\<close>

definition SplitStringT :: "string \<Rightarrow> char \<Rightarrow> string list" where
  "SplitStringT str d =
     (if str = [] then [] else filter (\<lambda>p. p \<noteq> []) (map TrimString (split_pieces d [] str)))"

text \<open>The pair that is appended, and whether it has a delimiter and a value.\<close>

definition AppendStringKeyValue :: "string \<Rightarrow> char \<Rightarrow> (string \<times> string) \<times> bool" where
  "AppendStringKeyValue input d =
     (if d \<notin> set input then (([], []), False)
      else let key = takeWhile (\<lambda>c. c \<noteq> d) input;
               remains = dropWhile (\<lambda>c. c \<noteq> d) input;
               value = dropWhile (\<lambda>c. c = d) remains
           in if value = [] then ((key, []), False) else ((key, value), True))"

definition SplitStringIntoKeyValuePairs :: "string \<Rightarrow> char \<Rightarrow> char \<Rightarrow> bool \<times> (string \<times> string) list" where
  "SplitStringIntoKeyValuePairs input kd pd =
     (let rs = map (\<lambda>p. AppendStringKeyValue p kd) (SplitStringT input pd)
      in (list_all snd rs, map fst rs))"

section \<open>ConfParam\<close>

type_synonym conf = "string \<rightharpoonup> string"

datatype conf_error = invalid_argument | out_of_range

definition ParseParam :: "string \<Rightarrow> conf \<Rightarrow> int \<times> conf" where
  "ParseParam s params =
     (let (ok, pairs) = SplitStringIntoKeyValuePairs s (CHR ''='') (CHR 0x0A)
      in if \<not> ok then (- 1, params)
         else (0, fold (\<lambda>(k, v) p. p(k \<mapsto> v)) pairs params))"

text \<open>
  \<^verbatim>\<open>WriteParams\<close>: the return value and what the file holds afterwards; \<open>order\<close> lists the
  entries of \<^verbatim>\<open>params_\<close> in iteration order.
\<close>

definition WriteParams :: "string \<Rightarrow> (string \<times> string) list \<Rightarrow> int \<times> string option" where
  "WriteParams config_file order =
     (if config_file = [] then (- 1, None)
      else (0, Some (concat (map (\<lambda>(k, v). k @ ''='' @ v @ [CHR 0x0A]) order))))"

definition SetValue :: "string \<Rightarrow> string \<Rightarrow> conf \<Rightarrow> int \<times> conf" where
  "SetValue key value params =
     (if key = [] \<or> value = [] then (- 1, params) else (0, params(key \<mapsto> value)))"

definition SetValue_int :: "string \<Rightarrow> int \<Rightarrow> conf \<Rightarrow> int \<times> conf" where
  "SetValue_int key value params =
     (if key = [] then (- 1, params) else (0, params(key \<mapsto> to_string value)))"

definition GetValue :: "string \<Rightarrow> string \<Rightarrow> conf \<Rightarrow> string" where
  "GetValue key def_val params = (case params key of None \<Rightarrow> def_val | Some v \<Rightarrow> v)"

text \<open>
  \<^verbatim>\<open>std::stoi\<close>: leading white space, an optional sign, the longest run of digits; the rest of the
  string is ignored.
\<close>

definition stoi :: "string \<Rightarrow> conf_error + int" where
  "stoi s =
     (let s = dropWhile is_ws s;
          neg = (s \<noteq> [] \<and> hd s = CHR ''-'');
          s = (if s \<noteq> [] \<and> (hd s = CHR ''-'' \<or> hd s = CHR ''+'') then tl s else s);
          ds = takeWhile is_digit s
      in if ds = [] then Inl invalid_argument
         else let n = (if neg then - int (digits_value ds) else int (digits_value ds))
              in if - (2 ^ 31) \<le> n \<and> n < 2 ^ 31 then Inr n else Inl out_of_range)"

definition GetValue_int :: "string \<Rightarrow> int \<Rightarrow> conf \<Rightarrow> conf_error + int" where
  "GetValue_int key def_val params = (case params key of None \<Rightarrow> Inr def_val | Some v \<Rightarrow> stoi v)"

section \<open>The contract of the store\<close>

text \<open>
  What the clients (the configuration callback, the initialisers) rely on: a stored value is
  returned, other keys are untouched, and an empty value is not stored.
\<close>

locale config_store =
  fixes put :: "string \<Rightarrow> string \<Rightarrow> 's \<Rightarrow> 's"
    and get :: "string \<Rightarrow> string \<Rightarrow> 's \<Rightarrow> string"
  assumes get_put_same: "k \<noteq> [] \<Longrightarrow> v \<noteq> [] \<Longrightarrow> get k d (put k v s) = v"
    and get_put_other: "k' \<noteq> k \<Longrightarrow> get k' d (put k v s) = get k' d s"
    and put_empty: "k = [] \<or> v = [] \<Longrightarrow> put k v s = s"
begin

lemma get_put: "get k' d (put k v s) = (if k' = k \<and> k \<noteq> [] \<and> v \<noteq> [] then v else get k' d s)"
  using get_put_same get_put_other put_empty by auto

text \<open>Storing a new value for each key of a list: every key ends with its new value, or keeps the
  old one where the new value is empty.\<close>

lemma get_put_all:
  "get k d (fold (\<lambda>x. put x (f x)) ks s)
   = (if k \<in> set ks \<and> k \<noteq> [] \<and> f k \<noteq> [] then f k else get k d s)"
  by (induction ks arbitrary: s) (auto simp: get_put)

end

interpretation conf: config_store "\<lambda>k v s. snd (SetValue k v s)" GetValue
  by unfold_locales (auto simp: SetValue_def GetValue_def)

section \<open>Numbers survive the store\<close>

lemma takeWhile_digits_of: "takeWhile is_digit (digits_of n) = digits_of n"
  by (simp add: takeWhile_eq_all_conv digits_of_digits)

lemma digit_not_ws: "is_digit c \<Longrightarrow> \<not> is_ws c"
  by (auto simp: is_digit_def is_ws_def kWhitespaceASCII_def)

lemma hd_digits_of: "is_digit (hd (digits_of n))"
  using digits_of_digits digits_of_nonempty hd_in_set by blast

lemma dropWhile_ws_digits_of: "dropWhile is_ws (digits_of n) = digits_of n"
  by (metis digit_not_ws digits_of_nonempty dropWhile_eq_self_iff hd_digits_of)

lemma stoi_to_string:
  assumes "- (2 ^ 31) \<le> n" and "n < 2 ^ 31"
  shows "stoi (to_string n) = Inr n"
proof (cases "n < 0")
  case True
  have "\<not> is_ws (CHR ''-'')" by (simp add: is_ws_def kWhitespaceASCII_def)
  with True assms show ?thesis
    by (simp add: stoi_def to_string_def takeWhile_digits_of digits_of_nonempty)
next
  case False
  have "hd (digits_of (nat n)) \<noteq> CHR ''-''" "hd (digits_of (nat n)) \<noteq> CHR ''+''"
    using hd_digits_of [of "nat n"] by (auto simp: is_digit_def)
  with False assms show ?thesis
    by (simp add: stoi_def to_string_def dropWhile_ws_digits_of takeWhile_digits_of digits_of_nonempty)
qed

text \<open>
  An integer stored with \<^verbatim>\<open>SetValue\<close> is read back by \<^verbatim>\<open>GetValue\<close> with any default, for
  every \<^verbatim>\<open>int\<close>, and no other key changes.
\<close>

theorem GetValue_SetValue_int:
  assumes "k \<noteq> []" and "- (2 ^ 31) \<le> n" and "n < 2 ^ 31"
  shows "GetValue_int k d (snd (SetValue_int k n p)) = Inr n
         \<and> (\<forall>k'. k' = k \<or> GetValue_int k' d (snd (SetValue_int k n p)) = GetValue_int k' d p)"
  using assms by (auto simp: GetValue_int_def SetValue_int_def stoi_to_string)

theorem GetValue_SetValue_int_witness:
  "GetValue_int ''redis_port'' 6379 (snd (SetValue_int ''redis_port'' (- 42) Map.empty)) = Inr (- 42)"
  using GetValue_SetValue_int [of "''redis_port''" "- 42" 6379 Map.empty] by simp

section \<open>Files survive parsing\<close>

text \<open>Entries that the file format can represent.\<close>

definition entry_ok :: "string \<times> string \<Rightarrow> bool" where
  "entry_ok kv = (let (k, v) = kv in
     k \<noteq> [] \<and> v \<noteq> [] \<and> CHR ''='' \<notin> set k \<and> CHR 0x0A \<notin> set k \<and> CHR 0x0A \<notin> set v \<and>
     \<not> is_ws (hd k) \<and> \<not> is_ws (last v) \<and> hd v \<noteq> CHR ''='')"

lemma TrimString_id: "s \<noteq> [] \<Longrightarrow> \<not> is_ws (hd s) \<Longrightarrow> \<not> is_ws (last s) \<Longrightarrow> TrimString s = s"
proof -
  assume "s \<noteq> []" "\<not> is_ws (hd s)" "\<not> is_ws (last s)"
  then have "dropWhile is_ws s = s" "dropWhile is_ws (rev s) = rev s"
    by (simp_all add: dropWhile_eq_self_iff hd_rev)
  then show ?thesis by (simp add: TrimString_def)
qed

lemma cut_at_delimiter:
  "d \<notin> set k \<Longrightarrow> takeWhile (\<lambda>c. c \<noteq> d) (k @ d # v) = k"
  "d \<notin> set k \<Longrightarrow> dropWhile (\<lambda>c. c \<noteq> d) (k @ d # v) = d # v"
  by (induction k) auto

lemma split_pieces_line:
  "d \<notin> set l \<Longrightarrow> split_pieces d acc (l @ d # s) = (acc @ l) # split_pieces d [] s"
  by (induction l arbitrary: acc) auto

lemma AppendStringKeyValue_entry:
  assumes "entry_ok (k, v)"
  shows "AppendStringKeyValue (k @ ''='' @ v) (CHR ''='') = ((k, v), True)"
proof -
  have "takeWhile (\<lambda>c. c \<noteq> CHR ''='') (k @ CHR ''='' # v) = k"
    "dropWhile (\<lambda>c. c \<noteq> CHR ''='') (k @ CHR ''='' # v) = CHR ''='' # v"
    using assms by (simp_all add: entry_ok_def cut_at_delimiter)
  moreover have "dropWhile (\<lambda>c. c = CHR ''='') (CHR ''='' # v) = v"
    using assms by (cases v) (auto simp: entry_ok_def)
  ultimately show ?thesis
    using assms by (simp add: AppendStringKeyValue_def entry_ok_def del: dropWhile_eq_Nil_conv)
qed

lemma split_written:
  assumes "\<forall>e \<in> set es. entry_ok e"
  shows "filter (\<lambda>p. p \<noteq> []) (map TrimString (split_pieces (CHR 0x0A) []
           (concat (map (\<lambda>(k, v). k @ ''='' @ v @ [CHR 0x0A]) es))))
         = map (\<lambda>(k, v). k @ ''='' @ v) es"
  using assms
proof (induction es)
  case Nil
  then show ?case by (simp add: TrimString_def)
next
  case (Cons e es)
  obtain k v where e: "e = (k, v)" by (cases e)
  let ?l = "k @ ''='' @ v"
  have l: "CHR 0x0A \<notin> set ?l" "?l \<noteq> []" using Cons.prems by (auto simp: e entry_ok_def)
  have "TrimString ?l = ?l"
    using Cons.prems by (intro TrimString_id) (auto simp: e entry_ok_def)
  moreover have "split_pieces (CHR 0x0A) [] (?l @ CHR 0x0A # concat (map (\<lambda>(k, v). k @ ''='' @ v @ [CHR 0x0A]) es))
     = ?l # split_pieces (CHR 0x0A) [] (concat (map (\<lambda>(k, v). k @ ''='' @ v @ [CHR 0x0A]) es))"
    using split_pieces_line [OF l(1), of "[]"] by simp
  ultimately show ?case using Cons by (simp add: e)
qed

lemma fold_upd_map_of:
  "distinct (map fst es) \<Longrightarrow> fold (\<lambda>(k, v) p. p(k \<mapsto> v)) es m = m ++ map_of es"
proof (induction es arbitrary: m)
  case (Cons e es)
  obtain k v where e: "e = (k, v)" by (cases e)
  with Cons.prems have "k \<notin> dom (map_of es)" by (simp add: dom_map_of_conv_image_fst)
  from map_add_upd_left [OF this, of m v]
  have "m(k \<mapsto> v) ++ map_of es = (m ++ map_of es)(k \<mapsto> v)" .
  moreover have "fold (\<lambda>(k, v) p. p(k \<mapsto> v)) es (m(k \<mapsto> v)) = m(k \<mapsto> v) ++ map_of es"
    using Cons by (intro Cons.IH) simp
  ultimately show ?case
    by (simp only: e fold_simps prod.case map_of.simps map_add_upd fst_conv snd_conv)
qed simp

text \<open>
  A configuration whose entries the format can represent survives being written by
  \<^verbatim>\<open>WriteParams\<close>, in any iteration order, and parsed back by \<^verbatim>\<open>ParseParam\<close>.
\<close>

theorem ParseParam_WriteParams:
  assumes "\<forall>e \<in> set order. entry_ok e" and "distinct (map fst order)" and "f \<noteq> []"
  shows "\<exists>file. WriteParams f order = (0, Some file) \<and>
                ParseParam file Map.empty = (0, map_of order)"
proof -
  let ?file = "concat (map (\<lambda>(k, v). k @ ''='' @ v @ [CHR 0x0A]) order)"
  have sp: "SplitStringT ?file (CHR 0x0A) = map (\<lambda>(k, v). k @ ''='' @ v) order"
    using split_written [OF assms(1)] by (cases order) (auto simp: SplitStringT_def)
  have "map (\<lambda>p. AppendStringKeyValue p (CHR ''='')) (map (\<lambda>(k, v). k @ ''='' @ v) order)
        = map (\<lambda>e. (e, True)) order"
    using assms(1) AppendStringKeyValue_entry by (auto simp del: append.simps)
  then have "SplitStringIntoKeyValuePairs ?file (CHR ''='') (CHR 0x0A) = (True, order)"
    by (simp only: SplitStringIntoKeyValuePairs_def sp Let_def) (simp add: comp_def list_all_iff)
  then show ?thesis
    using assms(2,3) by (simp add: WriteParams_def ParseParam_def fold_upd_map_of)
qed

theorem ParseParam_WriteParams_witness:
  "\<exists>file. WriteParams ''c.ini'' [(''APOLLO_HOST'', ''http://h:8080''), (''SERVICE_TYPE'', ''image'')] = (0, Some file)
     \<and> ParseParam file Map.empty
       = (0, [''APOLLO_HOST'' \<mapsto> ''http://h:8080'', ''SERVICE_TYPE'' \<mapsto> ''image''])"
  using ParseParam_WriteParams
    [of "[(''APOLLO_HOST'', ''http://h:8080''), (''SERVICE_TYPE'', ''image'')]" "''c.ini''"]
  by (simp add: entry_ok_def is_ws_def kWhitespaceASCII_def fun_upd_twist)

end
