(* ===== verification/Apollo_Conf.thy ===== *)
theory Apollo_Conf
  imports Prelude
begin

text \<open>
  The configuration keys of \<^verbatim>\<open>apollo_conf.h\<close>: the environment variables, the keys of the two Apollo
  name spaces, and the lists the configuration callback walks through.
\<close>

definition CONF_APOLLO_HOST :: string where "CONF_APOLLO_HOST = ''APOLLO_HOST''"
definition CONF_APOLLO_APPLICATION :: string where "CONF_APOLLO_APPLICATION = ''APOLLO_APPLICATION''"
definition CONF_SERVICE_TYPE :: string where "CONF_SERVICE_TYPE = ''SERVICE_TYPE''"
definition APOLLO_COMMON_DF_HOST :: string where "APOLLO_COMMON_DF_HOST = ''common.df_host''"
definition APOLLO_COMMON_DF_TOPIC :: string where "APOLLO_COMMON_DF_TOPIC = ''common.df_topic''"
definition APOLLO_LOCAL_DUMP_DIR :: string where "APOLLO_LOCAL_DUMP_DIR = ''local_dump_dir''"
definition APOLLO_LOCAL_SERVICE_PORT :: string where "APOLLO_LOCAL_SERVICE_PORT = ''local_service_port''"
definition APOLLO_LOCAL_API_TYPE :: string where "APOLLO_LOCAL_API_TYPE = ''local_api_type''"
definition APOLLO_PAAS_EUREKA_HOST :: string where "APOLLO_PAAS_EUREKA_HOST = ''paas_eureka_host''"
definition APOLLO_PAAS_EUREKA_PORT :: string where "APOLLO_PAAS_EUREKA_PORT = ''paas_eureka_port''"
definition APOLLO_PAAS_EUREKA_URL :: string where "APOLLO_PAAS_EUREKA_URL = ''paas_eureka_url''"
definition APOLLO_PAAS_EUREKA_APP_NAME :: string where "APOLLO_PAAS_EUREKA_APP_NAME = ''paas_eureka_app_name''"
definition APOLLO_DATAFLOW_URL_TRANS_HOST :: string where "APOLLO_DATAFLOW_URL_TRANS_HOST = ''dataflow_url_trans_host''"
definition APOLLO_SRCHSUB_URL :: string where "APOLLO_SRCHSUB_URL = ''srchsub_url''"
definition APOLLO_DATAFLOW_URL_TRANS_TIMEOUT :: string where "APOLLO_DATAFLOW_URL_TRANS_TIMEOUT = ''dataflow_url_trans_timeout''"
definition APOLLO_DATAFLOW_URL_TRANS_RETRY :: string where "APOLLO_DATAFLOW_URL_TRANS_RETRY = ''dataflow_url_trans_retry''"
definition APOLLO_OSS_ACCESS_KEY_ID :: string where "APOLLO_OSS_ACCESS_KEY_ID = ''oss_access_key_id''"
definition APOLLO_OSS_ACCESS_KEY_SECRET :: string where "APOLLO_OSS_ACCESS_KEY_SECRET = ''oss_access_key_secret''"
definition APOLLO_OSS_ENDPOINT :: string where "APOLLO_OSS_ENDPOINT = ''oss_endpoint''"
definition APOLLO_OSS_BUKETNAME :: string where "APOLLO_OSS_BUKETNAME = ''oss_bucket_name''"
definition APOLLO_OSS_DIR :: string where "APOLLO_OSS_DIR = ''oss_dir''"
definition APOLLO_REDIS_HOST :: string where "APOLLO_REDIS_HOST = ''redis_host''"
definition APOLLO_REDIS_PORT :: string where "APOLLO_REDIS_PORT = ''redis_port''"
definition APOLLO_REDIS_PW :: string where "APOLLO_REDIS_PW = ''redis_password''"
definition APOLLO_REDIS_DB :: string where "APOLLO_REDIS_DB = ''redis_db''"
definition APOLLO_REDIS_POOLSIZE :: string where "APOLLO_REDIS_POOLSIZE = ''redis_pool_size''"
definition APOLLO_MYSQL_HOST :: string where "APOLLO_MYSQL_HOST = ''mysql_host''"
definition APOLLO_MYSQL_USER :: string where "APOLLO_MYSQL_USER = ''mysql_user''"
definition APOLLO_MYSQL_PW :: string where "APOLLO_MYSQL_PW = ''mysql_password''"
definition APOLLO_MYSQL_DBNAME :: string where "APOLLO_MYSQL_DBNAME = ''mysql_dbname''"
definition APOLLO_MYSQL_POOLSIZE :: string where "APOLLO_MYSQL_POOLSIZE = ''mysql_pool_size''"
definition APOLLO_DIST_LOCK_RETRY_COUNT :: string where "APOLLO_DIST_LOCK_RETRY_COUNT = ''dist_lock_retry_count''"
definition APOLLO_DIST_LOCK_INTERVAL :: string where "APOLLO_DIST_LOCK_INTERVAL = ''dist_lock_interval''"

definition ENV_CONF_ITERM :: "string list" where
  "ENV_CONF_ITERM =
    [CONF_APOLLO_HOST,
     CONF_APOLLO_APPLICATION,
     CONF_SERVICE_TYPE]"

definition APOLLO_BASE_CONF_ITEM :: "string list" where
  "APOLLO_BASE_CONF_ITEM =
    [APOLLO_LOCAL_DUMP_DIR,
     APOLLO_LOCAL_SERVICE_PORT,
     APOLLO_LOCAL_API_TYPE,
     APOLLO_PAAS_EUREKA_HOST,
     APOLLO_PAAS_EUREKA_PORT,
     APOLLO_PAAS_EUREKA_URL,
     APOLLO_PAAS_EUREKA_APP_NAME,
     APOLLO_SRCHSUB_URL,
     APOLLO_DATAFLOW_URL_TRANS_HOST,
     APOLLO_DATAFLOW_URL_TRANS_TIMEOUT,
     APOLLO_DATAFLOW_URL_TRANS_RETRY]"

definition APOLLO_OSS_CONF_ITEM :: "string list" where
  "APOLLO_OSS_CONF_ITEM =
    [APOLLO_OSS_ACCESS_KEY_ID,
     APOLLO_OSS_ACCESS_KEY_SECRET,
     APOLLO_OSS_ENDPOINT,
     APOLLO_OSS_BUKETNAME,
     APOLLO_OSS_DIR]"

definition APOLLO_REDIS_CONF_ITEM :: "string list" where
  "APOLLO_REDIS_CONF_ITEM =
    [APOLLO_REDIS_HOST,
     APOLLO_REDIS_PORT,
     APOLLO_REDIS_PW,
     APOLLO_REDIS_DB,
     APOLLO_REDIS_POOLSIZE]"

definition APOLLO_MYSQL_CONF_ITEM :: "string list" where
  "APOLLO_MYSQL_CONF_ITEM =
    [APOLLO_MYSQL_HOST,
     APOLLO_MYSQL_USER,
     APOLLO_MYSQL_PW,
     APOLLO_MYSQL_DBNAME,
     APOLLO_MYSQL_POOLSIZE]"

definition APOLLO_DIST_LOCK_CONF_ITEM :: "string list" where
  "APOLLO_DIST_LOCK_CONF_ITEM =
    [APOLLO_DIST_LOCK_RETRY_COUNT,
     APOLLO_DIST_LOCK_INTERVAL]"

lemmas apollo_names =
  CONF_APOLLO_HOST_def CONF_APOLLO_APPLICATION_def CONF_SERVICE_TYPE_def APOLLO_COMMON_DF_HOST_def
  APOLLO_COMMON_DF_TOPIC_def APOLLO_LOCAL_DUMP_DIR_def APOLLO_LOCAL_SERVICE_PORT_def
  APOLLO_LOCAL_API_TYPE_def APOLLO_PAAS_EUREKA_HOST_def APOLLO_PAAS_EUREKA_PORT_def
  APOLLO_PAAS_EUREKA_URL_def APOLLO_PAAS_EUREKA_APP_NAME_def APOLLO_DATAFLOW_URL_TRANS_HOST_def
  APOLLO_SRCHSUB_URL_def APOLLO_DATAFLOW_URL_TRANS_TIMEOUT_def APOLLO_DATAFLOW_URL_TRANS_RETRY_def
  APOLLO_OSS_ACCESS_KEY_ID_def APOLLO_OSS_ACCESS_KEY_SECRET_def APOLLO_OSS_ENDPOINT_def
  APOLLO_OSS_BUKETNAME_def APOLLO_OSS_DIR_def APOLLO_REDIS_HOST_def APOLLO_REDIS_PORT_def
  APOLLO_REDIS_PW_def APOLLO_REDIS_DB_def APOLLO_REDIS_POOLSIZE_def APOLLO_MYSQL_HOST_def
  APOLLO_MYSQL_USER_def APOLLO_MYSQL_PW_def APOLLO_MYSQL_DBNAME_def APOLLO_MYSQL_POOLSIZE_def
  APOLLO_DIST_LOCK_RETRY_COUNT_def APOLLO_DIST_LOCK_INTERVAL_def

lemmas apollo_items =
  ENV_CONF_ITERM_def APOLLO_BASE_CONF_ITEM_def APOLLO_OSS_CONF_ITEM_def APOLLO_REDIS_CONF_ITEM_def
  APOLLO_MYSQL_CONF_ITEM_def APOLLO_DIST_LOCK_CONF_ITEM_def

text \<open>The keys the callback stores for the name space \<^verbatim>\<open>application\<close>, in its order.\<close>

definition application_keys :: "string list" where
  "application_keys = APOLLO_BASE_CONF_ITEM @ APOLLO_OSS_CONF_ITEM @ APOLLO_MYSQL_CONF_ITEM
                      @ APOLLO_REDIS_CONF_ITEM @ APOLLO_DIST_LOCK_CONF_ITEM"

lemma application_keys_distinct: "distinct application_keys \<and> [] \<notin> set application_keys"
  by (simp add: application_keys_def apollo_items apollo_names)

end
