(* ===== verification/Image_Service.thy ===== *)
theory Image_Service
  imports Image_Op Conf Apollo_Conf
begin

text \<open>
  The request path: \<^verbatim>\<open>tal_interface.h/.cpp\<close>, \<^verbatim>\<open>image_interface.h/.cpp\<close>,
  \<^verbatim>\<open>microservice_demo.h/.cpp\<close> and \<^verbatim>\<open>ai_model.cpp\<close>. The interface object is a record, extended as the
  classes are derived; the static members are a second record. Everything outside the repository
  (jsoncpp, OpenCV, libcurl, the classifier, the clock, the environment, the Kafka producer) is a
  field of the environment record. A request ends in a fault or in the response with the new state.
\<close>

section \<open>Requests, interfaces and the environment\<close>

record http_request =
  body :: string
  raw_url :: string
  url_params :: "string \<Rightarrow> string option"
  header_value :: "string \<Rightarrow> string"

datatype predict_result = PredictReturn int "int list" | PredictThrows

record service_env = net_env +
  parse_json :: "string \<Rightarrow> parse_result"
  imdecode :: "byte list \<Rightarrow> Mat"
  predict :: "Mat list \<Rightarrow> predict_result"
  clock :: "nat \<Rightarrow> int"               \<comment> \<open>the successive readings of \<^verbatim>\<open>Time::Now().ToJavaTime()\<close>\<close>
  current_env :: "string option"      \<comment> \<open>\<^verbatim>\<open>getenv("CURRENT_ENV")\<close>\<close>
  params :: conf
  produce_throws :: bool

record TALInterface =
  interface_url :: string
  request :: http_request
  request_body_json :: json
  request_id :: string
  app_key :: string
  trace_id :: string

type_synonym Rect = "int \<times> int \<times> int \<times> int"   \<comment> \<open>x, y, width, height\<close>

record ImageInterface = TALInterface +
  image_url :: string
  image_base64 :: string
  cv_rects :: "Rect list"
  cv_image :: Mat

record service_static =
  app_name :: string
  trim_count :: int
  trims :: nat                        \<comment> \<open>calls of \<^verbatim>\<open>malloc_trim\<close>\<close>
  alarms :: "string list"             \<comment> \<open>alarm lines of the log\<close>
  flow :: dataflow_static

section \<open>TALInterface\<close>

definition GetURLParamValue :: "http_request \<Rightarrow> string \<Rightarrow> string" where
  "GetURLParamValue req param_name = (case url_params req param_name of Some v \<Rightarrow> v | None \<Rightarrow> [])"

definition SetAppName :: "string \<Rightarrow> service_static \<Rightarrow> service_static" where
  "SetAppName n s = s\<lparr>app_name := n\<rparr>"

definition MallocTrim :: "service_static \<Rightarrow> service_static" where
  "MallocTrim s =
     (let s = s\<lparr>trim_count := trim_count s + 1\<rparr>
      in if trim_count s mod 1000 = 0 then s\<lparr>trims := trims s + 1, trim_count := 0\<rparr> else s)"

definition empty_Mat :: Mat where
  "empty_Mat = \<lparr>dims = 0, rows = 0, cols = 0, pixels = []\<rparr>"

text \<open>The constructors of \<^verbatim>\<open>MicroserviceDemo\<close>, \<^verbatim>\<open>ImageInterface\<close> and \<^verbatim>\<open>TALInterface\<close>.\<close>

definition ImageInterface_new :: "string \<Rightarrow> http_request \<Rightarrow> ImageInterface" where
  "ImageInterface_new url req =
     \<lparr>interface_url = url, request = req, request_body_json = nullValue,
      request_id = GetURLParamValue req data_request_id,
      app_key = GetURLParamValue req data_appkey,
      trace_id = header_value req ''Traceid'',
      image_url = [], image_base64 = [], cv_rects = [], cv_image = empty_Mat\<rparr>"

definition ParseRequestBody :: "service_env \<Rightarrow> ImageInterface \<Rightarrow> TALError \<times> ImageInterface" where
  "ParseRequestBody env self =
     (case parse_json env (body (request self)) of
        NotParsed \<Rightarrow> (E_REQ_BODY_JSON SERVICE_ERROR, self)
      | ParseThrows \<Rightarrow> (E_UNKNOWN_REQ SERVICE_ERROR, self)
      | Parsed j \<Rightarrow>
          let self = self\<lparr>request_body_json := j\<rparr>
          in if \<not> isObject j then (E_REQ_BODY_OBJECT SERVICE_ERROR, self)
             else (E_OK SERVICE_ERROR, self))"

section \<open>Parameters of the request\<close>

definition VerifyImageParam :: "ImageInterface \<Rightarrow> fault + TALError \<times> ImageInterface" where
  "VerifyImageParam self =
     rbind (isMember ''image_base64'' (request_body_json self)) (\<lambda>has_base64.
     rbind (jget ''image_base64'' (request_body_json self)) (\<lambda>image.
     if has_base64 \<and> \<not> isString image then Inr (E_IMAGE_BASE64_TYPE SERVICE_ERROR, self)
     else let self = (if has_base64 then self\<lparr>image_base64 := asString image\<rparr> else self) in
       rbind (isMember ''image_url'' (request_body_json self)) (\<lambda>has_url.
       rbind (jget ''image_url'' (request_body_json self)) (\<lambda>image.
       let take_url = (image_base64 self = [] \<and> has_url) in
       if take_url \<and> \<not> isString image then Inr (E_IMAGE_URL_TYPE SERVICE_ERROR, self)
       else let self = (if take_url then self\<lparr>image_url := asString image\<rparr> else self) in
         if image_base64 self = [] \<and> image_url self = [] then Inr (E_REQ_IMAGE_NULL SERVICE_ERROR, self)
         else Inr (E_OK SERVICE_ERROR, self)))))"

definition VerifyInnerImageParam :: "ImageInterface \<Rightarrow> fault + TALError \<times> ImageInterface" where
  "VerifyInnerImageParam self =
     rbind (isMember ''image_base64'' (request_body_json self)) (\<lambda>has_base64.
     if \<not> has_base64 then Inr (E_IMAGE_BASE64_NULL SERVICE_ERROR, self)
     else rbind (jget ''image_base64'' (request_body_json self)) (\<lambda>image.
       if \<not> isString image then Inr (E_IMAGE_BASE64_TYPE SERVICE_ERROR, self)
       else let self = self\<lparr>image_base64 := asString image\<rparr> in
         if image_base64 self = [] then Inr (E_IMAGE_BASE64_NULL SERVICE_ERROR, self)
         else Inr (E_OK SERVICE_ERROR, self)))"

text \<open>\<^verbatim>\<open>ParseRectangleData\<close> on an object: the error and the rectangle, unchanged on an error.\<close>

definition ParseRectangleData :: "Rect \<Rightarrow> json \<Rightarrow> TALError \<times> Rect" where
  "ParseRectangleData cv_rect rectangle =
     (case (member ''x'' rectangle, member ''y'' rectangle, member ''width'' rectangle, member ''height'' rectangle) of
        (Some x, Some y, Some w, Some h) \<Rightarrow>
          if \<not> isInt x \<or> \<not> isInt y \<or> \<not> isInt w \<or> \<not> isInt h
          then (E_FACE_RECT_DATA_TYPE SERVICE_ERROR, cv_rect)
          else (E_OK SERVICE_ERROR, (asInt x, asInt y, asInt w, asInt h))
      | _ \<Rightarrow> (E_FACE_RECT_DATA_INCOMPLETE SERVICE_ERROR, cv_rect))"

definition VerifyFaceRectangle :: "bool \<Rightarrow> ImageInterface \<Rightarrow> TALError \<times> ImageInterface" where
  "VerifyFaceRectangle optional self =
     (case member ''face_rectangle'' (request_body_json self) of
        None \<Rightarrow> (if optional then E_OK SERVICE_ERROR else E_FACE_RECT_NULL SERVICE_ERROR, self)
      | Some rectangle \<Rightarrow>
          if \<not> isObject rectangle then (E_FACE_RECT_TYPE SERVICE_ERROR, self)
          else let (res, cv_rect) = ParseRectangleData (0, 0, 0, 0) rectangle;
                   self = (if TALError_eq res (E_OK SERVICE_ERROR)
                           then self\<lparr>cv_rects := cv_rects self @ [cv_rect]\<rparr> else self)
               in if \<not> optional \<and> cv_rects self = [] then (E_FACE_RECT_NULL SERVICE_ERROR, self)
                  else (res, self))"

text \<open>The loop over the rectangles: it stops at the first error.\<close>

fun rectangle_loop :: "json list \<Rightarrow> Rect list \<Rightarrow> TALError \<times> Rect list" where
  "rectangle_loop [] rects = (E_OK SERVICE_ERROR, rects)"
| "rectangle_loop (r # rs) rects =
     (if \<not> isObject r then (E_FACE_RECTS_ELEM_TYPE SERVICE_ERROR, rects)
      else let (res, cv_rect) = ParseRectangleData (0, 0, 0, 0) r
           in if TALError_eq res (E_OK SERVICE_ERROR) then rectangle_loop rs (rects @ [cv_rect])
              else (res, rects))"

definition VerifyFaceRectangles :: "bool \<Rightarrow> ImageInterface \<Rightarrow> TALError \<times> ImageInterface" where
  "VerifyFaceRectangles optional self =
     (case member ''face_rectangles'' (request_body_json self) of
        None \<Rightarrow> (if optional then E_OK SERVICE_ERROR else E_FACE_RECTS_NULL SERVICE_ERROR, self)
      | Some (arrayValue rs) \<Rightarrow>
          (let (res, rects) = rectangle_loop rs (cv_rects self);
               self = self\<lparr>cv_rects := rects\<rparr>
           in if TALError_neq res (E_OK SERVICE_ERROR) then (res, self)
              else if \<not> optional \<and> cv_rects self = [] then (E_FACE_RECTS_NULL SERVICE_ERROR, self)
              else (E_OK SERVICE_ERROR, self))
      | Some _ \<Rightarrow> (E_FACE_RECTS_TYPE SERVICE_ERROR, self))"

section \<open>URL translation\<close>

definition conf_int :: "service_env \<Rightarrow> string \<Rightarrow> int \<Rightarrow> fault + int" where
  "conf_int env key def_val = (case GetValue_int key def_val (params env) of
     Inl e \<Rightarrow> Inl ConfigException | Inr v \<Rightarrow> Inr v)"

fun trans_loop ::
  "net_env \<Rightarrow> nat \<Rightarrow> nat \<Rightarrow> string \<Rightarrow> string \<Rightarrow> nat \<Rightarrow> string list \<Rightarrow> string \<Rightarrow> bool \<times> string list \<times> string" where
  "trans_loop env 0 i rid trans_url timeout urls err_msg = (False, urls, err_msg)"
| "trans_loop env (Suc n) i rid trans_url timeout urls err_msg =
     (let (res, urls, err_msg) = Trans2InnerUrl env i rid urls trans_url err_msg timeout
      in if res then (True, urls, err_msg)
         else trans_loop env n (Suc i) rid trans_url timeout urls err_msg)"

text \<open>The part of the environment the HTTP helpers see.\<close>

definition net_of :: "service_env \<Rightarrow> net_env" where
  "net_of env = net_env.truncate env"

definition TransSingleURL ::
  "service_env \<Rightarrow> ImageInterface \<Rightarrow> service_static \<Rightarrow> fault + ImageInterface \<times> service_static" where
  "TransSingleURL env self s =
     (let trans_url = GetValue APOLLO_DATAFLOW_URL_TRANS_HOST [] (params env) in
      rbind (conf_int env APOLLO_DATAFLOW_URL_TRANS_TIMEOUT 1) (\<lambda>timeout.
      rbind (conf_int env APOLLO_DATAFLOW_URL_TRANS_RETRY 1) (\<lambda>retry.
      let (res, image_urls, error_msg) =
            trans_loop (net_of env) (nat retry) 0 (request_id self) trans_url (nat (timeout mod 2 ^ 32))
              [image_url self] []
      in if \<not> res then
           Inr (self, s\<lparr>alarms := alarms s @
             [GenerateAlarmMsg (E_URL_TRANS TECHNICAL_ERROR) (interface_url self) error_msg]\<rparr>)
         else Inr (if length image_urls \<ge> 1 then self\<lparr>image_url := image_urls ! 0\<rparr> else self, s))))"

section \<open>The image of the request\<close>

definition HandleImage ::
  "service_env \<Rightarrow> ImageInterface \<Rightarrow> service_static \<Rightarrow> fault + TALError \<times> ImageInterface \<times> service_static" where
  "HandleImage env self s =
     (let (res, self) = ParseRequestBody env self in
      if TALError_neq res (E_OK SERVICE_ERROR) then Inr (res, self, s)
      else rbind (VerifyImageParam self) (\<lambda>(res, self).
      if TALError_neq res (E_OK SERVICE_ERROR) then Inr (res, self, s)
      else rbind (if image_base64 self = [] then TransSingleURL env self s else Inr (self, s)) (\<lambda>(self, s).
      let (res, image_binary) = GetImageData (net_of env) [] (image_url self) (image_base64 self)
                                  download_timeout_seconds retry_count retry_sleep_millsecods in
      if TALError_neq res (E_OK SERVICE_ERROR) then Inr (res, self, s)
      else let (res, img) = DecodeImage (imdecode env) image_binary; self = self\<lparr>cv_image := img\<rparr> in
      if TALError_neq res (E_OK SERVICE_ERROR) then Inr (res, self, s)
      else if CheckImageFormat image_binary = UNKNOWN then Inr (E_IMAGE_FORMAT SERVICE_ERROR, self, s)
      else Inr (res, self, s))))"

definition HandleInnerImage ::
  "service_env \<Rightarrow> ImageInterface \<Rightarrow> fault + TALError \<times> ImageInterface" where
  "HandleInnerImage env self =
     (let (res, self) = ParseRequestBody env self in
      if TALError_neq res (E_OK SERVICE_ERROR) then Inr (res, self)
      else rbind (VerifyInnerImageParam self) (\<lambda>(res, self).
      if TALError_neq res (E_OK SERVICE_ERROR) then Inr (res, self)
      else let (res, image_binary) = GetImageData (net_of env) [] (image_url self) (image_base64 self)
                                       download_timeout_seconds retry_count retry_sleep_millsecods in
      if TALError_neq res (E_OK SERVICE_ERROR) then Inr (res, self)
      else let (res, img) = DecodeImage (imdecode env) image_binary
           in Inr (res, self\<lparr>cv_image := img\<rparr>)))"

section \<open>The classifier\<close>

text \<open>The return value and the result; \<^verbatim>\<open>levels[0]\<close> is read without a bounds check.\<close>

definition alg_process :: "service_env \<Rightarrow> Mat \<Rightarrow> json \<Rightarrow> fault + int \<times> json" where
  "alg_process env img result =
     (case predict env [img] of
        PredictThrows \<Rightarrow> Inr (- 1, result)
      | PredictReturn r levels \<Rightarrow>
          if r \<noteq> 0 then Inr (- 1, result)
          else if levels = [] then Inl IndexError
          else (case jset ''nudity'' (intValue (if levels ! 0 = 1 then 0 else 1)) result of
                  Inl e \<Rightarrow> Inr (- 1, result)
                | Inr result \<Rightarrow> Inr (0, result)))"

definition handler :: "service_env \<Rightarrow> ImageInterface \<Rightarrow> json \<Rightarrow> fault + TALError \<times> json" where
  "handler env self result =
     rbind (alg_process env (cv_image self) result) (\<lambda>(code, result).
       if code \<noteq> 0 then Inr (E_ALG_FAILED SERVICE_ERROR, result)
       else Inr (E_OK SERVICE_ERROR, result))"

section \<open>The response and the data flow message\<close>

text \<open>The difference of the two clock readings, assigned to a \<^verbatim>\<open>float\<close>.\<close>

definition float_of_int :: "int \<Rightarrow> rat" where
  "float_of_int z = (if z < 0 then - of_nat (rne24 (nat (- z))) else of_nat (rne24 (nat z)))"

definition response_json :: "TALError \<Rightarrow> json \<Rightarrow> int \<Rightarrow> json" where
  "response_json error result cost =
     (let ok = TALError_eq error (E_OK SERVICE_ERROR);
          data = (if ok then [(''result'', result)] else []);
          data = map_assign ''process_duration'' (realValue (if ok then float_of_int cost else 0)) data
      in objectValue (map_assign ''data'' (objectValue data)
           (map_assign ''msg'' (stringValue (message error))
             (map_assign ''code'' (intValue (code error)) []))))"

definition SendDataFlow ::
  "service_env \<Rightarrow> ImageInterface \<Rightarrow> int \<Rightarrow> int \<Rightarrow> TALError \<Rightarrow> string \<Rightarrow> service_static \<Rightarrow> fault + service_static" where
  "SendDataFlow env self request_time response_time error response s =
     rbind (DataFlow_SetValue data_request_id (stringValue (request_id self)) (DataFlow_new (flow s))) (\<lambda>m_root.
     rbind (if image_base64 self \<noteq> [] then SetSourceInfos False (image_base64 self) (request_id self) m_root
            else if image_url self \<noteq> [] then SetSourceInfos True (image_url self) (request_id self) m_root
            else SetSourceInfos False [] (request_id self) m_root) (\<lambda>m_root.
     rbind (jset_all
       [(data_api_name, stringValue (app_name s)),
        (data_url, stringValue (interface_url self)),
        (data_appkey, stringValue (app_key self)),
        (data_api_id, stringValue (GetURLParamValue (request self) data_api_id)),
        (data_request_time, intValue request_time),
        (data_response_time, intValue response_time),
        (data_duration, intValue (response_time - request_time)),
        (data_send_time, intValue (clock env 2)),
        (data_code, intValue (code error)),
        (data_err_code, intValue (code error)),
        (data_msg, stringValue (message error)),
        (data_err_msg, stringValue (message error))] m_root) (\<lambda>m_root.
     rbind (TransDataToJson (parse_json env) (write_json env) trans_response_json response m_root) (\<lambda>m_root.
     rbind (TransDataToJson (parse_json env) (write_json env) trans_body_json (body (request self)) m_root) (\<lambda>m_root.
     let mq_message = GetJsonData (write_json env) m_root;
         (client, fl) = GetInstance (flow s)
     in rbind (SendMsg (produce_throws env) client mq_message fl) (\<lambda>fl. Inr (s\<lparr>flow := fl\<rparr>)))))))"

section \<open>Handling a request\<close>

definition run_request ::
  "service_env \<Rightarrow> ImageInterface \<Rightarrow> service_static \<Rightarrow> fault + TALError \<times> json \<times> ImageInterface \<times> service_static" where
  "run_request env self s =
     rbind (HandleImage env self s) (\<lambda>(error, self, s).
       if TALError_neq error (E_OK SERVICE_ERROR) then Inr (error, nullValue, self, s)
       else rbind (handler env self nullValue) (\<lambda>(error, result). Inr (error, result, self, s)))"

definition HandleRequest ::
  "service_env \<Rightarrow> ImageInterface \<Rightarrow> service_static \<Rightarrow> fault + string \<times> ImageInterface \<times> service_static" where
  "HandleRequest env self s =
     (let request_time = clock env 0 in
      rbind (run_request env self s) (\<lambda>(error, result, self, s).
      let response_time = clock env 1;
          response = write_json env (response_json error result (response_time - request_time))
      in case current_env env of
           None \<Rightarrow> Inl NullPointer
         | Some e \<Rightarrow>
             rbind (if e \<noteq> ''LOCAL'' then SendDataFlow env self request_time response_time error response s
                    else Inr s) (\<lambda>s.
             Inr (response, self, MallocTrim s))))"

definition HandleInnerRequest ::
  "service_env \<Rightarrow> ImageInterface \<Rightarrow> service_static \<Rightarrow> fault + string \<times> ImageInterface \<times> service_static" where
  "HandleInnerRequest env self s =
     (let request_time = clock env 0 in
      rbind (rbind (HandleInnerImage env self) (\<lambda>(error, self).
        if TALError_neq error (E_OK SERVICE_ERROR) then Inr (error, nullValue, self)
        else rbind (handler env self nullValue) (\<lambda>(error, result). Inr (error, result, self))))
      (\<lambda>(error, result, self).
      let response_time = clock env 1;
          response = write_json env (response_json error result (response_time - request_time))
      in Inr (response, self, MallocTrim s)))"

definition ProcessRequest ::
  "service_env \<Rightarrow> ImageInterface \<Rightarrow> service_static \<Rightarrow> fault + string \<times> ImageInterface \<times> service_static" where
  "ProcessRequest env self s = HandleRequest env self s"

end
