(* ===== verification/Image_Service_Props.thy ===== *)
theory Image_Service_Props
  imports Image_Service
begin

text \<open>
  The properties of the request path: which requests are accepted, what the response holds, which
  data flow message is sent, when a request can end in a fault, and the periodic memory trim.
\<close>

section \<open>Errors\<close>

lemma ok_eq_iff [simp]:
  "TALError_eq TALError_default TALError_default" "\<not> TALError_neq TALError_default TALError_default"
  by (simp_all add: TALError_eq_def TALError_neq_def)

lemma failure_neq:
  "e \<in> snd ` set service_failures \<Longrightarrow> TALError_neq e TALError_default \<and> \<not> TALError_eq e TALError_default"
proof -
  assume "e \<in> snd ` set service_failures"
  then have "code e \<in> set (map (code \<circ> snd) service_failures)" by auto
  then have "code e \<noteq> 20000" unfolding service_failures_codes by auto
  then show ?thesis by (simp add: TALError_neq_def TALError_eq_def)
qed

lemma failures_mem:
  "E_UNKNOWN_REQ SERVICE_ERROR \<in> snd ` set service_failures"
  "E_REQ_BODY_JSON SERVICE_ERROR \<in> snd ` set service_failures"
  "E_REQ_BODY_OBJECT SERVICE_ERROR \<in> snd ` set service_failures"
  "E_IMAGE_URL_TYPE SERVICE_ERROR \<in> snd ` set service_failures"
  "E_IMAGE_DOWNLOAD SERVICE_ERROR \<in> snd ` set service_failures"
  "E_IMAGE_BASE64_TYPE SERVICE_ERROR \<in> snd ` set service_failures"
  "E_IMAGE_BASE64_DECODE SERVICE_ERROR \<in> snd ` set service_failures"
  "E_REQ_IMAGE_NULL SERVICE_ERROR \<in> snd ` set service_failures"
  "E_IMAGE_DECODE SERVICE_ERROR \<in> snd ` set service_failures"
  "E_IMAGE_RESOLUTION SERVICE_ERROR \<in> snd ` set service_failures"
  "E_IMAGE_FORMAT SERVICE_ERROR \<in> snd ` set service_failures"
  "E_FACE_RECTS_NULL SERVICE_ERROR \<in> snd ` set service_failures"
  "E_FACE_RECTS_TYPE SERVICE_ERROR \<in> snd ` set service_failures"
  "E_FACE_RECTS_ELEM_TYPE SERVICE_ERROR \<in> snd ` set service_failures"
  "E_FACE_RECT_DATA_TYPE SERVICE_ERROR \<in> snd ` set service_failures"
  "E_FACE_RECT_DATA_INCOMPLETE SERVICE_ERROR \<in> snd ` set service_failures"
  "E_IMAGE_BASE64_NULL SERVICE_ERROR \<in> snd ` set service_failures"
  "E_ALG_FAILED SERVICE_ERROR \<in> snd ` set service_failures"
  by (simp_all add: service_failures_def)

lemmas failures_neq [simp] = failures_mem [THEN failure_neq, THEN conjunct1]
  failures_mem [THEN failure_neq, THEN conjunct2]

section \<open>Parameters\<close>

text \<open>The image a request object names: the inline text, or else the address.\<close>

definition named_url :: "json \<Rightarrow> string" where
  "named_url j = (case member ''image_url'' j of
     Some v \<Rightarrow> if isString v then asString v else [] | None \<Rightarrow> [])"

definition named_image :: "json \<Rightarrow> string \<times> string" where
  "named_image j =
     (case member ''image_base64'' j of
        Some v \<Rightarrow> if \<not> isString v then ([], [])
                  else if asString v \<noteq> [] then (asString v, []) else ([], named_url j)
      | None \<Rightarrow> ([], named_url j))"

lemma VerifyImageParam_new:
  assumes "request_body_json self = j" "isObject j" "image_base64 self = []" "image_url self = []"
  shows "\<exists>e self'. VerifyImageParam self = Inr (e, self')
    \<and> (if named_image j = ([], []) then e \<in> {E_IMAGE_BASE64_TYPE SERVICE_ERROR, E_IMAGE_URL_TYPE SERVICE_ERROR,
           E_REQ_IMAGE_NULL SERVICE_ERROR}
       else e = E_OK SERVICE_ERROR
         \<and> self' = self\<lparr>image_base64 := fst (named_image j), image_url := snd (named_image j)\<rparr>)"
proof -
  obtain m where m: "j = objectValue m" using assms(2) by (rule isObject_E)
  obtain bv uv where bv: "map_of m ''image_base64'' = bv" and uv: "map_of m ''image_url'' = uv" by blast
  show ?thesis
    using assms(1,3,4) unfolding m VerifyImageParam_def named_image_def named_url_def
    by (cases bv; cases uv) (simp_all add: bv uv Let_def)
qed

lemma ImageInterface_new_fields [simp]:
  "request (ImageInterface_new u req) = req" "image_base64 (ImageInterface_new u req) = []"
  "image_url (ImageInterface_new u req) = []" "interface_url (ImageInterface_new u req) = u"
  "request_id (ImageInterface_new u req) = GetURLParamValue req data_request_id"
  by (simp_all add: ImageInterface_new_def)

section \<open>From the image data to the verdict\<close>

definition image_verdict :: "service_env \<Rightarrow> string \<Rightarrow> TALError" where
  "image_verdict env bin =
     (let img = imdecode env (bytes_of bin) in
      if dims img \<noteq> 2 \<or> rows img = 0 \<or> cols img = 0 then E_IMAGE_DECODE SERVICE_ERROR
      else if wrap32 (rows img * cols img) > 4096 * 2160 then E_IMAGE_RESOLUTION SERVICE_ERROR
      else if CheckImageFormat bin = UNKNOWN then E_IMAGE_FORMAT SERVICE_ERROR
      else E_OK SERVICE_ERROR)"

text \<open>The steps of \<^verbatim>\<open>HandleImage\<close> from \<^verbatim>\<open>GetImageData\<close> on.\<close>

definition image_steps :: "service_env \<Rightarrow> ImageInterface \<Rightarrow> TALError \<times> ImageInterface" where
  "image_steps env self =
     (let (res, bin) = GetImageData (net_of env) [] (image_url self) (image_base64 self) 3 3 500
      in if TALError_neq res (E_OK SERVICE_ERROR) then (res, self)
         else (image_verdict env bin, self\<lparr>cv_image := imdecode env (bytes_of bin)\<rparr>))"

lemma image_steps_tail:
  "(let (res, image_binary) = GetImageData (net_of env) [] (image_url self) (image_base64 self)
                                  download_timeout_seconds retry_count retry_sleep_millsecods in
      if TALError_neq res (E_OK SERVICE_ERROR) then Inr (res, self, s)
      else let (res, img) = DecodeImage (imdecode env) image_binary; self = self\<lparr>cv_image := img\<rparr> in
      if TALError_neq res (E_OK SERVICE_ERROR) then Inr (res, self, s)
      else if CheckImageFormat image_binary = UNKNOWN then Inr (E_IMAGE_FORMAT SERVICE_ERROR, self, s)
      else Inr (res, self, s)) = Inr (fst (image_steps env self), snd (image_steps env self), s)"
  by (simp add: image_steps_def image_verdict_def DecodeImage_def download_timeout_seconds_def
      retry_count_def retry_sleep_millsecods_def Let_def case_prod_unfold)

lemma HandleImage_steps:
  "HandleImage env self s =
     (let (res, self) = ParseRequestBody env self in
      if TALError_neq res (E_OK SERVICE_ERROR) then Inr (res, self, s)
      else rbind (VerifyImageParam self) (\<lambda>(res, self).
      if TALError_neq res (E_OK SERVICE_ERROR) then Inr (res, self, s)
      else rbind (if image_base64 self = [] then TransSingleURL env self s else Inr (self, s)) (\<lambda>(self, s).
        Inr (fst (image_steps env self), snd (image_steps env self), s))))"
  unfolding HandleImage_def image_steps_tail ..

lemma HandleImage_named:
  assumes "parse_json env (body req) = Parsed j" "isObject j" "named_image j \<noteq> ([], [])"
  shows "HandleImage env (ImageInterface_new u req) s =
    (let self = (ImageInterface_new u req)\<lparr>request_body_json := j, image_base64 := fst (named_image j),
                  image_url := snd (named_image j)\<rparr>
     in rbind (if fst (named_image j) = [] then TransSingleURL env self s else Inr (self, s)) (\<lambda>(self, s).
        Inr (fst (image_steps env self), snd (image_steps env self), s)))"
proof -
  let ?self = "(ImageInterface_new u req)\<lparr>request_body_json := j\<rparr>"
  have "VerifyImageParam ?self = Inr (E_OK SERVICE_ERROR,
      ?self\<lparr>image_base64 := fst (named_image j), image_url := snd (named_image j)\<rparr>)"
    using VerifyImageParam_new [of ?self j] assms(2,3) by auto
  then show ?thesis
    using assms(1,2) by (simp add: HandleImage_steps ParseRequestBody_def Let_def)
qed

text \<open>
  C4. A request whose body is an object with a non-empty \<^verbatim>\<open>image_base64\<close> text never touches the
  network or the statics: the verdict is E_IMAGE_BASE64_DECODE when the text does not decode, and
  otherwise depends on the decoded bytes alone, in the order not an image, too many pixels, unknown
  signature, accepted; an image the service encoded itself is never refused for its encoding.
\<close>

theorem HandleImage_inline:
  assumes "parse_json env (body req) = Parsed j" "isObject j"
    and "member ''image_base64'' j = Some (stringValue b)" "b \<noteq> []"
  shows "\<exists>self'. HandleImage env (ImageInterface_new u req) s = Inr
      (case Base64Decode b of None \<Rightarrow> E_IMAGE_BASE64_DECODE SERVICE_ERROR
       | Some bs \<Rightarrow> image_verdict env (string_of bs), self', s)
    \<and> (\<forall>bs. b = base64_encode bs \<longrightarrow>
         cv_image self' = imdecode env bs
         \<and> fst (projr (HandleImage env (ImageInterface_new u req) s)) = image_verdict env (string_of bs))"
proof -
  have n: "named_image j = (b, [])" using assms(3,4) by (simp add: named_image_def)
  let ?self = "(ImageInterface_new u req)\<lparr>request_body_json := j, image_base64 := b, image_url := []\<rparr>"
  have h: "HandleImage env (ImageInterface_new u req) s
      = Inr (fst (image_steps env ?self), snd (image_steps env ?self), s)"
    using HandleImage_named [OF assms(1,2)] n assms(4) by (simp add: Let_def)
  show ?thesis
  proof (cases "Base64Decode b")
    case None
    then have "b \<noteq> base64_encode bs" for bs using Base64Decode_encode by (metis option.distinct(1))
    then show ?thesis
      unfolding h using None assms(4) by (simp add: image_steps_def GetImageData_def)
  next
    case (Some bs)
    then have "b = base64_encode bs' \<Longrightarrow> bs' = bs" for bs'
      using Base64Decode_encode by (metis option.inject)
    then show ?thesis
      unfolding h using Some assms(4) by (auto simp: image_steps_def GetImageData_def)
  qed
qed

section \<open>Images named by address\<close>

text \<open>Attempt \<open>k\<close> of the translation answered with the inner address \<open>v\<close>.\<close>

definition inner_url_at ::
  "net_env \<Rightarrow> string \<Rightarrow> string \<Rightarrow> nat \<Rightarrow> string \<Rightarrow> nat \<Rightarrow> string \<Rightarrow> bool" where
  "inner_url_at env rid trans_url t u k v \<longleftrightarrow>
     inner_reply env 1 (post env k (c_str trans_url) (c_str (write_json env (trans_root [u] rid (send_time env k)))) t) [v]"

lemma trans_loop_result:
  "trans_loop env n i rid trans_url t [u] e = (res, urls, e') \<Longrightarrow>
   (res \<longrightarrow> (\<exists>k v. i \<le> k \<and> k < i + n \<and> urls = [v] \<and> inner_url_at env rid trans_url t u k v))
   \<and> (\<not> res \<longrightarrow> urls = [u] \<and> (\<forall>k v. i \<le> k \<and> k < i + n \<longrightarrow> \<not> inner_url_at env rid trans_url t u k v))"
proof (induction n arbitrary: i e)
  case (Suc n)
  obtain res1 urls1 e1 where t: "Trans2InnerUrl env i rid [u] trans_url e t = (res1, urls1, e1)"
    by (metis prod_cases3)
  note r = Trans2InnerUrl_inner [OF t refl, simplified]
  show ?case
  proof (cases res1)
    case True
    then obtain v where "urls1 = [v]"
      using r inner_reply_length [of env "Suc 0"] by (metis length_0_conv length_Suc_conv)
    with True r t Suc.prems show ?thesis by (auto simp: inner_url_at_def)
  next
    case False
    then have "trans_loop env n (Suc i) rid trans_url t [u] e1 = (res, urls, e')"
      using Suc.prems t r by simp
    note ih = Suc.IH [OF this]
    have "\<not> inner_url_at env rid trans_url t u i v" for v using r False by (simp add: inner_url_at_def)
    then have "\<not> inner_url_at env rid trans_url t u k v"
      if "\<not> res" "i \<le> k" "k < i + Suc n" for k v
      using that ih by (cases "k = i") auto
    then show ?thesis using ih by (auto simp: Suc_le_eq intro: less_imp_le)
  qed
qed auto

lemma image_steps_url:
  assumes "image_base64 self = []" "image_url self = u'"
  shows "fst (image_steps env self) =
      (if u' = [] then E_REQ_IMAGE_NULL SERVICE_ERROR
       else case find (attempt_good (net_of env) u' 3) [0 ..< 3] of
              None \<Rightarrow> E_IMAGE_DOWNLOAD SERVICE_ERROR
            | Some k \<Rightarrow> image_verdict env (concat (map (attempt_body (net_of env) u' 3) [0 ..< Suc k])))"
proof (cases "u' = []")
  case True
  then show ?thesis using assms by (simp add: image_steps_def GetImageData_def)
next
  case False
  show ?thesis
    using assms False unfolding image_steps_def
    by (cases "find (attempt_good (net_of env) u' 3) [0 ..< 3]")
      (simp_all only: GetImageData_download [OF False] option.case prod.case Let_def if_False if_True
        failures_neq fst_conv SERVICE_ERROR_ok ok_eq_iff simp_thms)
qed

text \<open>
  C5. A request that names its image by address: the address is replaced by the inner one of the
  first translation attempt that answers, or kept with one alarm logged when none of the configured
  attempts does; the image is then downloaded from that address with three attempts, and the verdict
  is that of the downloaded data, E_IMAGE_DOWNLOAD when no attempt succeeds, or E_REQ_IMAGE_NULL when
  the translation produced an empty address.
\<close>

theorem HandleImage_url:
  assumes "parse_json env (body req) = Parsed j" "isObject j"
    and "named_image j = ([], u0)" "u0 \<noteq> []"
    and "conf_int env APOLLO_DATAFLOW_URL_TRANS_TIMEOUT 1 = Inr t"
    and "conf_int env APOLLO_DATAFLOW_URL_TRANS_RETRY 1 = Inr r"
  defines "inner \<equiv> inner_url_at (net_of env) (GetURLParamValue req data_request_id)
                      (GetValue APOLLO_DATAFLOW_URL_TRANS_HOST [] (params env)) (nat (t mod 2 ^ 32)) u0"
  shows "\<exists>u' self' s'. HandleImage env (ImageInterface_new u req) s = Inr
      (if u' = [] then E_REQ_IMAGE_NULL SERVICE_ERROR
       else case find (attempt_good (net_of env) u' 3) [0 ..< 3] of
              None \<Rightarrow> E_IMAGE_DOWNLOAD SERVICE_ERROR
            | Some k \<Rightarrow> image_verdict env (concat (map (attempt_body (net_of env) u' 3) [0 ..< Suc k])),
       self', s')
    \<and> image_url self' = u'
    \<and> ((\<exists>k. k < nat r \<and> inner k u') \<and> s' = s
       \<or> (\<forall>k v. k < nat r \<longrightarrow> \<not> inner k v) \<and> u' = u0
         \<and> (\<exists>msg. s' = s\<lparr>alarms := alarms s @ [GenerateAlarmMsg (E_URL_TRANS TECHNICAL_ERROR) u msg]\<rparr>))"
proof -
  let ?self = "(ImageInterface_new u req)\<lparr>request_body_json := j, image_base64 := [], image_url := u0\<rparr>"
  obtain res urls e where l: "trans_loop (net_of env) (nat r) 0 (GetURLParamValue req data_request_id)
      (GetValue APOLLO_DATAFLOW_URL_TRANS_HOST [] (params env)) (nat (t mod 2 ^ 32)) [u0] [] = (res, urls, e)"
    by (metis prod_cases3)
  note lr = trans_loop_result [OF l, folded inner_def, simplified]
  define u' where "u' = (if res then hd urls else u0)"
  define s' where "s' = (if res then s else s\<lparr>alarms := alarms s @
      [GenerateAlarmMsg (E_URL_TRANS TECHNICAL_ERROR) u e]\<rparr>)"
  have tr: "TransSingleURL env ?self s = Inr (?self\<lparr>image_url := u'\<rparr>, s')"
    using assms(5,6) l lr by (auto simp: TransSingleURL_def u'_def s'_def Let_def)
  have h: "HandleImage env (ImageInterface_new u req) s
      = Inr (fst (image_steps env (?self\<lparr>image_url := u'\<rparr>)), snd (image_steps env (?self\<lparr>image_url := u'\<rparr>)), s')"
    using HandleImage_named [OF assms(1,2), of u s] assms(3,4) tr by (simp add: Let_def)
  have v: "fst (image_steps env (?self\<lparr>image_url := u'\<rparr>)) =
      (if u' = [] then E_REQ_IMAGE_NULL SERVICE_ERROR
       else case find (attempt_good (net_of env) u' 3) [0 ..< 3] of
              None \<Rightarrow> E_IMAGE_DOWNLOAD SERVICE_ERROR
            | Some k \<Rightarrow> image_verdict env (concat (map (attempt_body (net_of env) u' 3) [0 ..< Suc k])))"
    by (rule image_steps_url) simp_all
  have "image_url (snd (image_steps env (?self\<lparr>image_url := u'\<rparr>))) = u'"
    by (simp add: image_steps_def Let_def case_prod_unfold)
  moreover have "(\<exists>k. k < nat r \<and> inner k u') \<and> s' = s
       \<or> (\<forall>k v. k < nat r \<longrightarrow> \<not> inner k v) \<and> u' = u0
         \<and> (\<exists>msg. s' = s\<lparr>alarms := alarms s @ [GenerateAlarmMsg (E_URL_TRANS TECHNICAL_ERROR) u msg]\<rparr>)"
    using lr by (cases res) (auto simp: u'_def s'_def)
  ultimately show ?thesis using h unfolding v by blast
qed

section \<open>Results and frame of the steps\<close>

definition service_error :: "TALError \<Rightarrow> bool" where
  "service_error e \<longleftrightarrow> e = TALError_default \<or> e \<in> snd ` set service_failures"

lemma service_errorI [simp]:
  "service_error TALError_default"
  "e \<in> snd ` set service_failures \<Longrightarrow> service_error e"
  by (simp_all add: service_error_def)

lemma service_error_neq: "service_error e \<Longrightarrow> TALError_neq e TALError_default \<longleftrightarrow> e \<noteq> TALError_default"
  using failure_neq [of e] by (auto simp: service_error_def)

text \<open>The parts of the two records that no step before the data flow changes.\<close>

definition same_frame :: "ImageInterface \<Rightarrow> ImageInterface \<Rightarrow> bool" where
  "same_frame a b \<longleftrightarrow> request a = request b \<and> request_id a = request_id b \<and> app_key a = app_key b
     \<and> interface_url a = interface_url b"

definition same_static :: "service_static \<Rightarrow> service_static \<Rightarrow> bool" where
  "same_static a b \<longleftrightarrow> flow a = flow b \<and> app_name a = app_name b \<and> trim_count a = trim_count b
     \<and> trims a = trims b"

lemma ParseRequestBody_result:
  "ParseRequestBody env self = (e, self') \<Longrightarrow> service_error e \<and> same_frame self' self
   \<and> (e = TALError_default \<longrightarrow> isObject (request_body_json self'))"
  by (auto simp: ParseRequestBody_def same_frame_def failures_mem Let_def split: parse_result.splits if_splits)
    (metis failures_mem failure_neq ok_eq_iff(2))+

lemma VerifyImageParam_result:
  assumes "isObject (request_body_json self)"
  shows "\<exists>e self'. VerifyImageParam self = Inr (e, self') \<and> service_error e \<and> same_frame self' self"
proof -
  obtain m where m: "request_body_json self = objectValue m" using assms by (rule isObject_E)
  show ?thesis
    by (simp add: VerifyImageParam_def m Let_def failures_mem same_frame_def)
qed

lemma TransSingleURL_result:
  assumes "TransSingleURL env self s = Inr (self', s')"
  shows "same_frame self' self \<and> same_static s' s"
proof -
  obtain u a where "self' = self\<lparr>image_url := u\<rparr>" "s' = s\<lparr>alarms := a\<rparr>"
  proof -
    have "\<exists>u a. self' = self\<lparr>image_url := u\<rparr> \<and> s' = s\<lparr>alarms := a\<rparr>"
    proof -
      obtain t r where "conf_int env APOLLO_DATAFLOW_URL_TRANS_TIMEOUT 1 = Inr t"
        "conf_int env APOLLO_DATAFLOW_URL_TRANS_RETRY 1 = Inr r"
        using assms unfolding TransSingleURL_def Let_def rbind_Inr by blast
      moreover obtain res urls e where "trans_loop (net_of env) (nat r) 0 (request_id self)
        (GetValue APOLLO_DATAFLOW_URL_TRANS_HOST [] (params env)) (nat (t mod 2 ^ 32)) [image_url self] []
        = (res, urls, e)"
        by (metis prod_cases3)
      ultimately have "self' = self\<lparr>image_url := if res \<and> length urls \<ge> 1 then urls ! 0 else image_url self\<rparr>"
        "s' = s\<lparr>alarms := if res then alarms s else alarms s @
             [GenerateAlarmMsg (E_URL_TRANS TECHNICAL_ERROR) (interface_url self) e]\<rparr>"
        using assms by (auto simp: TransSingleURL_def Let_def split: if_splits)
      then show ?thesis by blast
    qed
    with that show thesis by blast
  qed
  then show ?thesis by (simp add: same_frame_def same_static_def)
qed

lemma image_steps_result:
  "service_error (fst (image_steps env self)) \<and> same_frame (snd (image_steps env self)) self"
  by (simp add: image_steps_def image_verdict_def GetImageData_def Let_def case_prod_unfold same_frame_def
      failures_mem split: option.split)

lemma HandleImage_result:
  assumes "HandleImage env self s = Inr (e, self', s')"
  shows "service_error e \<and> same_frame self' self \<and> same_static s' s"
proof -
  obtain e1 self1 where p: "ParseRequestBody env self = (e1, self1)" by (cases "ParseRequestBody env self")
  note p1 = ParseRequestBody_result [OF p]
  show ?thesis
  proof (cases "e1 = TALError_default")
    case False
    then show ?thesis
      using assms p p1 service_error_neq [of e1] by (simp add: HandleImage_steps same_static_def)
  next
    case True
    then obtain e2 self2 where v: "VerifyImageParam self1 = Inr (e2, self2)"
      and v1: "service_error e2" "same_frame self2 self1"
      using VerifyImageParam_result p1 by metis
    show ?thesis
    proof (cases "e2 = TALError_default")
      case False
      then show ?thesis
        using assms p p1 v v1 True service_error_neq [of e2]
        by (auto simp: HandleImage_steps same_static_def same_frame_def)
    next
      case e2: True
      then obtain self3 where
        t: "(if image_base64 self2 = [] then TransSingleURL env self2 s else Inr (self2, s)) = Inr (self3, s')"
        and r: "e = fst (image_steps env self3)" "self' = snd (image_steps env self3)"
        using assms p v True by (auto simp: HandleImage_steps rbind_Inr)
      then have "same_frame self3 self2 \<and> same_static s' s"
        using TransSingleURL_result [of env self2 s self3 s']
        by (auto simp: same_frame_def same_static_def split: if_splits)
      then show ?thesis
        using r v1 p1 image_steps_result [of env self3] by (simp add: same_frame_def)
    qed
  qed
qed

lemma run_request_result:
  assumes "run_request env self s = Inr (e, result, self', s')"
  shows "same_frame self' self \<and> same_static s' s \<and>
    (e = TALError_default \<and> (\<exists>levels. predict env [cv_image self'] = PredictReturn 0 levels \<and> levels \<noteq> []
        \<and> result = objectValue [(''nudity'', intValue (if levels ! 0 = 1 then 0 else 1))])
     \<or> e \<in> snd ` set service_failures \<and> result = nullValue)"
proof -
  obtain e1 self1 s1 where h: "HandleImage env self s = Inr (e1, self1, s1)"
    using assms by (auto simp: run_request_def rbind_Inr)
  note h1 = HandleImage_result [OF h]
  show ?thesis
  proof (cases "e1 = TALError_default")
    case False
    then show ?thesis
      using assms h h1 service_error_neq [of e1] by (auto simp: run_request_def service_error_def)
  next
    case True
    then have "rbind (handler env self1 nullValue) (\<lambda>(error, result). Inr (error, result, self1, s1))
        = Inr (e, result, self', s')"
      using assms h by (simp add: run_request_def)
    then show ?thesis
      using h1
      by (auto simp: handler_def alg_process_def rbind_Inr failures_mem
          split: predict_result.splits if_splits)
  qed
qed

section \<open>The response\<close>

lemma response_json_members:
  "member ''code'' (response_json e result c) = Some (intValue (code e))"
  "member ''msg'' (response_json e result c) = Some (stringValue (message e))"
  "member ''data'' (response_json e result c) = Some (objectValue
     (if TALError_eq e TALError_default
      then [(''process_duration'', realValue (float_of_int c)), (''result'', result)]
      else [(''process_duration'', realValue 0)]))"
  "json_wf result \<Longrightarrow> json_wf (response_json e result c)"
  "isObject (response_json e result c)"
  by (simp_all add: response_json_def Let_def map_simps)

text \<open>
  C2. Whenever a request is answered, the answer is a JSON object with a code, a message and a data
  object. Either the code is 20000 and the result holds \<^verbatim>\<open>nudity\<close>, 0 exactly when the classifier's
  level for the request's image is 1, together with the measured duration; or the code is one of the
  service's failures and there is no result and a zero duration.
\<close>

theorem HandleRequest_response:
  assumes "HandleRequest env self s = Inr (response, self', s')"
  shows "\<exists>e r d. response = write_json env r \<and> isObject r
    \<and> member ''code'' r = Some (intValue (code e)) \<and> member ''msg'' r = Some (stringValue (message e))
    \<and> member ''data'' r = Some d
    \<and> (e = E_OK SERVICE_ERROR \<and> code e = 20000
        \<and> (\<exists>levels. predict env [cv_image self'] = PredictReturn 0 levels \<and> levels \<noteq> []
             \<and> member ''result'' d = Some (objectValue [(''nudity'', intValue (if levels ! 0 = 1 then 0 else 1))]))
        \<and> member ''process_duration'' d = Some (realValue (float_of_int (clock env 1 - clock env 0)))
       \<or> e \<in> snd ` set service_failures \<and> code e \<noteq> 20000
        \<and> member ''result'' d = None \<and> member ''process_duration'' d = Some (realValue 0))"
proof -
  obtain e result s1 where r: "run_request env self s = Inr (e, result, self', s1)"
    and resp: "response = write_json env (response_json e result (clock env 1 - clock env 0))"
    using assms by (auto simp: HandleRequest_def Let_def rbind_Inr split: option.splits)
  let ?r = "response_json e result (clock env 1 - clock env 0)"
  note o = response_json_members(5) [of e result "clock env 1 - clock env 0"]
  consider (ok) levels where "e = TALError_default" "predict env [cv_image self'] = PredictReturn 0 levels"
      "levels \<noteq> []" "result = objectValue [(''nudity'', intValue (if levels ! 0 = 1 then 0 else 1))]"
    | (fail) "e \<in> snd ` set service_failures"
    using run_request_result [OF r] by blast
  then show ?thesis
  proof cases
    case ok
    show ?thesis
      by (rule exI [of _ e], rule exI [of _ ?r], rule exI [of _ "the (member ''data'' ?r)"])
        (use ok in \<open>simp add: resp o response_json_members\<close>)
  next
    case fail
    then have "\<not> TALError_eq e TALError_default" by (simp add: failure_neq)
    moreover from this have "code e \<noteq> 20000" by (simp add: TALError_eq_def)
    ultimately have d: "member ''data'' ?r = Some (objectValue [(''process_duration'', realValue 0)])"
      "code e \<noteq> 20000"
      by (simp_all add: response_json_members)
    show ?thesis
      by (rule exI [of _ e], rule exI [of _ ?r], rule exI [of _ "objectValue [(''process_duration'', realValue 0)]"])
        (use fail o resp d response_json_members(1,2) in simp)
  qed
qed

section \<open>The data flow message\<close>

definition flow_message ::
  "service_env \<Rightarrow> ImageInterface \<Rightarrow> int \<Rightarrow> int \<Rightarrow> TALError \<Rightarrow> json \<Rightarrow> service_static \<Rightarrow> json \<Rightarrow> bool" where
  "flow_message env self t0 t1 e r s m \<longleftrightarrow>
     member ''requestId'' m = Some (stringValue (request_id self))
     \<and> member ''sourceInfos'' m = Some
         (if image_base64 self \<noteq> [] then source_infos False (image_base64 self) (request_id self)
          else source_infos True (image_url self) (request_id self))
     \<and> member ''apiName'' m = Some (stringValue (app_name s))
     \<and> member ''url'' m = Some (stringValue (interface_url self))
     \<and> member ''duration'' m = Some (intValue (t1 - t0))
     \<and> member ''code'' m = Some (intValue (code e)) \<and> member ''errCode'' m = Some (intValue (code e))
     \<and> member ''msg'' m = Some (stringValue (message e)) \<and> member ''errMsg'' m = Some (stringValue (message e))
     \<and> member ''apiType'' m = Some (stringValue (api_type (flow s)))
     \<and> member ''bizType'' m = Some (stringValue (biz_type (flow s)))
     \<and> member ''data'' m = Some r
     \<and> member ''sourceRemark'' m = Some (request_param
         (body_remark (write_json env) (parse_json env (c_str (body (request self)))) (body (request self))))"

definition flow_sent :: "service_env \<Rightarrow> string \<Rightarrow> dataflow_static \<Rightarrow> dataflow_static" where
  "flow_sent env msg f = (let (c, f') = GetInstance f
     in f'\<lparr>produced := produced f @ (if produce_throws env then [] else [(m_topic c, msg)])\<rparr>)"

lemma SendMsg_sent:
  "p_producer f \<noteq> None \<Longrightarrow>
   (let (c, f') = GetInstance f in SendMsg (produce_throws env) c msg f') = Inr (flow_sent env msg f)"
  by (cases "p_instance f") (auto simp: GetInstance_def SendMsg_def flow_sent_def Let_def)

text \<open>The record before the request body is added, and the rest of \<^verbatim>\<open>SendDataFlow\<close>.\<close>

definition send_rest :: "service_env \<Rightarrow> ImageInterface \<Rightarrow> service_static \<Rightarrow> json \<Rightarrow> fault + service_static" where
  "send_rest env self s m =
     rbind (TransDataToJson (parse_json env) (write_json env) trans_body_json (body (request self)) m) (\<lambda>m.
       rbind (let (c, f) = GetInstance (flow s) in SendMsg (produce_throws env) c (write_json env m) f)
         (\<lambda>fl. Inr (s\<lparr>flow := fl\<rparr>)))"

lemma SendDataFlow_prefix:
  assumes "parse_json env (c_str response) = Parsed r" "json_wf r"
  shows "\<exists>m. SendDataFlow env self t0 t1 e response s = send_rest env self s m \<and> root_ok m
    \<and> (\<forall>m'. (\<forall>k. member k m' = (if k = data_source_remark then Some (request_param
         (body_remark (write_json env) (parse_json env (c_str (body (request self)))) (body (request self))))
       else member k m)) \<longrightarrow> flow_message env self t0 t1 e r s m')"
proof -
  obtain m1 where m1: "jset data_request_id (stringValue (request_id self)) (DataFlow_new (flow s)) = Inr m1"
    "root_ok m1" "\<forall>k. member k m1 = (if k = data_request_id then Some (stringValue (request_id self))
       else member k (DataFlow_new (flow s)))"
    using jset_root [of "DataFlow_new (flow s)" "stringValue (request_id self)" data_request_id] by auto
  have none: "member data_source_infos m1 = None" using m1(3) by (simp add: member_new data_names)
  let ?b = "image_base64 self = []" and ?v = "if image_base64 self \<noteq> [] then image_base64 self else image_url self"
  have src: "(if image_base64 self \<noteq> [] then SetSourceInfos False (image_base64 self) (request_id self) m1
            else if image_url self \<noteq> [] then SetSourceInfos True (image_url self) (request_id self) m1
            else SetSourceInfos False [] (request_id self) m1) = SetSourceInfos ?b ?v (request_id self) m1"
    by (simp add: SetSourceInfos_def)
  obtain m2 where m2: "SetSourceInfos ?b ?v (request_id self) m1 = Inr m2"
    "root_ok m2" "\<forall>k. member k m2 = (if k = data_source_infos then Some (source_infos ?b ?v (request_id self))
       else member k m1)"
    using SetSourceInfos_ok [OF m1(2) none] by blast
  let ?kvs = "[(data_api_name, stringValue (app_name s)),
        (data_url, stringValue (interface_url self)),
        (data_appkey, stringValue (app_key self)),
        (data_api_id, stringValue (GetURLParamValue (request self) data_api_id)),
        (data_request_time, intValue t0), (data_response_time, intValue t1),
        (data_duration, intValue (t1 - t0)), (data_send_time, intValue (clock env 2)),
        (data_code, intValue (code e)), (data_err_code, intValue (code e)),
        (data_msg, stringValue (message e)), (data_err_msg, stringValue (message e))]"
  obtain m3 where m3: "jset_all ?kvs m2 = Inr m3" "root_ok m3"
    "\<forall>k. member k m3 = (case map_of (rev ?kvs) k of Some v \<Rightarrow> Some v | None \<Rightarrow> member k m2)"
    using jset_all_ok [of m2 ?kvs] m2(2) unfolding root_ok_def by auto
  obtain m4 where m4: "TransDataToJson (parse_json env) (write_json env) trans_response_json response m3 = Inr m4"
    "root_ok m4" "\<forall>k. member k m4 = (if k = data_ret_data then Some r else member k m3)"
    using TransDataToJson_response [of m3 "parse_json env" response r "write_json env", OF m3(2) assms] by blast
  have "SendDataFlow env self t0 t1 e response s = send_rest env self s m4"
    unfolding SendDataFlow_def DataFlow_SetValue_def GetJsonData_def send_rest_def
    by (simp only: src m1(1) m2(1) m3(1) m4(1) rbind.simps Let_def case_prod_unfold)
  moreover have "flow_message env self t0 t1 e r s m5"
    if "\<forall>k. member k m5 = (if k = data_source_remark then Some (request_param
         (body_remark (write_json env) (parse_json env (c_str (body (request self)))) (body (request self))))
       else member k m4)" for m5
    unfolding flow_message_def using m1(3) m2(3) m3(3) m4(3) that
    by (simp add: member_new data_names)
  ultimately show ?thesis using m4(2) by blast
qed

lemma SendDataFlow_ok:
  assumes "p_producer (flow s) \<noteq> None"
    and "parse_json env (c_str response) = Parsed r" "json_wf r"
    and "parse_json env (c_str (body (request self))) \<noteq> ParseThrows"
  shows "\<exists>m. SendDataFlow env self t0 t1 e response s = Inr (s\<lparr>flow := flow_sent env (write_json env m) (flow s)\<rparr>)
    \<and> flow_message env self t0 t1 e r s m"
proof -
  obtain m4 where m4: "SendDataFlow env self t0 t1 e response s = send_rest env self s m4" "root_ok m4"
    "\<forall>m'. (\<forall>k. member k m' = (if k = data_source_remark then Some (request_param
         (body_remark (write_json env) (parse_json env (c_str (body (request self)))) (body (request self))))
       else member k m4)) \<longrightarrow> flow_message env self t0 t1 e r s m'"
    using SendDataFlow_prefix [OF assms(2,3)] by blast
  obtain m5 where m5: "TransDataToJson (parse_json env) (write_json env) trans_body_json (body (request self)) m4 = Inr m5"
    "\<forall>k. member k m5 = (if k = data_source_remark then Some (request_param
         (body_remark (write_json env) (parse_json env (c_str (body (request self)))) (body (request self))))
       else member k m4)"
    using TransDataToJson_body [of m4 "parse_json env" "body (request self)" "write_json env", OF m4(2) assms(4)]
    by blast
  then show ?thesis
    using m4(1,3) SendMsg_sent [OF assms(1), of env "write_json env m5"] by (auto simp: send_rest_def)
qed

lemma SendDataFlow_throws:
  assumes "parse_json env (c_str response) = Parsed r" "json_wf r"
    and "parse_json env (c_str (body (request self))) = ParseThrows"
  shows "SendDataFlow env self t0 t1 e response s = Inl ParseException"
  using SendDataFlow_prefix [OF assms(1,2), of self t0 t1 e s] assms(3)
  by (auto simp: send_rest_def TransDataToJson_def)

lemma TransDataToJson_throws:
  "TransDataToJson parse write t data j = Inr j' \<Longrightarrow> parse (c_str data) \<noteq> ParseThrows"
  by (auto simp: TransDataToJson_def)

lemma SendDataFlow_Inr:
  assumes "SendDataFlow env self t0 t1 e response s = Inr s'"
  shows "p_producer (flow s) \<noteq> None \<and> parse_json env (c_str (body (request self))) \<noteq> ParseThrows"
proof -
  obtain m m' where
    "TransDataToJson (parse_json env) (write_json env) trans_body_json (body (request self)) m = Inr m'"
    and "\<exists>fl. SendMsg (produce_throws env) (fst (GetInstance (flow s))) (GetJsonData (write_json env) m')
           (snd (GetInstance (flow s))) = Inr fl"
    using assms unfolding SendDataFlow_def rbind_Inr Let_def case_prod_unfold by blast
  then show ?thesis
    using TransDataToJson_throws
    by (fastforce simp: SendMsg_def GetInstance_def Let_def split: option.splits)
qed

lemma HandleRequest_Inr:
  assumes "HandleRequest env self s = Inr (response, self', s')"
  obtains e result s1 s2 where "run_request env self s = Inr (e, result, self', s1)"
    and "response = write_json env (response_json e result (clock env 1 - clock env 0))"
    and "current_env env \<noteq> None"
    and "(if current_env env = Some ''LOCAL'' then Inr s1
          else SendDataFlow env self' (clock env 0) (clock env 1) e response s1) = Inr s2"
    and "s' = MallocTrim s2"
proof -
  obtain e result self1 s1 where r: "run_request env self s = Inr (e, result, self1, s1)"
    using assms unfolding HandleRequest_def Let_def rbind_Inr by fastforce
  let ?resp = "write_json env (response_json e result (clock env 1 - clock env 0))"
  obtain ce where ce: "current_env env = Some ce"
    using assms r by (cases "current_env env") (auto simp: HandleRequest_def Let_def)
  obtain s2 where
    s2: "(if ce \<noteq> ''LOCAL'' then SendDataFlow env self1 (clock env 0) (clock env 1) e ?resp s1 else Inr s1) = Inr s2"
    and fin: "response = ?resp" "self' = self1" "s' = MallocTrim s2"
    using assms r ce unfolding HandleRequest_def Let_def by (auto simp: rbind_Inr)
  show thesis
    by (rule that [of e result s1 s2]) (use r ce s2 fin in \<open>auto split: if_splits\<close>)
qed


end
