(* ===== verification/Image_Service_Total.thy ===== *)
theory Image_Service_Total
  imports Image_Service_Props
begin

text \<open>
  When a request is answered at all: the conditions under which no step of the request path ends in a
  fault, the one input that does end in one outside LOCAL, the memory trim over many requests, and the
  rectangle parameters.
\<close>

section \<open>Requests that are always answered\<close>

lemma ParseRequestBody_cases:
  obtains e self' where "ParseRequestBody env self = (e, self')"
  by (cases "ParseRequestBody env self")

lemma HandleImage_total:
  assumes "\<exists>t. conf_int env APOLLO_DATAFLOW_URL_TRANS_TIMEOUT 1 = Inr t"
    and "\<exists>r. conf_int env APOLLO_DATAFLOW_URL_TRANS_RETRY 1 = Inr r"
  shows "\<exists>e self' s'. HandleImage env self s = Inr (e, self', s')"
proof -
  have t: "\<exists>self' s'. TransSingleURL env self s = Inr (self', s')" for self s
    using assms by (auto simp: TransSingleURL_def Let_def case_prod_unfold)
  obtain e1 self1 where p: "ParseRequestBody env self = (e1, self1)" by (rule ParseRequestBody_cases)
  show ?thesis
  proof (cases "TALError_neq e1 TALError_default")
    case True
    then show ?thesis using p by (simp add: HandleImage_steps)
  next
    case False
    then have "isObject (request_body_json self1)"
      using ParseRequestBody_result [OF p] service_error_neq [of e1] by auto
    then obtain e2 self2 where "VerifyImageParam self1 = Inr (e2, self2)"
      using VerifyImageParam_result by blast
    then show ?thesis using p False t [of self2 s] by (auto simp: HandleImage_steps)
  qed
qed

lemma run_request_total:
  assumes "\<exists>e self' s'. HandleImage env self s = Inr (e, self', s')"
    and "\<forall>img levels. predict env [img] = PredictReturn 0 levels \<longrightarrow> levels \<noteq> []"
  shows "\<exists>e result self' s'. run_request env self s = Inr (e, result, self', s')"
  using assms
  by (auto simp: run_request_def handler_def alg_process_def split: predict_result.splits)

lemma run_request_json_wf:
  "run_request env self s = Inr (e, result, self', s') \<Longrightarrow> json_wf (response_json e result c)"
  using run_request_result [of env self s e result self' s']
  by (auto intro!: response_json_members(4) simp: map_simps)

lemma HandleRequest_answers:
  assumes "p_producer (flow s) \<noteq> None" and "current_env env \<noteq> None"
    and "\<exists>t. conf_int env APOLLO_DATAFLOW_URL_TRANS_TIMEOUT 1 = Inr t"
    and "\<exists>r. conf_int env APOLLO_DATAFLOW_URL_TRANS_RETRY 1 = Inr r"
    and "\<forall>img levels. predict env [img] = PredictReturn 0 levels \<longrightarrow> levels \<noteq> []"
    and "\<forall>j. json_wf j \<longrightarrow> (\<exists>r. parse_json env (c_str (write_json env j)) = Parsed r \<and> json_wf r)"
    and "parse_json env (c_str (body (request self))) \<noteq> ParseThrows"
  shows "\<exists>response self' s'. HandleRequest env self s = Inr (response, self', s')"
proof -
  obtain e result self1 s1 where r: "run_request env self s = Inr (e, result, self1, s1)"
    using run_request_total [OF HandleImage_total [OF assms(3,4)] assms(5)] by blast
  let ?resp = "write_json env (response_json e result (clock env 1 - clock env 0))"
  obtain j where j: "parse_json env (c_str ?resp) = Parsed j" "json_wf j"
    using assms(6) run_request_json_wf [OF r] by blast
  have "request self1 = request self" "flow s1 = flow s"
    using run_request_result [OF r] by (simp_all add: same_frame_def same_static_def)
  then obtain m where "SendDataFlow env self1 (clock env 0) (clock env 1) e ?resp s1
      = Inr (s1\<lparr>flow := flow_sent env (write_json env m) (flow s1)\<rparr>)"
    using SendDataFlow_ok [of s1 env ?resp j self1 "clock env 0" "clock env 1" e] j assms(1,7) by auto
  then show ?thesis
    using r assms(2) by (auto simp: HandleRequest_def Let_def)
qed


lemma HandleRequest_rethrows:
  assumes "p_producer (flow s) \<noteq> None" and "current_env env = Some ce"
    and "parse_json env (body req) = ParseThrows" "parse_json env (c_str (body req)) = ParseThrows"
    and "\<forall>j. json_wf j \<longrightarrow> (\<exists>r. parse_json env (c_str (write_json env j)) = Parsed r \<and> json_wf r)"
  shows "if ce = ''LOCAL''
    then (\<exists>self'. HandleRequest env (ImageInterface_new u req) s = Inr (write_json env
           (response_json (E_UNKNOWN_REQ SERVICE_ERROR) nullValue (clock env 1 - clock env 0)), self', MallocTrim s))
    else HandleRequest env (ImageInterface_new u req) s = Inl ParseException"
proof -
  let ?self = "ImageInterface_new u req"
  have r: "run_request env ?self s = Inr (E_UNKNOWN_REQ SERVICE_ERROR, nullValue, ?self, s)"
    using assms(3) by (simp add: run_request_def HandleImage_steps ParseRequestBody_def)
  have "SendDataFlow env ?self t0 t1 e (write_json env (response_json e nullValue c)) s = Inl ParseException"
    for t0 t1 e c
  proof -
    obtain r where "parse_json env (c_str (write_json env (response_json e nullValue c))) = Parsed r" "json_wf r"
      using assms(5) response_json_members(4) [of nullValue e c] by auto
    then show ?thesis by (rule SendDataFlow_throws) (simp add: assms(4))
  qed
  then show ?thesis using r assms(2) by (auto simp: HandleRequest_def Let_def)
qed


section \<open>A concrete environment\<close>

text \<open>
  A service with a BMP image: the bodies \<^verbatim>\<open>inline\<close> and \<^verbatim>\<open>url\<close> name it in the two ways, the body
  \<^verbatim>\<open>deep\<close> exceeds the nesting limit, everything else is read as an empty object.
\<close>

definition sample_parse :: "string \<Rightarrow> parse_result" where
  "sample_parse s =
     (if s = ''inline'' then Parsed (objectValue [(''image_base64'', stringValue (base64_encode [0x42, 0x4D, 7, 7]))])
      else if s = ''url'' then Parsed (objectValue [(''image_url'', stringValue ''http://a'')])
      else if s = ''deep'' then ParseThrows
      else Parsed (objectValue []))"

definition sample_env :: "string \<Rightarrow> service_env" where
  "sample_env ce = net_env.extend (sample_net\<lparr>get_url := get_url flaky_net\<rparr>) (service_env.fields
     sample_parse
     (\<lambda>bs. \<lparr>dims = 2, rows = 64, cols = 64, pixels = bs\<rparr>)
     (\<lambda>imgs. PredictReturn 0 [2])
     (\<lambda>i. int i * 5)
     (Some ce)
     (\<lambda>k. None)
     False)"

definition sample_request :: "string \<Rightarrow> http_request" where
  "sample_request b = \<lparr>body = b, raw_url = ''/'', url_params = (\<lambda>k. None), header_value = (\<lambda>h. [])\<rparr>"

definition sample_static :: service_static where
  "sample_static = \<lparr>app_name = ''app'', trim_count = 0, trims = 0, alarms = [],
     flow = Init ''host'' ''topic'' dataflow_initial\<rparr>"

lemma sample_fields [simp]:
  "parse_json (sample_env ce) = sample_parse" "write_json (sample_env ce) = (\<lambda>j. ''{}'')"
  "imdecode (sample_env ce) = (\<lambda>bs. \<lparr>dims = 2, rows = 64, cols = 64, pixels = bs\<rparr>)"
  "predict (sample_env ce) = (\<lambda>imgs. PredictReturn 0 [2])" "clock (sample_env ce) = (\<lambda>i. int i * 5)"
  "current_env (sample_env ce) = Some ce" "params (sample_env ce) = (\<lambda>k. None)"
  "produce_throws (sample_env ce) = False"
  by (simp_all add: sample_env_def sample_net_def flaky_net_def net_env.extend_def service_env.fields_def
      net_of_def net_env.truncate_def)

lemma sample_net_of: "net_of (sample_env ce) = sample_net\<lparr>get_url := get_url flaky_net\<rparr>"
  by (simp add: sample_env_def sample_net_def net_env.extend_def service_env.fields_def
      net_of_def net_env.truncate_def)

lemma sample_request_fields [simp]:
  "body (sample_request b) = b" "url_params (sample_request b) = (\<lambda>k. None)"
  by (simp_all add: sample_request_def)

lemma sample_flow [simp]:
  "p_producer (flow sample_static) \<noteq> None" "produced (flow sample_static) = []"
  by (simp_all add: sample_static_def Init_def dataflow_initial_def Let_def)

lemma sample_conf [simp]: "conf_int (sample_env ce) k d = Inr d"
  by (simp add: conf_int_def GetValue_int_def)

lemma sample_reads_back: "\<exists>r. sample_parse (c_str ''{}'') = Parsed r \<and> json_wf r"
  by (simp add: sample_parse_def c_str_def)



theorem HandleImage_inline_witness:
  "\<exists>self'. HandleImage (sample_env ''PROD'') (ImageInterface_new ''/x'' (sample_request ''inline'')) sample_static
     = Inr (E_OK SERVICE_ERROR, self', sample_static)"
proof -
  have ne: "base64_encode [0x42, 0x4D, 7, 7] \<noteq> []"
    using length_b64_spec [of "[0x42, 0x4D, 7, 7]"] by (auto simp: base64_encode_spec)
  have v: "image_verdict (sample_env ''PROD'') (string_of [0x42, 0x4D, 7, 7]) = E_OK SERVICE_ERROR"
    by (simp add: image_verdict_def wrap32_def CheckImageFormat_def Let_def)
  show ?thesis
    using HandleImage_inline [of "sample_env ''PROD''" "sample_request ''inline''"
        "objectValue [(''image_base64'', stringValue (base64_encode [0x42, 0x4D, 7, 7]))]"
        "base64_encode [0x42, 0x4D, 7, 7]" "''/x''" sample_static] ne v
    by (auto simp: sample_parse_def Base64Decode_encode)
qed

lemma sample_run:
  "\<exists>self' s'. HandleRequest (sample_env ce) (ImageInterface_new ''/x'' (sample_request ''inline'')) sample_static
     = Inr (''{}'', self', s')"
proof -
  have "\<exists>response self' s'. HandleRequest (sample_env ce) (ImageInterface_new ''/x'' (sample_request ''inline''))
      sample_static = Inr (response, self', s')"
    by (rule HandleRequest_answers) (simp_all add: sample_reads_back, simp add: sample_parse_def c_str_def)
  moreover have "response = ''{}''" if "HandleRequest (sample_env ce) self s = Inr (response, self', s')"
    for self s response self' s'
    using that by (rule HandleRequest_Inr) simp
  ultimately show ?thesis by metis
qed

theorem HandleRequest_response_witness:
  "\<exists>self' s' r d.
     HandleRequest (sample_env ''PROD'') (ImageInterface_new ''/x'' (sample_request ''inline'')) sample_static
       = Inr (''{}'', self', s')
     \<and> member ''data'' r = Some d
     \<and> (member ''code'' r = Some (intValue 20000) \<and> member ''result'' d = Some (objectValue [(''nudity'', intValue 1)])
        \<or> member ''result'' d = None)"
proof -
  obtain self' s' where h: "HandleRequest (sample_env ''PROD'') (ImageInterface_new ''/x'' (sample_request ''inline''))
      sample_static = Inr (''{}'', self', s')"
    using sample_run by blast
  from HandleRequest_response [OF h] obtain e :: TALError and r d where m: "member ''data'' r = Some d"
    "member ''code'' r = Some (intValue (code e))"
    and d: "code e = 20000 \<and> (\<exists>levels. predict (sample_env ''PROD'') [cv_image self'] = PredictReturn 0 levels
        \<and> member ''result'' d = Some (objectValue [(''nudity'', intValue (if levels ! 0 = 1 then 0 else 1))]))
      \<or> member ''result'' d = None"
    by blast
  from d have "code e = 20000 \<and> member ''result'' d = Some (objectValue [(''nudity'', intValue 1)])
      \<or> member ''result'' d = None"
    by simp
  then show ?thesis using h m by metis
qed


text \<open>
  The translation answers, the first download attempt gets an error page and the second the image:
  the bytes of the page come first, and the image is refused.
\<close>

lemma sample_download:
  "find (attempt_good (net_of (sample_env ce)) u 3) [0 ..< 3] = Some (Suc 0)"
  "concat (map (attempt_body (net_of (sample_env ce)) u 3) [0 ..< Suc (Suc 0)]) = ''oops, 502BM..''"
  by (simp_all add: sample_net_of attempt_good_def attempt_body_def flaky_net_def upt_rec)

lemma sample_inner: "inner_url_at (net_of (sample_env ce)) rid h t u k v \<Longrightarrow> v \<noteq> []"
  by (auto simp: sample_net_of inner_url_at_def inner_reply_def sample_net_def GetString_def List.map_filter_simps)

theorem HandleImage_url_witness:
  "\<exists>self' s'.
     HandleImage (sample_env ''PROD'') (ImageInterface_new ''/x'' (sample_request ''url'')) sample_static
       = Inr (E_IMAGE_FORMAT SERVICE_ERROR, self', s')"
proof -
  have h: "parse_json (sample_env ''PROD'') (body (sample_request ''url''))
      = Parsed (objectValue [(''image_url'', stringValue ''http://a'')])"
    "isObject (objectValue [(''image_url'', stringValue ''http://a'')])"
    "named_image (objectValue [(''image_url'', stringValue ''http://a'')]) = ([], ''http://a'')"
    "''http://a'' \<noteq> []"
    by (simp_all add: sample_parse_def named_image_def named_url_def)
  note v = HandleImage_url [OF h sample_conf sample_conf, of "''/x''" sample_static]
  have f: "image_verdict (sample_env ''PROD'') ''oops, 502BM..'' = E_IMAGE_FORMAT SERVICE_ERROR"
    by (simp add: image_verdict_def wrap32_def CheckImageFormat_def bytes_of_def ord_def Let_def)
  show ?thesis
    using v by (elim exE conjE disjE) (auto simp: sample_download f simp del: upt_Suc dest!: sample_inner)
qed

section \<open>The memory trim\<close>

text \<open>
  Starting from a fresh process, after any number \<open>n\<close> of finished requests the allocator has been
  trimmed \<open>n div 1000\<close> times and the counter is \<open>n mod 1000\<close>, so it never overflows.
\<close>

theorem MallocTrim_counts:
  assumes "trim_count s = 0" and "trims s = 0"
  shows "trims ((MallocTrim ^^ n) s) = n div 1000 \<and> trim_count ((MallocTrim ^^ n) s) = int (n mod 1000)"
proof (induction n)
  case 0
  then show ?case using assms by simp
next
  case (Suc n)
  have lt: "n mod 1000 < 1000" by simp
  show ?case
  proof (cases "Suc (n mod 1000) = 1000")
    case True
    then have "n mod 1000 = 999" by simp
    then show ?thesis using Suc True by (simp add: MallocTrim_def Let_def mod_Suc div_Suc)
  next
    case False
    then have "(int (n mod 1000) + 1) mod 1000 = int (n mod 1000) + 1" "int (n mod 1000) + 1 \<noteq> 0"
      using lt by (simp_all add: mod_pos_pos_trivial)
    then show ?thesis using Suc False by (simp add: MallocTrim_def Let_def mod_Suc div_Suc)
  qed
qed

theorem MallocTrim_counts_witness:
  "trims ((MallocTrim ^^ 2500) sample_static) = 2 \<and> trim_count ((MallocTrim ^^ 2500) sample_static) = 500"
  using MallocTrim_counts [of sample_static 2500] by (simp add: sample_static_def)

section \<open>Rectangles\<close>

text \<open>A rectangle value: an object with four integer members in the range of \<^verbatim>\<open>int\<close>.\<close>

definition int_member :: "string \<Rightarrow> json \<Rightarrow> int option" where
  "int_member k j = (case member k j of Some v \<Rightarrow> if isInt v then Some (asInt v) else None | None \<Rightarrow> None)"

definition rect_of :: "json \<Rightarrow> Rect option" where
  "rect_of j = (case (int_member ''x'' j, int_member ''y'' j, int_member ''width'' j, int_member ''height'' j) of
     (Some x, Some y, Some w, Some h) \<Rightarrow> Some (x, y, w, h) | _ \<Rightarrow> None)"

definition is_rect :: "json \<Rightarrow> bool" where
  "is_rect j \<longleftrightarrow> rect_of j \<noteq> None"

lemma ParseRectangleData_rect:
  "isObject j \<Longrightarrow> case rect_of j of
     Some r \<Rightarrow> ParseRectangleData d j = (TALError_default, r)
   | None \<Rightarrow> fst (ParseRectangleData d j) \<in> snd ` set service_failures"
  by (simp add: ParseRectangleData_def rect_of_def int_member_def failures_mem split: option.split)

lemma rect_of_object: "rect_of j = Some r \<Longrightarrow> isObject j"
  by (cases j) (auto simp: rect_of_def int_member_def)

lemma rectangle_loop_result:
  "snd (rectangle_loop rs rects) = rects @ map (the \<circ> rect_of) (takeWhile is_rect rs)
   \<and> (if (\<forall>r \<in> set rs. is_rect r) then fst (rectangle_loop rs rects) = TALError_default
      else fst (rectangle_loop rs rects) \<in> snd ` set service_failures)"
proof (induction rs arbitrary: rects)
  case (Cons r rs)
  show ?case
  proof (cases "rect_of r")
    case None
    then show ?thesis
      using ParseRectangleData_rect [of r "(0, 0, 0, 0)"] failure_neq
      by (cases "isObject r") (auto simp: is_rect_def failures_mem Let_def case_prod_unfold)
  next
    case (Some q)
    then have "rectangle_loop (r # rs) rects = rectangle_loop rs (rects @ [q])"
      using ParseRectangleData_rect [of r "(0, 0, 0, 0)"] rect_of_object [of r q] by simp
    moreover have "is_rect r" "the (rect_of r) = q" using Some by (simp_all add: is_rect_def)
    ultimately show ?thesis
      using Cons.IH [of "rects @ [q]"] by (simp del: rectangle_loop.simps)
  qed
qed simp

text \<open>
  \<^verbatim>\<open>VerifyFaceRectangles\<close> on an array succeeds exactly when every element is an object with four
  members in the range of \<^verbatim>\<open>int\<close> and the array is not empty unless the parameter is optional; the
  rectangles kept are those of the elements before the first bad one, in order, also on failure.
\<close>

theorem VerifyFaceRectangles_correct:
  assumes "member ''face_rectangles'' (request_body_json self) = Some (arrayValue rs)" and "cv_rects self = []"
    and "VerifyFaceRectangles optional self = (e, self')"
  shows "cv_rects self' = map (the \<circ> rect_of) (takeWhile is_rect rs)
    \<and> (e = E_OK SERVICE_ERROR \<longleftrightarrow> (\<forall>r \<in> set rs. is_rect r) \<and> (optional \<or> rs \<noteq> []))
    \<and> (e \<noteq> E_OK SERVICE_ERROR \<longrightarrow> e \<in> snd ` set service_failures)"
proof -
  note l = rectangle_loop_result [of rs "[]"]
  let ?c = "map (the \<circ> rect_of) (takeWhile is_rect rs)"
  show ?thesis
  proof (cases "\<forall>r \<in> set rs. is_rect r")
    case True
    then have tw: "takeWhile is_rect rs = rs" by simp
    then have r: "rectangle_loop rs [] = (TALError_default, map (the \<circ> rect_of) rs)"
      using l True by (metis append_Nil prod.collapse)
    have "E_FACE_RECTS_NULL SERVICE_ERROR \<noteq> TALError_default"
      by (rule TALError_differ) (simp add: error_table)
    then show ?thesis
      unfolding tw using assms r True by (auto simp: VerifyFaceRectangles_def Let_def failures_mem split: if_splits)
  next
    case False
    obtain e1 where r: "rectangle_loop rs [] = (e1, ?c)" "e1 \<in> snd ` set service_failures"
      using l False by (metis append_Nil prod.collapse)
    then have "e = e1" "cv_rects self' = ?c"
      using assms failure_neq [OF r(2)] by (auto simp: VerifyFaceRectangles_def Let_def)
    then show ?thesis
      using False r(2) failure_neq [OF r(2)] by auto
  qed
qed

definition sample_rect :: "int \<Rightarrow> json" where
  "sample_rect x = objectValue [(''height'', intValue 4), (''width'', intValue 3), (''x'', intValue x), (''y'', uintValue 2)]"

theorem VerifyFaceRectangles_correct_witness:
  "\<exists>e self'. VerifyFaceRectangles False ((ImageInterface_new [] (sample_request []))\<lparr>request_body_json :=
       objectValue [(''face_rectangles'', arrayValue [sample_rect 7, sample_rect (2 ^ 31)])]\<rparr>) = (e, self')
     \<and> cv_rects self' = [(7, 2, 3, 4)] \<and> e \<noteq> E_OK SERVICE_ERROR"
proof -
  let ?self = "(ImageInterface_new [] (sample_request []))\<lparr>request_body_json :=
       objectValue [(''face_rectangles'', arrayValue [sample_rect 7, sample_rect (2 ^ 31)])]\<rparr>"
  obtain e self' where v: "VerifyFaceRectangles False ?self = (e, self')"
    by (cases "VerifyFaceRectangles False ?self")
  have "the (rect_of (sample_rect 7)) = (7, 2, 3, 4)" "is_rect (sample_rect 7)" "\<not> is_rect (sample_rect (2 ^ 31))"
    by (simp_all add: is_rect_def rect_of_def int_member_def sample_rect_def in_int_def)
  then show ?thesis
    using VerifyFaceRectangles_correct [of ?self "[sample_rect 7, sample_rect (2 ^ 31)]" False e self'] v
    by (simp add: ImageInterface_new_def)
qed

end
