(* ===== verification/Step_System.thy ===== *)
theory Step_System
  imports Prelude "HOL-Library.Multiset"
begin

text \<open>
  The contract shared by the components that run as sequences of steps: a step relation together with
  an invariant every step keeps. The clients are the thread pool and the two connection pools.
\<close>

locale invariant_system =
  fixes step :: "'s \<Rightarrow> 's \<Rightarrow> bool"
    and inv :: "'s \<Rightarrow> bool"
  assumes inv_step: "inv s \<Longrightarrow> step s t \<Longrightarrow> inv t"
begin

lemma inv_steps: "step\<^sup>*\<^sup>* s t \<Longrightarrow> inv s \<Longrightarrow> inv t"
  by (induction rule: rtranclp_induct) (auto intro: inv_step)

end

text \<open>A system whose steps, in addition, do not undo a condition once it holds.\<close>

locale stable_system =
  fixes step :: "'s \<Rightarrow> 's \<Rightarrow> bool"
    and stuck :: "'s \<Rightarrow> bool"
    and finished :: "'s \<Rightarrow> bool"
  assumes stuck_step: "stuck s \<Longrightarrow> step s t \<Longrightarrow> stuck t"
    and stuck_unfinished: "stuck s \<Longrightarrow> \<not> finished s"

sublocale stable_system \<subseteq> stuck: invariant_system step stuck
  by unfold_locales (rule stuck_step)

context stable_system
begin

lemma never_finished: "step\<^sup>*\<^sup>* s t \<Longrightarrow> stuck s \<Longrightarrow> \<not> finished t"
  using stuck.inv_steps stuck_unfinished by blast

end

text \<open>
  A pool of connections: what is idle, handed out and lost adds up to the pool's own count, which
  stays within its size.
\<close>

locale bounded_pool = invariant_system step inv
  for step :: "'s \<Rightarrow> 's \<Rightarrow> bool" and inv :: "'s \<Rightarrow> bool" +
  fixes idle used lost count capacity :: "'s \<Rightarrow> nat"
  assumes inv_count: "inv s \<Longrightarrow> idle s + used s + lost s = count s"
    and inv_capacity: "inv s \<Longrightarrow> count s \<le> capacity s"
begin

lemma pool_accounts:
  "step\<^sup>*\<^sup>* s t \<Longrightarrow> inv s \<Longrightarrow> idle t + used t + lost t = count t \<and> idle t + used t \<le> capacity t"
  using inv_steps [of s t] inv_count [of t] inv_capacity [of t] by linarith

end

text \<open>Updating one cell of a list changes the sum of its measures by that cell.\<close>

lemma sum_mset_update:
  fixes f :: "'a \<Rightarrow> 'b multiset"
  assumes "i < length xs"
  shows "sum_list (map f (xs[i := x])) + f (xs ! i) = sum_list (map f xs) + f x"
  using assms
proof (induction xs arbitrary: i)
  case (Cons y ys)
  then show ?case by (cases i) (auto simp: ac_simps)
qed simp

end
