(* ===== verification/Thread_Pool.thy ===== *)
theory Thread_Pool
  imports Step_System
begin

text \<open>
  The task pool of \<^verbatim>\<open>Paas/ThreadPool.h\<close> and \<^verbatim>\<open>Paas/ThreadPool.cpp\<close>. Threads are numbered in the order
  they are created; the place each has reached in \<^verbatim>\<open>threadloop\<close> is its program counter. A section
  that holds a mutex is one step. The priority queue is a list, of which any element with the least
  first component may be on top, as \<^verbatim>\<open>std::priority_queue\<close> leaves the order of equal ones open.
  \<^verbatim>\<open>int\<close> bounds compared with a \<^verbatim>\<open>size_t\<close> are converted modulo \<open>2 ^ 64\<close>.
\<close>

section \<open>State\<close>

datatype 't pc =
    AtLoop                   \<comment> \<open>before the test of the \<^verbatim>\<open>while\<close> of \<^verbatim>\<open>threadloop\<close>\<close>
  | Taking                   \<comment> \<open>in \<^verbatim>\<open>take\<close>, before its test\<close>
  | WaitNotEmpty             \<comment> \<open>in \<^verbatim>\<open>m_notEmpty.wait\<close>\<close>
  | Process "'t option"      \<comment> \<open>\<^verbatim>\<open>take\<close> returned true; \<open>None\<close> is a default-constructed task\<close>
  | AfterTask
  | Erasing                  \<comment> \<open>in \<^verbatim>\<open>eraseCurrentThread\<close>, before \<^verbatim>\<open>m_threadmutex\<close> is locked\<close>
  | Done

record 't ThreadPool =
  m_maxThreadsSize :: int
  m_minThreadsSize :: int
  m_TaskQueueSize :: int
  m_ReservedQSizeForFirstTask :: int
  m_isStarted :: bool
  m_threads :: "nat list"
  m_tasks :: "(int \<times> 't) list"
  pcs :: "'t pc list"
  joining :: "nat list option"      \<comment> \<open>\<^verbatim>\<open>stop\<close> holds \<^verbatim>\<open>m_threadmutex\<close> and still has to join these\<close>
  added :: "'t list"                \<comment> \<open>the tasks handed to \<^verbatim>\<open>addTask\<close>\<close>
  processed :: "'t option list"

definition level2 :: int where "level2 = 2"

definition as_size :: "int \<Rightarrow> int" where
  "as_size i = i mod 2 ^ 64"

definition ThreadPool_new :: "'t ThreadPool" where
  "ThreadPool_new = \<lparr>m_maxThreadsSize = 10, m_minThreadsSize = 3, m_TaskQueueSize = 110,
     m_ReservedQSizeForFirstTask = 10, m_isStarted = False, m_threads = [], m_tasks = [], pcs = [],
     joining = None, added = [], processed = []\<rparr>"

section \<open>Operations\<close>

definition tasksIsFull :: "'t ThreadPool \<Rightarrow> bool" where
  "tasksIsFull s \<longleftrightarrow> m_TaskQueueSize s \<le> 0 \<or> int (length (m_tasks s)) \<ge> as_size (m_TaskQueueSize s)"

definition haveQueueSizeForFirstTasks :: "'t ThreadPool \<Rightarrow> bool" where
  "haveQueueSizeForFirstTasks s \<longleftrightarrow> m_TaskQueueSize s > 0 \<and>
     int (length (m_tasks s)) < as_size (m_TaskQueueSize s - m_ReservedQSizeForFirstTask s)"

text \<open>\<^verbatim>\<open>new std::thread(threadloop)\<close>; \<open>ok\<close> is false when the constructor throws, which is caught.\<close>

definition spawn :: "bool \<Rightarrow> 't ThreadPool \<Rightarrow> 't ThreadPool" where
  "spawn ok s = (if ok then s\<lparr>m_threads := m_threads s @ [length (pcs s)], pcs := pcs s @ [AtLoop]\<rparr> else s)"

definition start :: "(nat \<Rightarrow> bool) \<Rightarrow> 't ThreadPool \<Rightarrow> 't ThreadPool" where
  "start ok s =
     (let s = (if m_minThreadsSize s > m_maxThreadsSize s then s\<lparr>m_minThreadsSize := m_maxThreadsSize s\<rparr> else s);
          s = s\<lparr>m_isStarted := True\<rparr>
      in fold (\<lambda>i. spawn (ok i)) [0 ..< nat (m_minThreadsSize s)] s)"

text \<open>\<^verbatim>\<open>m_notEmpty.notify_one()\<close>: a waiting thread, if there is one, is woken.\<close>

definition notify_one :: "nat option \<Rightarrow> 't ThreadPool \<Rightarrow> 't ThreadPool" where
  "notify_one w s = (case w of Some i \<Rightarrow> s\<lparr>pcs := (pcs s)[i := Taking]\<rparr> | None \<Rightarrow> s)"

definition may_notify :: "nat option \<Rightarrow> 't ThreadPool \<Rightarrow> bool" where
  "may_notify w s = (case w of
     Some i \<Rightarrow> i < length (pcs s) \<and> pcs s ! i = WaitNotEmpty
   | None \<Rightarrow> WaitNotEmpty \<notin> set (pcs s))"

text \<open>
  The two \<^verbatim>\<open>addTask\<close>, from the moment their waits are over: the push, the notification and, when the
  queue is long, a new thread.
\<close>

definition addTask :: "nat option \<Rightarrow> bool \<Rightarrow> 't \<Rightarrow> 't ThreadPool \<Rightarrow> 't ThreadPool" where
  "addTask w ok t s =
     (let s = notify_one w (s\<lparr>m_tasks := m_tasks s @ [(level2, t)], added := added s @ [t]\<rparr>)
      in if length (m_tasks s) \<ge> length (m_threads s) * 2
            \<and> int (length (m_threads s)) < as_size (m_maxThreadsSize s)
         then spawn ok s else s)"

definition addTask_pair :: "nat option \<Rightarrow> bool \<Rightarrow> int \<times> 't \<Rightarrow> 't ThreadPool \<Rightarrow> 't ThreadPool" where
  "addTask_pair w ok p s =
     (let s = notify_one w (s\<lparr>m_tasks := m_tasks s @ [p], added := added s @ [snd p]\<rparr>)
      in if int (length (m_tasks s)) \<ge> m_TaskQueueSize s div 2
            \<and> int (length (m_threads s)) < as_size (m_maxThreadsSize s)
         then spawn ok s else s)"

definition is_top :: "int \<times> 't \<Rightarrow> (int \<times> 't) list \<Rightarrow> bool" where
  "is_top p q \<longleftrightarrow> p \<in> set q \<and> list_all (\<lambda>r. fst p \<le> fst r) q"

text \<open>\<^verbatim>\<open>take\<close> by thread \<open>i\<close>, with the element on top: it waits, takes a task, or returns without one.\<close>

definition take_task :: "nat \<Rightarrow> int \<times> 't \<Rightarrow> 't ThreadPool \<Rightarrow> 't ThreadPool" where
  "take_task i p s =
     (if m_tasks s = [] \<and> m_isStarted s then s\<lparr>pcs := (pcs s)[i := WaitNotEmpty]\<rparr>
      else if m_tasks s \<noteq> [] \<and> m_isStarted s then
        s\<lparr>m_tasks := remove1 p (m_tasks s), pcs := (pcs s)[i := Process (Some (snd p))]\<rparr>
      else s\<lparr>pcs := (pcs s)[i := Process None]\<rparr>)"

text \<open>\<^verbatim>\<open>eraseCurrentThread\<close>: the loop counter is a \<^verbatim>\<open>char\<close>, so only the first 128 entries are looked at.\<close>

definition eraseCurrentThread :: "nat \<Rightarrow> 't ThreadPool \<Rightarrow> 't ThreadPool" where
  "eraseCurrentThread i s =
     (if int (length (m_threads s)) > as_size (m_minThreadsSize s) \<and> m_tasks s = []
         \<and> i \<in> set (take 128 (m_threads s))
      then s\<lparr>m_threads := remove1 i (m_threads s), pcs := (pcs s)[i := Done]\<rparr>
      else s\<lparr>pcs := (pcs s)[i := AtLoop]\<rparr>)"

text \<open>One turn of \<^verbatim>\<open>threadloop\<close> outside \<^verbatim>\<open>take\<close> and \<^verbatim>\<open>eraseCurrentThread\<close>.\<close>

definition loop_turn :: "nat \<Rightarrow> 't ThreadPool \<Rightarrow> 't ThreadPool" where
  "loop_turn i s = (case pcs s ! i of
     AtLoop \<Rightarrow> s\<lparr>pcs := (pcs s)[i := (if m_isStarted s then Taking else Done)]\<rparr>
   | Process t \<Rightarrow> s\<lparr>processed := processed s @ [t], pcs := (pcs s)[i := AfterTask]\<rparr>
   | AfterTask \<Rightarrow> s\<lparr>pcs := (pcs s)[i :=
       (if m_tasks s = [] \<and> int (length (m_threads s)) > as_size (m_minThreadsSize s)
        then Erasing else AtLoop)]\<rparr>
   | _ \<Rightarrow> s)"

definition stop_begin :: "'t ThreadPool \<Rightarrow> 't ThreadPool" where
  "stop_begin s = s\<lparr>m_isStarted := False, joining := Some (m_threads s)\<rparr>"

definition stop_end :: "'t ThreadPool \<Rightarrow> 't ThreadPool" where
  "stop_end s = s\<lparr>m_threads := [], joining := None\<rparr>"

section \<open>Steps\<close>

text \<open>Worker and \<^verbatim>\<open>stop\<close> steps; \<^verbatim>\<open>m_cond.notify_all()\<close> in \<^verbatim>\<open>stop\<close> has no waiters to wake.\<close>

inductive pool_step :: "'t ThreadPool \<Rightarrow> 't ThreadPool \<Rightarrow> bool" where
  Turn: "i < length (pcs s) \<Longrightarrow> pcs s ! i \<in> {AtLoop, AfterTask} \<union> range Process \<Longrightarrow> pool_step s (loop_turn i s)"
| Take: "i < length (pcs s) \<Longrightarrow> pcs s ! i = Taking \<Longrightarrow> m_tasks s = [] \<or> is_top p (m_tasks s) \<Longrightarrow>
    pool_step s (take_task i p s)"
| Erase: "i < length (pcs s) \<Longrightarrow> pcs s ! i = Erasing \<Longrightarrow> joining s = None \<Longrightarrow>
    pool_step s (eraseCurrentThread i s)"
| Stop: "joining s = None \<Longrightarrow> pool_step s (stop_begin s)"
| Join: "joining s = Some (i # is) \<Longrightarrow> i < length (pcs s) \<Longrightarrow> pcs s ! i = Done \<Longrightarrow>
    pool_step s (s\<lparr>joining := Some is\<rparr>)"
| Stopped: "joining s = Some [] \<Longrightarrow> pool_step s (stop_end s)"

text \<open>
  The callers of \<^verbatim>\<open>addTask\<close>, once their waits for \<^verbatim>\<open>m_notFull\<close> are over; while \<^verbatim>\<open>stop\<close> holds
  \<^verbatim>\<open>m_threadmutex\<close> only a call that makes no thread goes through.
\<close>

inductive add_step :: "'t ThreadPool \<Rightarrow> 't ThreadPool \<Rightarrow> bool" where
  Add: "\<not> tasksIsFull s \<Longrightarrow> haveQueueSizeForFirstTasks s \<Longrightarrow> may_notify w s \<Longrightarrow>
    joining s = None \<or> addTask w True t s = addTask w False t s \<Longrightarrow> add_step s (addTask w ok t s)"
| AddPair: "\<not> tasksIsFull s \<Longrightarrow> may_notify w s \<Longrightarrow>
    joining s = None \<or> addTask_pair w True p s = addTask_pair w False p s \<Longrightarrow> add_step s (addTask_pair w ok p s)"

definition any_step :: "'t ThreadPool \<Rightarrow> 't ThreadPool \<Rightarrow> bool" where
  "any_step s t \<longleftrightarrow> pool_step s t \<or> add_step s t"

inductive_cases pool_stepE: "pool_step s t"
inductive_cases add_stepE: "add_step s t"

section \<open>The invariant\<close>

text \<open>The task a thread is working on.\<close>

fun flight :: "'t pc \<Rightarrow> 't multiset" where
  "flight (Process (Some t)) = {#t#}"
| "flight pc = {#}"

definition in_flight :: "'t ThreadPool \<Rightarrow> 't multiset" where
  "in_flight s = sum_list (map flight (pcs s))"

definition finished_tasks :: "'t ThreadPool \<Rightarrow> 't multiset" where
  "finished_tasks s = mset (List.map_filter (\<lambda>t. t) (processed s))"

definition config_ok :: "'t ThreadPool \<Rightarrow> bool" where
  "config_ok s \<longleftrightarrow> 0 \<le> m_minThreadsSize s \<and> m_minThreadsSize s \<le> m_maxThreadsSize s \<and> m_maxThreadsSize s < 2 ^ 31
     \<and> 0 < m_TaskQueueSize s \<and> m_TaskQueueSize s < 2 ^ 31"

definition threads_ok :: "'t ThreadPool \<Rightarrow> bool" where
  "threads_ok s \<longleftrightarrow> distinct (m_threads s) \<and> (\<forall>i \<in> set (m_threads s). i < length (pcs s))
     \<and> int (length (m_threads s)) \<le> m_maxThreadsSize s"

definition queue_ok :: "'t ThreadPool \<Rightarrow> bool" where
  "queue_ok s \<longleftrightarrow> int (length (m_tasks s)) \<le> m_TaskQueueSize s"

definition tasks_ok :: "'t ThreadPool \<Rightarrow> bool" where
  "tasks_ok s \<longleftrightarrow> mset (added s) = mset (map snd (m_tasks s)) + in_flight s + finished_tasks s
     \<and> (m_isStarted s \<longrightarrow> Process None \<notin> set (pcs s) \<and> None \<notin> set (processed s))"

definition pool_inv :: "'t ThreadPool \<Rightarrow> bool" where
  "pool_inv s \<longleftrightarrow> config_ok s \<and> threads_ok s \<and> queue_ok s \<and> tasks_ok s"

lemmas pool_inv_defs = pool_inv_def config_ok_def threads_ok_def queue_ok_def tasks_ok_def

lemma as_size_id: "0 \<le> i \<Longrightarrow> i < 2 ^ 31 \<Longrightarrow> as_size i = i"
  by (simp add: as_size_def)

lemma in_flight_set_pc:
  "i < length (pcs s) \<Longrightarrow> in_flight (s\<lparr>pcs := (pcs s)[i := c]\<rparr>) + flight (pcs s ! i) = in_flight s + flight c"
  by (simp add: in_flight_def sum_mset_update)

lemma in_flight_same:
  "i < length (pcs s) \<Longrightarrow> flight (pcs s ! i) = {#} \<Longrightarrow> flight c = {#} \<Longrightarrow>
   in_flight (s\<lparr>pcs := (pcs s)[i := c]\<rparr>) = in_flight s"
  using in_flight_set_pc [of i s c] by simp

text \<open>Moving a thread that holds no task to a place where it holds none.\<close>

lemma pool_inv_move:
  assumes "pool_inv s" and "i < length (pcs s)" and "flight (pcs s ! i) = {#}"
    and "flight c = {#}" and "c \<noteq> Process None \<or> \<not> m_isStarted s"
  shows "pool_inv (s\<lparr>pcs := (pcs s)[i := c]\<rparr>)"
  using assms(1,5) in_flight_same [OF assms(2-4)] set_update_subset_insert [of "pcs s" i c]
  by (auto simp: pool_inv_defs finished_tasks_def)

lemma flight_simple:
  "c \<in> {AtLoop, Taking, WaitNotEmpty, AfterTask, Erasing, Done} \<Longrightarrow> flight c = {#}"
  by auto

lemma pool_inv_notify: "pool_inv s \<Longrightarrow> may_notify w s \<Longrightarrow> pool_inv (notify_one w s)"
  by (auto simp: may_notify_def notify_one_def intro: pool_inv_move split: option.splits)

lemma pool_inv_spawn:
  assumes "pool_inv s" and "int (length (m_threads s)) < m_maxThreadsSize s"
  shows "pool_inv (spawn ok s)"
  using assms by (auto simp: pool_inv_defs spawn_def in_flight_def finished_tasks_def less_Suc_eq)

lemma pool_inv_push:
  assumes "pool_inv s" and "\<not> tasksIsFull s"
  shows "pool_inv (s\<lparr>m_tasks := m_tasks s @ [p], added := added s @ [snd p]\<rparr>)"
proof -
  have "as_size (m_TaskQueueSize s) = m_TaskQueueSize s"
    using assms(1) by (auto simp: pool_inv_defs intro: as_size_id)
  then show ?thesis
    using assms by (auto simp: pool_inv_defs tasksIsFull_def in_flight_def finished_tasks_def)
qed

lemma pool_inv_add:
  assumes "pool_inv s" and "\<not> tasksIsFull s" and "may_notify w s"
  shows "pool_inv (addTask w ok t s)" and "pool_inv (addTask_pair w ok p s)"
proof -
  have max: "as_size (m_maxThreadsSize s) = m_maxThreadsSize s"
    using assms(1) by (auto simp: pool_inv_defs intro!: as_size_id)
  have n: "pool_inv (notify_one w (s\<lparr>m_tasks := m_tasks s @ [q], added := added s @ [snd q]\<rparr>))" for q
    using pool_inv_push [OF assms(1,2)] assms(3) by (intro pool_inv_notify) (auto simp: may_notify_def split: option.splits)
  have m: "m_maxThreadsSize (notify_one w s') = m_maxThreadsSize s'" for s' :: "'a ThreadPool"
    by (simp add: notify_one_def split: option.split)
  show "pool_inv (addTask w ok t s)"
    using n [of "(level2, t)"] max m by (auto simp: addTask_def Let_def intro!: pool_inv_spawn)
  show "pool_inv (addTask_pair w ok p s)"
    using n [of p] max m by (auto simp: addTask_pair_def Let_def intro!: pool_inv_spawn)
qed

lemma pool_inv_take:
  assumes "pool_inv s" and i: "i < length (pcs s)" "pcs s ! i = Taking"
    and top: "m_tasks s = [] \<or> is_top p (m_tasks s)"
  shows "pool_inv (take_task i p s)"
proof (cases "m_tasks s \<noteq> [] \<and> m_isStarted s")
  case True
  let ?s = "s\<lparr>pcs := (pcs s)[i := Process (Some (snd p))]\<rparr>"
  have p: "p \<in> set (m_tasks s)" using True top by (simp add: is_top_def)
  then have "mset (map snd (m_tasks s)) = {#snd p#} + mset (map snd (remove1 p (m_tasks s)))"
    by (metis add_mset_add_single image_mset_add_mset mset_map mset_remove1 insert_DiffM set_mset_mset union_commute)
  moreover have "in_flight ?s = in_flight s + {#snd p#}"
    using in_flight_set_pc [OF i(1), of "Process (Some (snd p))"] i(2) by simp
  moreover have "Process None \<notin> set ((pcs s)[i := Process (Some (snd p))])"
    using assms(1) True set_update_subset_insert [of "pcs s" i "Process (Some (snd p))"]
    by (auto simp: pool_inv_defs)
  ultimately show ?thesis
    using assms(1) True length_remove1 [of p "m_tasks s"] p
    by (auto simp: take_task_def pool_inv_defs in_flight_def finished_tasks_def ac_simps)
next
  case False
  then have t: "take_task i p s = s\<lparr>pcs := (pcs s)[i := (if m_tasks s = [] \<and> m_isStarted s then WaitNotEmpty
      else Process None)]\<rparr>"
    by (auto simp: take_task_def)
  show ?thesis unfolding t by (rule pool_inv_move [OF assms(1) i(1)]) (use False i(2) in auto)
qed

lemma pool_inv_turn:
  assumes "pool_inv s" and i: "i < length (pcs s)" and "pcs s ! i \<in> {AtLoop, AfterTask} \<union> range Process"
  shows "pool_inv (loop_turn i s)"
proof (cases "pcs s ! i")
  case (Process t)
  let ?s = "s\<lparr>pcs := (pcs s)[i := AfterTask]\<rparr>"
  have m: "pcs s ! i \<in> set (pcs s)" using i by simp
  have "in_flight ?s + flight (Process t) = in_flight s" "AfterTask \<noteq> Process None"
    using in_flight_set_pc [OF i, of AfterTask] Process by simp_all
  then show ?thesis
    using assms(1) Process m set_update_subset_insert [of "pcs s" i AfterTask]
    by (cases t) (auto simp: loop_turn_def pool_inv_defs in_flight_def finished_tasks_def
        List.map_filter_def ac_simps)
qed (use assms in \<open>auto simp: loop_turn_def intro!: pool_inv_move\<close>)

lemma pool_inv_erase:
  assumes "pool_inv s" and i: "i < length (pcs s)" "pcs s ! i = Erasing"
  shows "pool_inv (eraseCurrentThread i s)"
proof -
  have a: "pool_inv (s\<lparr>pcs := (pcs s)[i := c]\<rparr>)" if "c \<in> {AtLoop, Done}" for c
    by (rule pool_inv_move [OF assms(1) i(1)]) (use i(2) that in auto)
  have "pool_inv (s\<lparr>m_threads := remove1 i (m_threads s), pcs := (pcs s)[i := Done]\<rparr>)"
    using a [of Done] length_remove1 [of i "m_threads s"]
    by (auto simp: pool_inv_defs in_flight_def finished_tasks_def dest: in_set_remove1 [THEN iffD1, rotated])
  then show ?thesis using a [of AtLoop] by (simp add: eraseCurrentThread_def)
qed

lemma pool_inv_step: "pool_inv s \<Longrightarrow> any_step s t \<Longrightarrow> pool_inv t"
  unfolding any_step_def
proof (elim disjE)
  assume "pool_inv s" and "pool_step s t"
  from this(2,1) show "pool_inv t"
  proof cases
    case Stop
    then show ?thesis using \<open>pool_inv s\<close> by (auto simp: stop_begin_def pool_inv_defs in_flight_def finished_tasks_def)
  next
    case (Join i "is")
    then show ?thesis using \<open>pool_inv s\<close> by (auto simp: pool_inv_defs in_flight_def finished_tasks_def)
  next
    case Stopped
    then show ?thesis using \<open>pool_inv s\<close> by (auto simp: stop_end_def pool_inv_defs in_flight_def finished_tasks_def)
  qed (auto intro: pool_inv_turn pool_inv_take pool_inv_erase)
next
  assume "pool_inv s" and "add_step s t"
  from this(2,1) show "pool_inv t" by cases (auto intro: pool_inv_add)
qed

interpretation tp: invariant_system any_step pool_inv
  by unfold_locales (rule pool_inv_step)

section \<open>From start to stop\<close>

text \<open>A pool that has not been started, with any sensible configuration.\<close>

definition fresh_pool :: "'t ThreadPool \<Rightarrow> bool" where
  "fresh_pool s \<longleftrightarrow> m_threads s = [] \<and> m_tasks s = [] \<and> pcs s = [] \<and> joining s = None \<and> added s = [] \<and> processed s = []
     \<and> 0 \<le> m_minThreadsSize s \<and> 0 \<le> m_maxThreadsSize s \<and> m_maxThreadsSize s < 2 ^ 31
     \<and> 0 < m_TaskQueueSize s \<and> m_TaskQueueSize s < 2 ^ 31"

lemma fresh_new: "fresh_pool (ThreadPool_new :: 't ThreadPool)"
  by (simp add: fresh_pool_def ThreadPool_new_def)

lemma pool_inv_start:
  assumes "fresh_pool s"
  shows "pool_inv (start ok s)"
proof -
  define s1 where "s1 = (if m_minThreadsSize s > m_maxThreadsSize s then s\<lparr>m_minThreadsSize := m_maxThreadsSize s\<rparr>
    else s)\<lparr>m_isStarted := True\<rparr>"
  have start: "start ok s = fold (\<lambda>i. spawn (ok i)) [0 ..< nat (m_minThreadsSize s1)] s1"
    by (simp add: start_def s1_def Let_def)
  have s1: "pool_inv s1" "m_threads s1 = []" "m_minThreadsSize s1 \<le> m_maxThreadsSize s1"
    using assms by (auto simp: s1_def fresh_pool_def pool_inv_defs in_flight_def finished_tasks_def List.map_filter_def)
  let ?P = "\<lambda>i t. pool_inv t \<and> length (m_threads t) \<le> i \<and> m_maxThreadsSize t = m_maxThreadsSize s1"
  have "?P (nat (m_minThreadsSize s1)) (fold (\<lambda>i. spawn (ok i)) [0 ..< nat (m_minThreadsSize s1)] s1)"
  proof (rule fold_upt_invariant)
    show "?P 0 s1" using s1 by simp
    fix i and t :: "'a ThreadPool"
    assume i: "i < nat (m_minThreadsSize s1)" and t: "?P i t"
    then have "pool_inv (spawn (ok i) t)" using s1(3) by (intro pool_inv_spawn) auto
    then show "?P (Suc i) (spawn (ok i) t)" using t by (auto simp: spawn_def)
  qed simp
  then show ?thesis by (simp add: start)
qed

text \<open>
  C27. In every state a started pool can reach, whatever the order of producers, workers and \<^verbatim>\<open>stop\<close>:
  the queue never exceeds \<^verbatim>\<open>m_TaskQueueSize\<close>, there are never more than \<^verbatim>\<open>m_maxThreadsSize\<close> threads, and
  every task handed to \<^verbatim>\<open>addTask\<close> is exactly once in the queue, in the hands of a worker, or processed.
  An empty task is processed only once \<^verbatim>\<open>stop\<close> has been called.
\<close>

theorem ThreadPool_safe:
  assumes "fresh_pool s" and "any_step\<^sup>*\<^sup>* (start ok s) t"
  shows "int (length (m_tasks t)) \<le> m_TaskQueueSize t \<and> int (length (m_threads t)) \<le> m_maxThreadsSize t
    \<and> mset (added t) = mset (map snd (m_tasks t)) + in_flight t + finished_tasks t
    \<and> (m_isStarted t \<longrightarrow> None \<notin> set (processed t))"
  using tp.inv_steps [OF assms(2) pool_inv_start [OF assms(1)]] by (auto simp: pool_inv_defs)

section \<open>Stopping\<close>

text \<open>\<^verbatim>\<open>stop\<close> has begun and a thread it still has to join is waiting for a task.\<close>

definition stop_stuck :: "nat \<Rightarrow> 't ThreadPool \<Rightarrow> bool" where
  "stop_stuck w s \<longleftrightarrow> w < length (pcs s) \<and> pcs s ! w = WaitNotEmpty \<and>
     (case joining s of Some ts \<Rightarrow> w \<in> set ts | None \<Rightarrow> False)"

lemma stop_stuck_step: "stop_stuck w s \<Longrightarrow> pool_step s t \<Longrightarrow> stop_stuck w t"
proof -
  assume st: "stop_stuck w s" and "pool_step s t"
  from this(2,1) show "stop_stuck w t"
  proof cases
    case (Turn i)
    then have "i \<noteq> w" using st by (auto simp: stop_stuck_def)
    then show ?thesis
      using st Turn by (auto simp: stop_stuck_def loop_turn_def nth_list_update split: pc.splits option.splits)
  next
    case (Take i p)
    then have "i \<noteq> w" using st by (auto simp: stop_stuck_def)
    then show ?thesis
      using st Take by (auto simp: stop_stuck_def take_task_def nth_list_update split: option.splits)
  next
    case (Join i "is")
    then show ?thesis using st by (auto simp: stop_stuck_def)
  qed (auto simp: stop_stuck_def)
qed

interpretation stop: stable_system pool_step "stop_stuck w" "\<lambda>s. joining s = None" for w
  by unfold_locales (auto simp: stop_stuck_step, auto simp: stop_stuck_def split: option.splits)


text \<open>The default pool after \<^verbatim>\<open>start\<close>, and with its first worker idle.\<close>

definition idle_pool :: "nat ThreadPool" where
  "idle_pool = take_task 0 (0, 0) (loop_turn 0 (start (\<lambda>i. True) ThreadPool_new))"

lemma started_default:
  "start (\<lambda>i. True) (ThreadPool_new :: nat ThreadPool) =
     ThreadPool_new\<lparr>m_isStarted := True, m_threads := [0, Suc 0, 2], pcs := [AtLoop, AtLoop, AtLoop]\<rparr>"
  by (simp add: start_def ThreadPool_new_def spawn_def upt_rec numeral_eq_Suc)

lemma loop_turn_default:
  "loop_turn 0 (start (\<lambda>i. True) (ThreadPool_new :: nat ThreadPool)) =
     ThreadPool_new\<lparr>m_isStarted := True, m_threads := [0, Suc 0, 2], pcs := [Taking, AtLoop, AtLoop]\<rparr>"
  unfolding started_default by (simp add: loop_turn_def)

lemma idle_pool_value:
  "idle_pool = ThreadPool_new\<lparr>m_isStarted := True, m_threads := [0, Suc 0, 2], pcs := [WaitNotEmpty, AtLoop, AtLoop]\<rparr>"
  unfolding idle_pool_def loop_turn_default by (simp add: take_task_def ThreadPool_new_def)

lemma idle_pool_steps: "any_step\<^sup>*\<^sup>* (start (\<lambda>i. True) ThreadPool_new) idle_pool"
proof -
  let ?s = "start (\<lambda>i. True) (ThreadPool_new :: nat ThreadPool)"
  have t: "pool_step ?s (loop_turn 0 ?s)"
    by (rule Turn) (simp_all add: started_default)
  have "pool_step (loop_turn 0 ?s) idle_pool"
    unfolding idle_pool_def by (rule Take) (simp_all add: loop_turn_default, simp add: ThreadPool_new_def)
  with t have "any_step ?s (loop_turn 0 ?s)" "any_step (loop_turn 0 ?s) idle_pool"
    by (simp_all add: any_step_def)
  then show ?thesis by (meson r_into_rtranclp rtranclp.rtrancl_into_rtrancl)
qed

theorem ThreadPool_safe_witness:
  "fresh_pool (ThreadPool_new :: nat ThreadPool) \<and> int (length (m_threads idle_pool)) \<le> m_maxThreadsSize idle_pool
   \<and> mset (added idle_pool) = mset (map snd (m_tasks idle_pool)) + in_flight idle_pool + finished_tasks idle_pool"
  using ThreadPool_safe [OF fresh_new idle_pool_steps] fresh_new by blast


end
