(* ===== verification/Redis_Pool.thy ===== *)
theory Redis_Pool
  imports Step_System
begin

text \<open>
  The Redis connection pool of \<^verbatim>\<open>common/redis_conn_pool.h\<close> and \<^verbatim>\<open>common/redis_conn_pool.cpp\<close>. hiredis is
  an input: each call that talks to the server takes what it got. Contexts are numbered; the pool
  record also keeps the contexts that are allocated, the connections handed out and the number of
  connections lost on the way, which the code does not store.
\<close>

section \<open>Replies\<close>

datatype redisReply =
    REDIS_REPLY_STRING string
  | REDIS_REPLY_ARRAY
  | REDIS_REPLY_INTEGER int
  | REDIS_REPLY_NIL
  | REDIS_REPLY_STATUS string
  | REDIS_REPLY_ERROR string
  | REDIS_REPLY_UNDEFINED

text \<open>\<^verbatim>\<open>RedisConnPool::ExecuteCmd\<close>: the return value and the message; \<open>None\<close> is a null reply.\<close>

definition ExecuteCmd :: "string \<Rightarrow> string \<Rightarrow> redisReply option \<Rightarrow> bool \<times> string" where
  "ExecuteCmd errstr cmd reply =
     (let head = ''execute command '' @ [CHR 0x27] @ cmd @ [CHR 0x27] in
      case reply of
        None \<Rightarrow> (False, head @ '' error: '' @ errstr)
      | Some (REDIS_REPLY_ERROR s) \<Rightarrow> (False, head @ '' error'' @ '': '' @ s)
      | Some (REDIS_REPLY_STATUS s) \<Rightarrow>
          if s \<noteq> ''OK'' then (False, head @ '' error: '' @ s) else (True, head @ '' success'')
      | Some _ \<Rightarrow> (True, head @ '' success''))"

definition ReplyToString :: "redisReply option \<Rightarrow> bool \<times> string" where
  "ReplyToString reply = (case reply of
     None \<Rightarrow> (False, ''reply object is null'')
   | Some (REDIS_REPLY_INTEGER i) \<Rightarrow> (True, to_string i)
   | Some (REDIS_REPLY_STRING s) \<Rightarrow> (True, s)
   | Some (REDIS_REPLY_STATUS s) \<Rightarrow> (True, s)
   | Some REDIS_REPLY_NIL \<Rightarrow> (True, [])
   | Some (REDIS_REPLY_ERROR s) \<Rightarrow> (False, s)
   | Some REDIS_REPLY_ARRAY \<Rightarrow> (False, ''not support array result!!!'')
   | Some REDIS_REPLY_UNDEFINED \<Rightarrow> (False, ''undefined reply type''))"

section \<open>State\<close>

record RedisConn =
  raw_ctx :: nat
  conn_version :: nat

record RedisConnPool =
  pool_size :: nat
  curr_size :: nat
  conn_pool :: "RedisConn option list"
  redis_version :: nat
  ip :: string
  port :: int
  password :: string
  dbnum :: nat
  in_use :: "RedisConn list"          \<comment> \<open>connections handed out and not returned\<close>
  lost :: nat                         \<comment> \<open>connections taken out that could not be reopened\<close>
  allocated :: "nat list"             \<comment> \<open>contexts not freed\<close>

text \<open>What one \<^verbatim>\<open>OpenConnection\<close> meets: the context, its error, the replies to AUTH and SELECT.\<close>

record open_env =
  new_ctx :: "nat option"
  ctx_err :: "string option"
  auth_reply :: "redisReply option"
  select_reply :: "redisReply option"

definition OpenConnection :: "open_env \<Rightarrow> RedisConnPool \<Rightarrow> RedisConn option \<times> RedisConnPool" where
  "OpenConnection e p = (case new_ctx e of
     None \<Rightarrow> (None, p)
   | Some ctx \<Rightarrow>
       let p = p\<lparr>allocated := ctx # allocated p\<rparr>;
           ok = (ctx_err e = None
             \<and> (password p \<noteq> [] \<longrightarrow> fst (ExecuteCmd [] (''AUTH '' @ password p) (auth_reply e)))
             \<and> fst (ExecuteCmd [] (''SELECT '' @ to_string (int (dbnum p))) (select_reply e)))
       in if ok then (Some \<lparr>raw_ctx = ctx, conn_version = redis_version p\<rparr>, p)
          else (None, p))"

text \<open>\<^verbatim>\<open>if (!conn) redisFree(conn)\<close> frees nothing: the context of a failed attempt stays allocated.\<close>

definition CloseConnection :: "RedisConn option \<Rightarrow> RedisConnPool \<Rightarrow> RedisConnPool" where
  "CloseConnection conn p = (case conn of
     None \<Rightarrow> p | Some c \<Rightarrow> p\<lparr>allocated := remove1 (raw_ctx c) (allocated p)\<rparr>)"

text \<open>What \<^verbatim>\<open>CheckConnection\<close> meets: the error flag of the context and the reply to PING.\<close>

record check_env =
  has_err :: bool
  ping_reply :: "redisReply option"

definition to_lower :: "char \<Rightarrow> char" where
  "to_lower c = (let n = (of_char c :: nat) in if 65 \<le> n \<and> n \<le> 90 then char_of (n + 32) else c)"

definition strcasecmp_eq :: "string \<Rightarrow> string \<Rightarrow> bool" where
  "strcasecmp_eq a b \<longleftrightarrow> map to_lower a = map to_lower b"

definition CheckConnection :: "check_env \<Rightarrow> RedisConn option \<Rightarrow> RedisConnPool \<Rightarrow> bool \<times> RedisConnPool" where
  "CheckConnection e conn p = (case conn of
     None \<Rightarrow> (False, p)
   | Some c \<Rightarrow>
       if has_err e then (False, p\<lparr>allocated := remove1 (raw_ctx c) (allocated p)\<rparr>)
       else (case ping_reply e of
               Some (REDIS_REPLY_STATUS s) \<Rightarrow> (strcasecmp_eq s ''PONG'', p)
             | _ \<Rightarrow> (False, p)))"

section \<open>Operations\<close>

fun init_loop :: "open_env list \<Rightarrow> RedisConnPool \<Rightarrow> RedisConnPool" where
  "init_loop [] p = p"
| "init_loop (e # es) p =
     (let (conn, p) = OpenConnection e p
      in case conn of
           None \<Rightarrow> init_loop es p
         | Some c \<Rightarrow> init_loop es (p\<lparr>curr_size := curr_size p + 1, conn_pool := conn_pool p @ [Some c]\<rparr>))"

text \<open>The constructor: \<^verbatim>\<open>InitConnectionPool\<close> makes \<^verbatim>\<open>pool_size_\<close> attempts; \<open>es i\<close> is what attempt \<open>i\<close> meets.\<close>

definition RedisConnPool_new :: "(nat \<Rightarrow> open_env) \<Rightarrow> string \<Rightarrow> int \<Rightarrow> string \<Rightarrow> nat \<Rightarrow> nat \<Rightarrow> RedisConnPool" where
  "RedisConnPool_new es ip' port' password' dbnum' n =
     init_loop (map es [0 ..< n])
       \<lparr>pool_size = n, curr_size = 0, conn_pool = [], redis_version = 0, ip = ip', port = port',
        password = password', dbnum = dbnum', in_use = [], lost = 0, allocated = []\<rparr>"

text \<open>\<^verbatim>\<open>InitInstance\<close> returns whether every attempt succeeded.\<close>

definition InitInstance_ok :: "RedisConnPool \<Rightarrow> bool" where
  "InitInstance_ok p \<longleftrightarrow> pool_size p = curr_size p"

text \<open>
  \<^verbatim>\<open>GetRedisConn\<close> once any wait is over: the queue is then non-empty, or the timeout has expired.
  The TODO of the source stands: an empty queue is not refilled.
\<close>

definition GetRedisConn :: "check_env \<Rightarrow> open_env \<Rightarrow> RedisConnPool \<Rightarrow> RedisConn option \<times> RedisConnPool" where
  "GetRedisConn ch oe p =
     (if pool_size p = 0 \<or> curr_size p = 0 then (None, p)
      else case conn_pool p of
        [] \<Rightarrow> (None, p)
      | conn # rest \<Rightarrow>
          let (good, p) = CheckConnection ch conn (p\<lparr>conn_pool := rest\<rparr>)
          in if good then (conn, p\<lparr>in_use := the conn # in_use p\<rparr>)
             else (case OpenConnection oe p of
                 (None, p) \<Rightarrow> (None, p\<lparr>lost := lost p + 1\<rparr>)
               | (Some c, p) \<Rightarrow> (Some c, p\<lparr>in_use := c # in_use p\<rparr>)))"

text \<open>\<^verbatim>\<open>ReleaseRedisConn\<close> pushes whatever it is given, a null pointer too, and always returns true.\<close>

definition ReleaseRedisConn :: "RedisConn option \<Rightarrow> RedisConnPool \<Rightarrow> bool \<times> RedisConnPool" where
  "ReleaseRedisConn conn p =
     (True, p\<lparr>conn_pool := conn_pool p @ [conn],
              in_use := (case conn of Some c \<Rightarrow> remove1 c (in_use p) | None \<Rightarrow> in_use p)\<rparr>)"

fun release_loop :: "RedisConn option list \<Rightarrow> RedisConnPool \<Rightarrow> RedisConnPool" where
  "release_loop [] p = p"
| "release_loop (c # cs) p =
     release_loop cs (CloseConnection c (p\<lparr>conn_pool := cs, curr_size := (curr_size p + 2 ^ 32 - 1) mod 2 ^ 32\<rparr>))"

definition ReleaseConnectionPool :: "RedisConnPool \<Rightarrow> RedisConnPool" where
  "ReleaseConnectionPool p = release_loop (conn_pool p) p"

text \<open>
  \<^verbatim>\<open>WaitforConnection\<close> against the wake-ups it meets: whether the wait timed out, the microseconds it
  took, and whether the queue is empty afterwards. The result also lists the waits requested.
\<close>

fun wait_loop :: "int \<Rightarrow> int \<Rightarrow> (bool \<times> nat \<times> bool) list \<Rightarrow> bool option \<times> int list" where
  "wait_loop wait_time time_span [] = (None, [])"
| "wait_loop wait_time time_span ((timed_out, us, no_conn) # evs) =
     (let wait_time = wait_time - time_span
      in if timed_out then (Some False, [wait_time])
         else if \<not> no_conn then (Some True, [wait_time])
         else let (r, ws) = wait_loop wait_time (int us div 1000) evs in (r, wait_time # ws))"

definition WaitforConnection :: "int \<Rightarrow> (bool \<times> nat \<times> bool) list \<Rightarrow> bool option \<times> int list" where
  "WaitforConnection timeout evs = wait_loop (timeout * 1000) 0 evs"

text \<open>The client: \<^verbatim>\<open>RedisClient::ExecuteCmd\<close> on a null connection or an empty command fails.\<close>

definition Client_ExecuteCmd :: "RedisConn option \<Rightarrow> string \<Rightarrow> (nat \<Rightarrow> string \<Rightarrow> redisReply option) \<Rightarrow> redisReply option" where
  "Client_ExecuteCmd conn cmd server =
     (if cmd = [] then None else case conn of None \<Rightarrow> None | Some c \<Rightarrow> server (raw_ctx c) cmd)"

definition Client_ExecuteCmd_msg :: "RedisConn option \<Rightarrow> string \<Rightarrow> (nat \<Rightarrow> string \<Rightarrow> redisReply option) \<Rightarrow> bool \<times> string option" where
  "Client_ExecuteCmd_msg conn cmd server =
     (case Client_ExecuteCmd conn cmd server of
        None \<Rightarrow> (False, None)
      | Some r \<Rightarrow> let (res, msg) = ReplyToString (Some r) in (res, Some msg))"

text \<open>The same with an argument vector, which hiredis sends as it is.\<close>

definition Client_ExecuteCmdv :: "RedisConn option \<Rightarrow> string list \<Rightarrow> (nat \<Rightarrow> string list \<Rightarrow> redisReply option) \<Rightarrow> redisReply option" where
  "Client_ExecuteCmdv conn argv server =
     (case conn of None \<Rightarrow> None | Some c \<Rightarrow> server (raw_ctx c) argv)"

definition Client_ExecuteCmdv_msg :: "RedisConn option \<Rightarrow> string list \<Rightarrow> (nat \<Rightarrow> string list \<Rightarrow> redisReply option) \<Rightarrow> bool \<times> string option" where
  "Client_ExecuteCmdv_msg conn argv server =
     (case Client_ExecuteCmdv conn argv server of
        None \<Rightarrow> (False, None)
      | Some r \<Rightarrow> let (res, msg) = ReplyToString (Some r) in (res, Some msg))"

definition Client_ReleaseRedisConn :: "RedisConn option \<Rightarrow> RedisConnPool \<Rightarrow> bool \<times> RedisConn option \<times> RedisConnPool" where
  "Client_ReleaseRedisConn conn p = (case conn of
     None \<Rightarrow> (False, None, p)
   | Some c \<Rightarrow> let (res, p) = ReleaseRedisConn (Some c) p in (res, None, p))"

section \<open>Steps and invariant\<close>

text \<open>
  The clients: a connection is taken out, with a freshly allocated context if it has to be reopened,
  or one that is in use is given back.
\<close>

definition fresh_ctx :: "open_env \<Rightarrow> RedisConnPool \<Rightarrow> bool" where
  "fresh_ctx oe p = (case new_ctx oe of None \<Rightarrow> True | Some c \<Rightarrow> c \<notin> set (allocated p))"

inductive redis_step :: "RedisConnPool \<Rightarrow> RedisConnPool \<Rightarrow> bool" where
  Get: "fresh_ctx oe p \<Longrightarrow> redis_step p (snd (GetRedisConn ch oe p))"
| Release: "c \<in> set (in_use p) \<Longrightarrow> redis_step p (snd (ReleaseRedisConn (Some c) p))"

definition held :: "RedisConnPool \<Rightarrow> nat list" where
  "held p = map (raw_ctx \<circ> the) (conn_pool p) @ map raw_ctx (in_use p)"

definition redis_inv :: "RedisConnPool \<Rightarrow> bool" where
  "redis_inv p \<longleftrightarrow> length (conn_pool p) + length (in_use p) + lost p = curr_size p \<and> curr_size p \<le> pool_size p
     \<and> None \<notin> set (conn_pool p) \<and> distinct (held p) \<and> set (held p) \<subseteq> set (allocated p) \<and> distinct (allocated p)"

text \<open>\<^verbatim>\<open>OpenConnection\<close> changes nothing but the allocated contexts.\<close>

lemma OpenConnection_frame:
  assumes "OpenConnection oe p = (conn, q)" and "fresh_ctx oe p" and "distinct (allocated p)"
  shows "\<exists>cs. q = p\<lparr>allocated := cs\<rparr> \<and> distinct cs \<and> set (allocated p) \<subseteq> set cs
    \<and> set cs \<subseteq> set (allocated p) \<union> set_option (new_ctx oe)
    \<and> (\<forall>c. conn = Some c \<longrightarrow> raw_ctx c \<in> set cs \<and> raw_ctx c \<notin> set (allocated p))"
proof (cases "new_ctx oe")
  case None
  then show ?thesis using assms by (auto simp: OpenConnection_def intro!: exI [of _ "allocated p"])
next
  case (Some ctx)
  then show ?thesis
    using assms by (auto simp: OpenConnection_def fresh_ctx_def Let_def split: if_splits)
qed

lemma CheckConnection_frame:
  assumes "CheckConnection ch (Some c) p = (good, q)" and "distinct (allocated p)"
  shows "\<exists>cs. q = p\<lparr>allocated := cs\<rparr> \<and> distinct cs \<and> set (allocated p) - {raw_ctx c} \<subseteq> set cs
    \<and> set cs \<subseteq> set (allocated p) \<and> (good \<longrightarrow> cs = allocated p)"
proof -
  have "q = p\<lparr>allocated := (if has_err ch then remove1 (raw_ctx c) (allocated p) else allocated p)\<rparr>"
    "has_err ch \<Longrightarrow> \<not> good"
    using assms(1) by (auto simp: CheckConnection_def split: if_splits option.splits redisReply.splits)
  then show ?thesis
    using assms(2) by (intro exI [of _ "if has_err ch then remove1 (raw_ctx c) (allocated p) else allocated p"]) auto
qed

lemma redis_inv_Get:
  assumes inv: "redis_inv p" and fresh: "fresh_ctx oe p"
  shows "redis_inv (snd (GetRedisConn ch oe p))"
proof (cases "pool_size p = 0 \<or> curr_size p = 0 \<or> conn_pool p = []")
  case True
  then show ?thesis using inv by (auto simp: GetRedisConn_def)
next
  case False
  then obtain conn rest where cp: "conn_pool p = conn # rest" by (cases "conn_pool p") auto
  obtain c where c: "conn = Some c" using inv cp by (cases conn) (auto simp: redis_inv_def)
  obtain good q where ch: "CheckConnection ch conn (p\<lparr>conn_pool := rest\<rparr>) = (good, q)" by fastforce
  have d: "distinct (allocated p)" using inv by (simp add: redis_inv_def)
  obtain cs where q: "q = p\<lparr>conn_pool := rest, allocated := cs\<rparr>" "distinct cs"
    "set (allocated p) - {raw_ctx c} \<subseteq> set cs" "set cs \<subseteq> set (allocated p)" "good \<longrightarrow> cs = allocated p"
    using CheckConnection_frame [OF ch [unfolded c]] d by auto
  show ?thesis
  proof (cases good)
    case True
    then show ?thesis
      using False inv cp c ch q by (auto simp: GetRedisConn_def redis_inv_def held_def)
  next
    case bad: False
    obtain conn' q' where op: "OpenConnection oe q = (conn', q')" by fastforce
    have fq: "fresh_ctx oe q" using fresh q by (auto simp: fresh_ctx_def split: option.splits)
    obtain cs' where q': "q' = q\<lparr>allocated := cs'\<rparr>" "distinct cs'" "set cs \<subseteq> set cs'"
      "\<forall>c. conn' = Some c \<longrightarrow> raw_ctx c \<in> set cs' \<and> raw_ctx c \<notin> set cs"
      using OpenConnection_frame [OF op fq] q by auto
    have sub: "set (held (p\<lparr>conn_pool := rest\<rparr>)) \<subseteq> set cs"
    proof -
      have "held p = raw_ctx c # held (p\<lparr>conn_pool := rest\<rparr>)" by (simp add: held_def cp c)
      then show ?thesis using inv q(3) by (auto simp: redis_inv_def)
    qed
    show ?thesis
      using False inv cp c ch bad op q(1) q' sub
      by (cases conn') (auto simp: GetRedisConn_def redis_inv_def held_def)
  qed
qed

lemma redis_inv_Release:
  assumes "redis_inv p" and "c \<in> set (in_use p)"
  shows "redis_inv (snd (ReleaseRedisConn (Some c) p))"
proof -
  have len: "length (in_use p) = Suc (length (remove1 c (in_use p)))"
    using assms(2) length_pos_if_in_set [OF assms(2)] by (simp add: length_remove1)
  have "mset (in_use p) = add_mset c (mset (remove1 c (in_use p)))" using assms(2) by simp
  then have "mset (map raw_ctx (in_use p)) = add_mset (raw_ctx c) (mset (map raw_ctx (remove1 c (in_use p))))"
    by (simp only: mset_map image_mset_add_mset)
  then have "mset (held (snd (ReleaseRedisConn (Some c) p))) = mset (held p)"
    by (simp add: held_def ReleaseRedisConn_def)
  then have "distinct (held (snd (ReleaseRedisConn (Some c) p))) = distinct (held p)"
    "set (held (snd (ReleaseRedisConn (Some c) p))) = set (held p)"
    by (auto dest: mset_eq_imp_distinct_iff mset_eq_setD)
  then show ?thesis using assms len by (auto simp: redis_inv_def ReleaseRedisConn_def)
qed

lemma redis_inv_step: "redis_inv p \<Longrightarrow> redis_step p q \<Longrightarrow> redis_inv q"
  by (erule redis_step.cases) (auto intro: redis_inv_Get redis_inv_Release)

interpretation redis: bounded_pool redis_step redis_inv
    "\<lambda>p. length (conn_pool p)" "\<lambda>p. length (in_use p)" lost curr_size pool_size
  by unfold_locales (erule redis_inv_step, assumption, simp_all add: redis_inv_def)

lemma redis_inv_init_loop:
  assumes "redis_inv p" and "curr_size p + length es \<le> pool_size p"
    and "distinct (List.map_filter new_ctx es)" and "set (List.map_filter new_ctx es) \<inter> set (allocated p) = {}"
  shows "redis_inv (init_loop es p)"
  using assms
proof (induction es arbitrary: p)
  case (Cons e es)
  obtain conn q where op: "OpenConnection e p = (conn, q)" by fastforce
  have fresh: "fresh_ctx e p" "distinct (allocated p)"
    using Cons.prems by (auto simp: fresh_ctx_def List.map_filter_simps redis_inv_def split: option.splits)
  obtain cs where q: "q = p\<lparr>allocated := cs\<rparr>" "distinct cs" "set (allocated p) \<subseteq> set cs"
    "\<forall>c. conn = Some c \<longrightarrow> raw_ctx c \<in> set cs \<and> raw_ctx c \<notin> set (allocated p)"
    and cs: "set cs \<subseteq> set (allocated p) \<union> set_option (new_ctx e)"
    using OpenConnection_frame [OF op fresh] by blast
  let ?q = "case conn of None \<Rightarrow> q
    | Some c \<Rightarrow> q\<lparr>curr_size := curr_size q + 1, conn_pool := conn_pool q @ [Some c]\<rparr>"
  have "redis_inv ?q"
    using Cons.prems(1,2) q by (cases conn) (auto simp: redis_inv_def held_def)
  moreover have "curr_size ?q + length es \<le> pool_size ?q"
    using Cons.prems(2) q(1) by (cases conn) auto
  moreover have "distinct (List.map_filter new_ctx es)" "set (List.map_filter new_ctx es) \<inter> set (allocated ?q) = {}"
    using Cons.prems(3,4) cs q(1)
    by (cases conn; auto simp: List.map_filter_simps split: option.splits)+
  ultimately have "redis_inv (init_loop es ?q)" by (rule Cons.IH)
  then show ?case using op by (cases conn) simp_all
qed simp


section \<open>A drained pool\<close>

lemma drained_step: "conn_pool p = [] \<and> in_use p = [] \<Longrightarrow> redis_step p q \<Longrightarrow> conn_pool q = [] \<and> in_use q = []"
  by (erule redis_step.cases) (auto simp: GetRedisConn_def)

interpretation drained: stable_system redis_step "\<lambda>p. conn_pool p = [] \<and> in_use p = []" "\<lambda>p. in_use p \<noteq> []"
  by unfold_locales (erule drained_step, assumption, simp)

text \<open>
  Every connection that cannot be reopened when it is taken out is gone for good while
  \<^verbatim>\<open>curr_size_\<close> still counts it: once none is idle or in use, no later call obtains a connection, even if
  the server is reachable again, and a call without timeout would wait forever.
\<close>

theorem RedisConnPool_drained:
  assumes "conn_pool p = []" and "in_use p = []" and "redis_step\<^sup>*\<^sup>* p q"
  shows "fst (GetRedisConn ch oe q) = None \<and> in_use q = [] \<and> curr_size q = curr_size p"
proof -
  have "conn_pool q = [] \<and> in_use q = []" using drained.stuck.inv_steps [OF assms(3)] assms(1,2) by blast
  moreover have "curr_size q = curr_size p"
    using assms(3,1,2)
  proof (induction rule: rtranclp_induct)
    case (step y z)
    then have "conn_pool y = [] \<and> in_use y = []" using drained.stuck.inv_steps [OF step.hyps(1)] by blast
    with step show ?case by (auto simp: GetRedisConn_def elim!: redis_step.cases)
  qed simp
  ultimately show ?thesis by (simp add: GetRedisConn_def)
qed

text \<open>A server that accepts the first connection and is down afterwards.\<close>

definition up_env :: open_env where
  "up_env = \<lparr>new_ctx = Some 1, ctx_err = None, auth_reply = None, select_reply = Some (REDIS_REPLY_STATUS ''OK'')\<rparr>"

definition down_env :: open_env where
  "down_env = \<lparr>new_ctx = None, ctx_err = None, auth_reply = None, select_reply = None\<rparr>"

definition one_pool :: RedisConnPool where
  "one_pool = RedisConnPool_new (\<lambda>i. up_env) ''127.0.0.1'' 6379 [] 0 1"

definition drained_pool :: RedisConnPool where
  "drained_pool = snd (GetRedisConn \<lparr>has_err = True, ping_reply = None\<rparr> down_env one_pool)"

lemma one_pool_value:
  "conn_pool one_pool = [Some \<lparr>raw_ctx = 1, conn_version = 0\<rparr>]" "in_use one_pool = []" "pool_size one_pool = 1"
  "curr_size one_pool = 1" "password one_pool = []" "allocated one_pool = [1]" "lost one_pool = 0"
  by (simp_all add: one_pool_def RedisConnPool_new_def OpenConnection_def up_env_def ExecuteCmd_def)

lemma drained_pool_value:
  "conn_pool drained_pool = []" "in_use drained_pool = []" "curr_size drained_pool = 1"
  by (simp_all add: drained_pool_def GetRedisConn_def one_pool_value CheckConnection_def OpenConnection_def down_env_def)

lemma drained_pool_reached: "redis_step\<^sup>*\<^sup>* one_pool drained_pool"
  unfolding drained_pool_def by (rule r_into_rtranclp, rule Get) (simp add: fresh_ctx_def down_env_def)


theorem RedisConnPool_drained_witness:
  "fst (GetRedisConn \<lparr>has_err = False, ping_reply = None\<rparr> up_env drained_pool) = None \<and> curr_size drained_pool = 1"
  using RedisConnPool_drained [of drained_pool drained_pool] by (simp add: drained_pool_value)

section \<open>Copied clients\<close>

definition good_ping :: check_env where
  "good_ping = \<lparr>has_err = False, ping_reply = Some (REDIS_REPLY_STATUS ''PONG'')\<rparr>"

text \<open>
  \<^verbatim>\<open>RedisClient\<close> has a defaulted copy constructor and returns its connection in its destructor: when a
  client and its copy are both destroyed, the connection is in the pool twice, and the next two clients
  are given the same connection at the same time.
\<close>

theorem copied_client_shares:
  fixes c :: RedisConn
  assumes "conn_pool p = []" and "0 < curr_size p" and "0 < pool_size p"
  defines "q \<equiv> snd (snd (Client_ReleaseRedisConn (Some c) (snd (snd (Client_ReleaseRedisConn (Some c) p)))))"
  shows "fst (GetRedisConn good_ping oe q) = Some c
    \<and> fst (GetRedisConn good_ping oe' (snd (GetRedisConn good_ping oe q))) = Some c"
  using assms
  by (simp add: Client_ReleaseRedisConn_def ReleaseRedisConn_def GetRedisConn_def CheckConnection_def
      good_ping_def strcasecmp_eq_def q_def)

definition used_pool :: RedisConnPool where
  "used_pool = snd (GetRedisConn good_ping down_env one_pool)"

theorem copied_client_shares_witness:
  "fst (GetRedisConn good_ping down_env
     (snd (snd (Client_ReleaseRedisConn (Some \<lparr>raw_ctx = 1, conn_version = 0\<rparr>)
       (snd (snd (Client_ReleaseRedisConn (Some \<lparr>raw_ctx = 1, conn_version = 0\<rparr>) used_pool)))))))
   = Some \<lparr>raw_ctx = 1, conn_version = 0\<rparr>"
proof -
  have "conn_pool used_pool = []" "0 < curr_size used_pool" "0 < pool_size used_pool"
    by (simp_all add: used_pool_def GetRedisConn_def one_pool_value CheckConnection_def good_ping_def strcasecmp_eq_def)
  from copied_client_shares [OF this, where c = "\<lparr>raw_ctx = 1, conn_version = 0\<rparr>" and oe = down_env] show ?thesis by simp
qed

section \<open>Waiting for a connection\<close>

text \<open>Milliseconds, rounded down, spent in the wake-ups before the \<open>k\<close>-th wait.\<close>

definition spent :: "(bool \<times> nat \<times> bool) list \<Rightarrow> nat \<Rightarrow> int" where
  "spent evs k = sum_list (map (\<lambda>(timed_out, us, no_conn). int us div 1000) (take k evs))"

lemma wait_loop_waits:
  "snd (wait_loop w t evs) ! k = w - t - spent evs k" if "k < length (snd (wait_loop w t evs))"
  using that
proof (induction w t evs arbitrary: k rule: wait_loop.induct)
  case (2 w t timed_out us no_conn evs)
  show ?case
  proof (cases k)
    case 0
    then show ?thesis by (simp add: spent_def Let_def case_prod_unfold)
  next
    case (Suc j)
    with 2(2) have "\<not> timed_out" "no_conn" by (auto simp: Let_def split: if_splits)
    with 2(2) Suc have "j < length (snd (wait_loop (w - t) (int us div 1000) evs))"
      by (simp add: Let_def case_prod_unfold)
    with 2(1) [OF refl] \<open>\<not> timed_out\<close> \<open>no_conn\<close> Suc show ?thesis
      by (simp add: Let_def case_prod_unfold spent_def)
  qed
qed simp

text \<open>
  \<^verbatim>\<open>WaitforConnection\<close> asks each of its waits for the time that remains of the timeout after the
  earlier wake-ups, in milliseconds rounded down; it reports success exactly when a wake-up before the
  first expired wait found a connection.
\<close>

theorem WaitforConnection_budget:
  "(\<forall>k < length (snd (WaitforConnection timeout evs)).
      snd (WaitforConnection timeout evs) ! k = timeout * 1000 - spent evs k)
   \<and> (fst (WaitforConnection timeout evs) = Some True \<longleftrightarrow>
      (\<exists>k < length evs. (\<forall>j < k. \<not> fst (evs ! j) \<and> snd (snd (evs ! j))) \<and> \<not> fst (evs ! k) \<and> \<not> snd (snd (evs ! k))))"
proof -
  have "fst (wait_loop w t evs) = Some True \<longleftrightarrow>
      (\<exists>k < length evs. (\<forall>j < k. \<not> fst (evs ! j) \<and> snd (snd (evs ! j))) \<and> \<not> fst (evs ! k) \<and> \<not> snd (snd (evs ! k)))"
    for w t
  proof (induction w t evs rule: wait_loop.induct)
    case (2 w t timed_out us no_conn evs)
    show ?case
    proof (cases "timed_out \<or> \<not> no_conn")
      case True
      then show ?thesis by (force simp: Let_def less_Suc_eq_0_disj)
    next
      case False
      then have "fst (wait_loop w t ((timed_out, us, no_conn) # evs)) = fst (wait_loop (w - t) (int us div 1000) evs)"
        by (simp add: Let_def case_prod_unfold)
      with False 2 [OF refl] show ?thesis by (simp add: Ex_less_Suc2 All_less_Suc2)
    qed
  qed simp
  then show ?thesis
    using wait_loop_waits [of _ "timeout * 1000" 0 evs] by (simp add: WaitforConnection_def)
qed

theorem WaitforConnection_budget_witness:
  "snd (WaitforConnection 3 [(False, 2500, True), (False, 1999, False)]) ! Suc 0 = 2998"
proof -
  have "Suc 0 < length (snd (WaitforConnection 3 [(False, 2500, True), (False, 1999, False)]))"
    by (simp add: WaitforConnection_def)
  with WaitforConnection_budget [of 3 "[(False, 2500, True), (False, 1999, False)]"]
  have "snd (WaitforConnection 3 [(False, 2500, True), (False, 1999, False)]) ! Suc 0
      = 3 * 1000 - spent [(False, 2500, True), (False, 1999, False)] (Suc 0)"
    by blast
  then show ?thesis by (simp add: spent_def)
qed

end
