(* ===== verification/Red_Lock.thy ===== *)
theory Red_Lock
  imports Redis_Pool "HOL-Library.Signed_Division"
begin

text \<open>
  The lock manager of \<^verbatim>\<open>common/redlock.h\<close> and \<^verbatim>\<open>common/redlock.cpp\<close>. The Redis server, the clock and the
  random source are a record of functions over a state \<open>'w\<close>; what the lock relies on of the server is
  \<open>redis_laws\<close>. A context is a number, a null context is \<open>None\<close>.
\<close>

record 'w redis_api =
  rc_err :: "nat \<Rightarrow> 'w \<Rightarrow> bool"                                     \<comment> \<open>\<^verbatim>\<open>ctx->err\<close>\<close>
  rc_command :: "nat \<Rightarrow> string list \<Rightarrow> 'w \<Rightarrow> redisReply option \<times> 'w"  \<comment> \<open>\<^verbatim>\<open>redisCommandArgv\<close>\<close>
  rc_time :: "'w \<Rightarrow> int"                                           \<comment> \<open>the clock, in milliseconds\<close>
  rc_usleep :: "int \<Rightarrow> 'w \<Rightarrow> 'w"
  rc_rand :: "'w \<Rightarrow> int \<times> 'w"
  rc_read :: "int \<Rightarrow> nat \<Rightarrow> 'w \<Rightarrow> byte list \<times> 'w"                    \<comment> \<open>the bytes \<^verbatim>\<open>read\<close> delivers\<close>

record CLock =
  m_validityTime :: int
  m_resource :: "string option"
  m_val :: "string option"

definition CLock_new :: CLock where
  "CLock_new = \<lparr>m_validityTime = 0, m_resource = None, m_val = None\<rparr>"

record CRedLock =
  m_unlockScript :: string
  m_retryCount :: int
  m_retryDelay :: int
  m_quoRum :: int
  m_fd :: int
  m_redisServer :: "nat list"
  m_continueLock :: CLock
  m_continueLockScript :: string

definition m_defaultRetryCount :: int where "m_defaultRetryCount = 3"

definition m_defaultRetryDelay :: int where "m_defaultRetryDelay = 200"

text \<open>\<^verbatim>\<open>float m_clockDriftFactor = 0.01\<close> is \<open>10737418\<close> units of \<open>2 ^ -30\<close>.\<close>

definition m_clockDriftFactor :: int where "m_clockDriftFactor = 10737418"

definition continue_script :: string where
  "continue_script =
     ''if redis.call('' @ [CHR 0x27] @ ''get'' @ [CHR 0x27] @ '', KEYS[1]) == ARGV[1] then redis.call('' @ [CHR 0x27] @ ''del'' @ [CHR 0x27]
     @ '', KEYS[1]) end return redis.call('' @ [CHR 0x27] @ ''set'' @ [CHR 0x27] @ '', KEYS[1], ARGV[2], '' @ [CHR 0x27] @ ''px'' @ [CHR 0x27]
     @ '', ARGV[3], '' @ [CHR 0x27] @ ''nx'' @ [CHR 0x27] @ '')''"

definition unlock_script :: string where
  "unlock_script =
     ''if redis.call('' @ [CHR 0x27] @ ''get'' @ [CHR 0x27] @ '', KEYS[1]) == ARGV[1] then return redis.call('' @ [CHR 0x27] @ ''del''
     @ [CHR 0x27] @ '', KEYS[1]) else return 0 end''"

text \<open>\<^verbatim>\<open>Initialize\<close>; \<open>fd\<close> is what opening \<^verbatim>\<open>/dev/urandom\<close> returns.\<close>

definition Initialize :: "int \<Rightarrow> CRedLock \<Rightarrow> bool \<times> CRedLock" where
  "Initialize fd r = (fd \<noteq> -1, r\<lparr>m_continueLockScript := continue_script, m_unlockScript := unlock_script,
     m_retryCount := m_defaultRetryCount, m_retryDelay := m_defaultRetryDelay, m_quoRum := 0, m_fd := fd\<rparr>)"

definition CRedLock_new :: "int \<Rightarrow> CRedLock" where
  "CRedLock_new fd = snd (Initialize fd \<lparr>m_unlockScript = [], m_retryCount = 0, m_retryDelay = 0, m_quoRum = 0,
     m_fd = 0, m_redisServer = [], m_continueLock = CLock_new, m_continueLockScript = []\<rparr>)"

text \<open>\<^verbatim>\<open>AddServerUrl\<close>: a context that is not null is kept, even one whose connection failed.\<close>

definition AddServerUrl :: "nat option \<Rightarrow> CRedLock \<Rightarrow> bool \<times> CRedLock" where
  "AddServerUrl c r =
     (let servers = m_redisServer r @ (case c of None \<Rightarrow> [] | Some c \<Rightarrow> [c])
      in (True, r\<lparr>m_redisServer := servers, m_quoRum := int (length servers) div 2 + 1\<rparr>))"

definition SetRetry :: "int \<Rightarrow> int \<Rightarrow> CRedLock \<Rightarrow> CRedLock" where
  "SetRetry n delay r = r\<lparr>m_retryCount := n, m_retryDelay := delay\<rparr>"

section \<open>Lock identifiers\<close>

definition HEX :: "nat \<Rightarrow> char" where
  "HEX d = (if d < 10 then char_of (48 + d) else char_of (55 + d))"

definition print_02X :: "byte \<Rightarrow> string" where
  "print_02X b = [HEX (unat b div 16), HEX (unat b mod 16)]"

definition GetUniqueLockId :: "'w redis_api \<Rightarrow> int \<Rightarrow> 'w \<Rightarrow> string option \<times> 'w" where
  "GetUniqueLockId api fd w =
     (let (buffer, w) = rc_read api fd 20 w
      in (if length buffer = 20 then Some (concat (map print_02X buffer)) else None, w))"

section \<open>One server\<close>

text \<open>\<^verbatim>\<open>reply && reply->str && strcmp(reply->str, "OK") == 0\<close>\<close>

definition reply_OK :: "redisReply option \<Rightarrow> bool" where
  "reply_OK r = (case r of Some (REDIS_REPLY_STRING s) \<Rightarrow> s = ''OK'' | Some (REDIS_REPLY_STATUS s) \<Rightarrow> s = ''OK''
     | Some (REDIS_REPLY_ERROR s) \<Rightarrow> s = ''OK'' | _ \<Rightarrow> False)"

definition set_argv :: "string \<Rightarrow> string \<Rightarrow> int \<Rightarrow> string list" where
  "set_argv resource val ttl = [''set'', resource, val, ''px'', to_string ttl, ''nx'']"

definition LockInstance :: "'w redis_api \<Rightarrow> nat \<Rightarrow> string \<Rightarrow> string \<Rightarrow> int \<Rightarrow> 'w \<Rightarrow> bool \<times> 'w" where
  "LockInstance api c resource val ttl w =
     (let (reply, w) = rc_command api c (set_argv resource val ttl) w in (reply_OK reply, w))"

definition continue_argv :: "string \<Rightarrow> string \<Rightarrow> string \<Rightarrow> string \<Rightarrow> int \<Rightarrow> string list" where
  "continue_argv script resource old val ttl = [''EVAL'', script, ''1'', resource, old, val, to_string ttl]"

definition ContinueLockInstance :: "'w redis_api \<Rightarrow> CRedLock \<Rightarrow> nat \<Rightarrow> string \<Rightarrow> string \<Rightarrow> int \<Rightarrow> 'w \<Rightarrow> bool \<times> 'w" where
  "ContinueLockInstance api r c resource val ttl w =
     (let (reply, w) = rc_command api c
            (continue_argv (m_continueLockScript r) resource (the (m_val (m_continueLock r))) val ttl) w
      in (reply_OK reply, w))"

definition unlock_argv :: "string \<Rightarrow> string \<Rightarrow> string \<Rightarrow> string list" where
  "unlock_argv script resource val = [''EVAL'', script, ''1'', resource, val]"

definition UnlockInstance :: "'w redis_api \<Rightarrow> CRedLock \<Rightarrow> nat \<Rightarrow> string \<Rightarrow> string \<Rightarrow> 'w \<Rightarrow> 'w" where
  "UnlockInstance api r c resource val w = snd (rc_command api c (unlock_argv (m_unlockScript r) resource val) w)"

definition Unlock :: "'w redis_api \<Rightarrow> CRedLock \<Rightarrow> nat option \<Rightarrow> CLock \<Rightarrow> 'w \<Rightarrow> bool \<times> 'w" where
  "Unlock api r ctx lock w = (case ctx of
     None \<Rightarrow> (False, w)
   | Some c \<Rightarrow>
       if rc_err api c w then (False, w)
       else (True, UnlockInstance api r c (the (m_resource lock)) (the (m_val lock)) w))"

section \<open>Locking\<close>

text \<open>\<^verbatim>\<open>(int)time(NULL) * 1000\<close>; the product leaves the range of \<^verbatim>\<open>int\<close> and is taken to wrap.\<close>

definition now_ms :: "'w redis_api \<Rightarrow> 'w \<Rightarrow> int" where
  "now_ms api w = wrap32 (wrap32 (rc_time api w div 1000) * 1000)"

text \<open>
  \<^verbatim>\<open>int drift = (ttl * m_clockDriftFactor) + 2\<close> in single precision: the conversion of \<open>ttl\<close>, the product
  and the sum are each rounded to 24 digits, and the result is cut off towards zero.
\<close>

definition round_float :: "int \<Rightarrow> int" where
  "round_float z = (if z < 0 then - int (rne24 (nat (- z))) else int (rne24 (nat z)))"

definition clock_drift :: "int \<Rightarrow> int" where
  "clock_drift ttl =
     round_float (round_float (round_float ttl * m_clockDriftFactor) + 2 * 2 ^ 30) sdiv (2 ^ 30)"

definition validity :: "int \<Rightarrow> int \<Rightarrow> int \<Rightarrow> int" where
  "validity ttl startTime now = wrap32 (wrap32 (ttl - wrap32 (now - startTime)) - clock_drift ttl)"

text \<open>\<^verbatim>\<open>rand() % m_retryDelay + floor(m_retryDelay / 2)\<close> and the sleep.\<close>

definition retry_wait :: "'w redis_api \<Rightarrow> int \<Rightarrow> 'w \<Rightarrow> 'w" where
  "retry_wait api d w = (let (n, w) = rc_rand api w; delay = n smod d + d sdiv 2 in rc_usleep api (wrap32 (delay * 1000)) w)"

definition lock_attempt ::
  "'w redis_api \<Rightarrow> CRedLock \<Rightarrow> nat \<Rightarrow> string \<Rightarrow> string \<Rightarrow> int \<Rightarrow> CLock \<Rightarrow> 'w \<Rightarrow> bool \<times> CLock \<times> 'w" where
  "lock_attempt api r c resource val ttl lock w =
     (let startTime = now_ms api w;
          (locked, w) = LockInstance api c resource val ttl w;
          validityTime = validity ttl startTime (now_ms api w)
      in if locked \<and> 0 < validityTime then (True, lock\<lparr>m_validityTime := validityTime\<rparr>, w)
         else let w = snd (Unlock api r (Some c) lock w)
              in (False, lock, if 0 < m_retryDelay r then retry_wait api (m_retryDelay r) w else w))"

fun lock_loop ::
  "nat \<Rightarrow> 'w redis_api \<Rightarrow> CRedLock \<Rightarrow> nat \<Rightarrow> string \<Rightarrow> string \<Rightarrow> int \<Rightarrow> CLock \<Rightarrow> 'w \<Rightarrow> bool \<times> CLock \<times> 'w" where
  "lock_loop 0 api r c resource val ttl lock w = (False, lock, w)"
| "lock_loop (Suc n) api r c resource val ttl lock w =
     (let (ok, lock, w) = lock_attempt api r c resource val ttl lock w
      in if ok then (True, lock, w) else lock_loop n api r c resource val ttl lock w)"

text \<open>The \<^verbatim>\<open>do ... while (retryCount > 0)\<close> makes at least one attempt.\<close>

definition CRedLock_Lock ::
  "'w redis_api \<Rightarrow> CRedLock \<Rightarrow> nat option \<Rightarrow> string \<Rightarrow> int \<Rightarrow> CLock \<Rightarrow> 'w \<Rightarrow> bool \<times> CLock \<times> 'w" where
  "CRedLock_Lock api r ctx resource ttl lock w = (case ctx of
     None \<Rightarrow> (False, lock, w)
   | Some c \<Rightarrow>
       if rc_err api c w then (False, lock, w)
       else (case GetUniqueLockId api (m_fd r) w of
           (None, w) \<Rightarrow> (False, lock, w)
         | (Some val, w) \<Rightarrow>
             lock_loop (nat (max 1 (m_retryCount r))) api r c resource val ttl
               (lock\<lparr>m_resource := Some resource, m_val := Some val\<rparr>) w))"

section \<open>Renewing\<close>

fun continue_servers ::
  "'w redis_api \<Rightarrow> CRedLock \<Rightarrow> nat list \<Rightarrow> string \<Rightarrow> string \<Rightarrow> int \<Rightarrow> 'w \<Rightarrow> int \<times> 'w" where
  "continue_servers api r [] resource val ttl w = (0, w)"
| "continue_servers api r (c # cs) resource val ttl w =
     (let (ok, w) = ContinueLockInstance api r c resource val ttl w;
          (n, w) = continue_servers api r cs resource val ttl w
      in ((if ok then 1 else 0) + n, w))"

text \<open>
  \<^verbatim>\<open>ContinueLock\<close>; \<open>None\<close> is the division by zero of \<^verbatim>\<open>rand() % m_retryDelay\<close>. The \<^verbatim>\<open>Unlock(nullptr, lock)\<close> of a
  failed attempt does nothing.
\<close>

fun continue_loop ::
  "nat \<Rightarrow> 'w redis_api \<Rightarrow> CRedLock \<Rightarrow> string \<Rightarrow> string \<Rightarrow> int \<Rightarrow> CLock \<Rightarrow> 'w \<Rightarrow> (bool \<times> CRedLock \<times> CLock \<times> 'w) option" where
  "continue_loop 0 api r resource val ttl lock w = Some (False, r, lock, w)"
| "continue_loop (Suc k) api r resource val ttl lock w =
     (let startTime = now_ms api w;
          (n, w) = continue_servers api r (m_redisServer r) resource val ttl w;
          r = r\<lparr>m_continueLock := (m_continueLock r)\<lparr>m_val := Some val\<rparr>\<rparr>;
          validityTime = validity ttl startTime (now_ms api w)
      in if m_quoRum r \<le> n \<and> 0 < validityTime then Some (True, r, lock\<lparr>m_validityTime := validityTime\<rparr>, w)
         else let w = snd (Unlock api r None lock w)
              in if m_retryDelay r = 0 then None
                 else continue_loop k api r resource val ttl lock (retry_wait api (m_retryDelay r) w))"

definition ContinueLock ::
  "'w redis_api \<Rightarrow> CRedLock \<Rightarrow> string \<Rightarrow> int \<Rightarrow> CLock \<Rightarrow> 'w \<Rightarrow> (bool \<times> CRedLock \<times> CLock \<times> 'w) option" where
  "ContinueLock api r resource ttl lock w = (case GetUniqueLockId api (m_fd r) w of
     (None, w) \<Rightarrow> Some (False, r, lock, w)
   | (Some val, w) \<Rightarrow>
       let lock = lock\<lparr>m_resource := Some resource, m_val := Some val\<rparr>;
           r = (if m_resource (m_continueLock r) = None
                then r\<lparr>m_continueLock := (m_continueLock r)\<lparr>m_resource := Some resource, m_val := Some val\<rparr>\<rparr> else r)
       in continue_loop (nat (max 1 (m_retryCount r))) api r resource val ttl lock w)"

section \<open>Drift and validity\<close>

lemma round_float_bounds:
  assumes "0 \<le> z" and "z \<le> 2 ^ m"
  shows "0 \<le> round_float z \<and> round_float z \<le> 2 ^ m"
proof -
  have "rne24 (nat z) \<le> 2 ^ m" using assms by (intro rne24_le) (simp add: nat_le_iff)
  then have "int (rne24 (nat z)) \<le> int (2 ^ m)" by (simp only: of_nat_le_iff)
  then show ?thesis using assms by (simp add: round_float_def)
qed

lemma round_float_ge:
  assumes "2 ^ m \<le> z"
  shows "2 ^ m \<le> round_float z"
proof -
  have "0 \<le> z" using assms order_trans [of 0 "2 ^ m" z] by simp
  then have "2 ^ m \<le> rne24 (nat z)" using assms by (intro rne24_ge) (simp add: le_nat_iff)
  then have "int (2 ^ m) \<le> int (rne24 (nat z))" by (simp only: of_nat_le_iff)
  then show ?thesis using \<open>0 \<le> z\<close> by (simp add: round_float_def)
qed

lemma clock_drift_bounds:
  assumes "0 \<le> ttl" and "ttl < 2 ^ 31"
  shows "2 \<le> clock_drift ttl \<and> clock_drift ttl \<le> 2 ^ 26"
proof -
  have a: "0 \<le> round_float ttl \<and> round_float ttl \<le> 2 ^ 31" using assms by (intro round_float_bounds) auto
  define p where "p = round_float ttl * m_clockDriftFactor"
  have "0 \<le> p \<and> p \<le> 2 ^ 55" using a by (simp add: p_def m_clockDriftFactor_def)
  then have b: "0 \<le> round_float p \<and> round_float p \<le> 2 ^ 55" by (intro round_float_bounds) auto
  define q where "q = round_float p + 2 * 2 ^ 30"
  have q: "2 ^ 31 \<le> q" "q \<le> 2 ^ 56" using b by (auto simp: q_def)
  have "2 ^ 31 \<le> round_float q" using q(1) by (rule round_float_ge)
  moreover have "round_float q \<le> 2 ^ 56" using round_float_bounds [OF _ q(2)] q(1) by simp
  ultimately have "2 \<le> round_float q div 2 ^ 30" "round_float q div 2 ^ 30 \<le> 2 ^ 26" "0 \<le> round_float q" by auto
  then show ?thesis by (simp add: clock_drift_def p_def q_def signed_divide_int_def)
qed

text \<open>With less than \<open>2 ^ 30\<close> milliseconds between the two clock readings, nothing wraps.\<close>

lemma validity_value:
  assumes "0 < ttl" and "ttl < 2 ^ 31" and "rc_time api w \<le> rc_time api w'" and "rc_time api w' - rc_time api w < 2 ^ 30"
  shows "validity ttl (now_ms api w) (now_ms api w')
    = ttl - 1000 * (rc_time api w' div 1000 - rc_time api w div 1000) - clock_drift ttl"
proof -
  define a where "a = rc_time api w div 1000"
  define b where "b = rc_time api w' div 1000"
  have "0 \<le> b - a" using assms(3) by (simp add: a_def b_def zdiv_mono1)
  have "1000 * (b - a) < 2 ^ 30 + 1000" using assms(4) by (simp add: a_def b_def)
  have now: "wrap32 (wrap32 x * 1000) = wrap32 (x * 1000)" for x
    by (rule wrap32_cong) (metis wrap32_mod mod_mult_left_eq)
  have "wrap32 (now_ms api w' - now_ms api w) = wrap32 (1000 * (b - a))"
    unfolding now_ms_def now wrap32_diff a_def b_def by (simp add: algebra_simps)
  also have "\<dots> = 1000 * (b - a)"
    using \<open>0 \<le> b - a\<close> \<open>1000 * (b - a) < 2 ^ 30 + 1000\<close> by (intro wrap32_id) auto
  finally have d: "wrap32 (now_ms api w' - now_ms api w) = 1000 * (b - a)" .
  have t: "wrap32 (ttl - 1000 * (b - a)) = ttl - 1000 * (b - a)"
    using assms(1,2) \<open>0 \<le> b - a\<close> \<open>1000 * (b - a) < 2 ^ 30 + 1000\<close> by (intro wrap32_id) auto
  show ?thesis
    unfolding validity_def d t
    using clock_drift_bounds [of ttl] assms(1,2) \<open>0 \<le> b - a\<close> \<open>1000 * (b - a) < 2 ^ 30 + 1000\<close>
    by (subst wrap32_id) (auto simp: a_def b_def)
qed

section \<open>What the lock relies on\<close>

text \<open>
  The keys of the server with their values and the time they expire, what \<^verbatim>\<open>SET ... NX PX\<close> does to them at
  time \<open>t\<close>, and what the unlock script does. A command takes effect at a moment between its call and its
  return; a command without a reply may or may not have taken effect.
\<close>

type_synonym keyspace = "string \<Rightarrow> (string \<times> int) option"

definition live :: "keyspace \<Rightarrow> string \<Rightarrow> int \<Rightarrow> bool" where
  "live h k t = (case h k of None \<Rightarrow> False | Some (v, d) \<Rightarrow> t < d)"

definition set_nx :: "keyspace \<Rightarrow> string \<Rightarrow> string \<Rightarrow> int \<Rightarrow> int \<Rightarrow> keyspace option" where
  "set_nx h k v ttl t = (if live h k t then None else Some (h(k \<mapsto> (v, t + ttl))))"

definition del_own :: "keyspace \<Rightarrow> string \<Rightarrow> string \<Rightarrow> int \<Rightarrow> keyspace" where
  "del_own h k v t = (if live h k t \<and> fst (the (h k)) = v then h(k := None) else h)"

definition set_law :: "'w redis_api \<Rightarrow> ('w \<Rightarrow> keyspace) \<Rightarrow> bool" where
  "set_law api keys \<longleftrightarrow> (\<forall>c k v ttl w. \<exists>r w' t. rc_command api c (set_argv k v ttl) w = (r, w')
     \<and> rc_time api w \<le> t \<and> t \<le> rc_time api w'
     \<and> (if reply_OK r then set_nx (keys w) k v ttl t = Some (keys w')
        else keys w' = keys w \<or> r = None \<and> set_nx (keys w) k v ttl t = Some (keys w')))"

definition unlock_law :: "'w redis_api \<Rightarrow> ('w \<Rightarrow> keyspace) \<Rightarrow> bool" where
  "unlock_law api keys \<longleftrightarrow> (\<forall>c k v w. \<exists>r w' t. rc_command api c (unlock_argv unlock_script k v) w = (r, w')
     \<and> rc_time api w \<le> t \<and> t \<le> rc_time api w'
     \<and> (keys w' = del_own (keys w) k v t \<or> (\<forall>i. r \<noteq> Some (REDIS_REPLY_INTEGER i)) \<and> keys w' = keys w))"

definition frame_law :: "'w redis_api \<Rightarrow> ('w \<Rightarrow> keyspace) \<Rightarrow> bool" where
  "frame_law api keys \<longleftrightarrow> (\<forall>w. keys (snd (rc_rand api w)) = keys w \<and> rc_time api w \<le> rc_time api (snd (rc_rand api w)))
     \<and> (\<forall>us w. keys (rc_usleep api us w) = keys w \<and> rc_time api w \<le> rc_time api (rc_usleep api us w))
     \<and> (\<forall>fd n w. keys (snd (rc_read api fd n w)) = keys w \<and> rc_time api w \<le> rc_time api (snd (rc_read api fd n w)))"

definition redis_laws :: "'w redis_api \<Rightarrow> ('w \<Rightarrow> keyspace) \<Rightarrow> bool" where
  "redis_laws api keys \<longleftrightarrow> set_law api keys \<and> unlock_law api keys \<and> frame_law api keys"

lemma set_lawE:
  assumes "redis_laws api keys" and "LockInstance api c k v ttl w = (locked, w')"
  obtains t where "rc_time api w \<le> t" "t \<le> rc_time api w'"
    "locked \<Longrightarrow> set_nx (keys w) k v ttl t = Some (keys w')"
    "\<not> locked \<Longrightarrow> keys w' = keys w \<or> set_nx (keys w) k v ttl t = Some (keys w')"
proof -
  from assms(1) obtain r w2 t where "rc_command api c (set_argv k v ttl) w = (r, w2)" "rc_time api w \<le> t" "t \<le> rc_time api w2"
    "if reply_OK r then set_nx (keys w) k v ttl t = Some (keys w2)
     else keys w2 = keys w \<or> r = None \<and> set_nx (keys w) k v ttl t = Some (keys w2)"
    unfolding redis_laws_def set_law_def by metis
  then show thesis using assms(2) by (intro that [of t]) (auto simp: LockInstance_def)
qed

lemma Unlock_effect:
  assumes "redis_laws api keys" and "m_unlockScript r = unlock_script"
    and "m_resource lock = Some k" and "m_val lock = Some v"
  obtains t where "rc_time api w \<le> t" "t \<le> rc_time api (snd (Unlock api r ctx lock w))"
    "keys (snd (Unlock api r ctx lock w)) \<in> {keys w, del_own (keys w) k v t}"
    "(\<And>c. ctx = Some c \<Longrightarrow> \<not> rc_err api c w \<and> (\<exists>i. fst (rc_command api c (unlock_argv unlock_script k v) w) = Some (REDIS_REPLY_INTEGER i)))
     \<Longrightarrow> ctx \<noteq> None \<Longrightarrow> keys (snd (Unlock api r ctx lock w)) = del_own (keys w) k v t"
proof (cases "\<exists>c. ctx = Some c \<and> \<not> rc_err api c w")
  case True
  then obtain c where c: "ctx = Some c" "\<not> rc_err api c w" by blast
  from assms(1) obtain rep w2 t where "rc_command api c (unlock_argv unlock_script k v) w = (rep, w2)"
    "rc_time api w \<le> t" "t \<le> rc_time api w2"
    "keys w2 = del_own (keys w) k v t \<or> (\<forall>i. rep \<noteq> Some (REDIS_REPLY_INTEGER i)) \<and> keys w2 = keys w"
    unfolding redis_laws_def unlock_law_def by metis
  with c assms(2-4) show thesis by (intro that [of t]) (auto simp: Unlock_def UnlockInstance_def)
next
  case False
  then have "snd (Unlock api r ctx lock w) = w" by (auto simp: Unlock_def split: option.splits)
  with False show thesis by (intro that [of "rc_time api w"]) auto
qed

lemma retry_wait_frame:
  assumes "redis_laws api keys"
  shows "keys (retry_wait api d w) = keys w" and "rc_time api w \<le> rc_time api (retry_wait api d w)"
  using assms
  by (auto simp: redis_laws_def frame_law_def retry_wait_def Let_def case_prod_unfold intro: order_trans)

section \<open>One attempt\<close>

definition owned :: "CRedLock \<Rightarrow> CLock \<Rightarrow> string \<Rightarrow> string \<Rightarrow> bool" where
  "owned r lock k v \<longleftrightarrow> m_unlockScript r = unlock_script \<and> m_resource lock = Some k \<and> m_val lock = Some v"

text \<open>Every unlock on the context is answered with a number.\<close>

definition unlock_answered :: "'w redis_api \<Rightarrow> nat \<Rightarrow> bool" where
  "unlock_answered api c \<longleftrightarrow> (\<forall>w. \<not> rc_err api c w \<and>
     (\<forall>k v. \<exists>i. fst (rc_command api c (unlock_argv unlock_script k v) w) = Some (REDIS_REPLY_INTEGER i)))"

text \<open>An attempt, as its two outcomes.\<close>

lemma lock_attemptE:
  assumes laws: "redis_laws api keys" and own: "owned r lock k v"
    and att: "lock_attempt api r c k v ttl lock w = (ok, lock', w')"
  obtains
    (locked) t where "ok" "rc_time api w \<le> t" "t \<le> rc_time api w'" "set_nx (keys w) k v ttl t = Some (keys w')"
      "lock' = lock\<lparr>m_validityTime := validity ttl (now_ms api w) (now_ms api w')\<rparr>" "0 < m_validityTime lock'"
  | (failed) h t u where "\<not> ok" "lock' = lock" "rc_time api w \<le> t" "t \<le> u" "u \<le> rc_time api w'"
      "h = keys w \<or> set_nx (keys w) k v ttl t = Some h"
      "keys w' \<in> {h, del_own h k v u}" "unlock_answered api c \<Longrightarrow> keys w' = del_own h k v u"
proof -
  obtain l w1 where l: "LockInstance api c k v ttl w = (l, w1)" by force
  obtain t where t: "rc_time api w \<le> t" "t \<le> rc_time api w1" "l \<Longrightarrow> set_nx (keys w) k v ttl t = Some (keys w1)"
    "\<not> l \<Longrightarrow> keys w1 = keys w \<or> set_nx (keys w) k v ttl t = Some (keys w1)"
    using set_lawE [OF laws l] by metis
  define good where "good = (l \<and> 0 < validity ttl (now_ms api w) (now_ms api w1))"
  show thesis
  proof (cases good)
    case True
    then have "ok" "w' = w1" "lock' = lock\<lparr>m_validityTime := validity ttl (now_ms api w) (now_ms api w1)\<rparr>"
      using att by (auto simp: lock_attempt_def l Let_def good_def)
    then show thesis using t True by (intro locked [of t]) (auto simp: good_def)
  next
    case False
    define w2 where "w2 = snd (Unlock api r (Some c) lock w1)"
    have w': "\<not> ok" "lock' = lock" "w' = (if 0 < m_retryDelay r then retry_wait api (m_retryDelay r) w2 else w2)"
      using att False by (auto simp: lock_attempt_def l Let_def good_def w2_def)
    have own': "m_unlockScript r = unlock_script" "m_resource lock = Some k" "m_val lock = Some v"
      using own by (simp_all add: owned_def)
    obtain u where u: "rc_time api w1 \<le> u" "u \<le> rc_time api w2" "keys w2 \<in> {keys w1, del_own (keys w1) k v u}"
      "unlock_answered api c \<Longrightarrow> keys w2 = del_own (keys w1) k v u"
      unfolding w2_def
      by (rule Unlock_effect [OF laws own', where w = w1 and ctx = "Some c"]) (auto simp: unlock_answered_def)
    have "keys w' = keys w2" "rc_time api w2 \<le> rc_time api w'"
      using retry_wait_frame [OF laws] by (auto simp: w'(3))
    then show thesis using t u w'(1,2) by (intro failed [of t u "keys w1"]) auto
  qed
qed

lemma attempt_time:
  assumes "redis_laws api keys" and "owned r lock k v" and "lock_attempt api r c k v ttl lock w = (ok, lock', w')"
  shows "rc_time api w \<le> rc_time api w'"
  using assms by (rule lock_attemptE) auto

lemma attempt_keeps: "lock_attempt api r c k v ttl lock w = (ok, lock', w') \<Longrightarrow> \<not> ok \<Longrightarrow> lock' = lock"
  by (auto simp: lock_attempt_def Let_def case_prod_unfold split: if_splits)

lemma attempt_foreign:
  assumes "redis_laws api keys" and "owned r lock k v" and "lock_attempt api r c k v ttl lock w = (ok, lock', w')"
    and "keys w k = Some (v', d)" and "v' \<noteq> v" and "rc_time api w' < d"
  shows "\<not> ok \<and> lock' = lock \<and> keys w' k = Some (v', d)"
  using assms(1-3)
  by (rule lock_attemptE) (use assms(4-6) in \<open>auto simp: set_nx_def del_own_def live_def split: if_splits\<close>)

lemma attempt_clean:
  assumes "redis_laws api keys" and "owned r lock k v" and "lock_attempt api r c k v ttl lock w = (False, lock', w')"
    and "unlock_answered api c"
  shows "\<not> (live (keys w') k (rc_time api w') \<and> fst (the (keys w' k)) = v)"
  using assms(1-3)
proof (rule lock_attemptE)
  fix h t u
  assume "u \<le> rc_time api w'" "unlock_answered api c \<Longrightarrow> keys w' = del_own h k v u"
  then show ?thesis using assms(4) by (auto simp: del_own_def live_def split: if_splits option.splits)
qed simp

lemma attempt_success:
  assumes "redis_laws api keys" and "owned r lock k v" and "lock_attempt api r c k v ttl lock w = (True, lock', w')"
    and ttl: "0 < ttl" "ttl < 2 ^ 31" and dur: "rc_time api w' - rc_time api w < 2 ^ 30"
  shows "owned r lock' k v \<and> 0 < m_validityTime lock' \<and> (\<exists>d. keys w' k = Some (v, d)
    \<and> m_validityTime lock' + clock_drift ttl - 999 \<le> d - rc_time api w' \<and> d - rc_time api w' \<le> ttl)"
  using assms(1-3)
proof (rule lock_attemptE)
  fix t
  assume t: "rc_time api w \<le> t" "t \<le> rc_time api w'" "set_nx (keys w) k v ttl t = Some (keys w')"
    and l: "lock' = lock\<lparr>m_validityTime := validity ttl (now_ms api w) (now_ms api w')\<rparr>" and pos: "0 < m_validityTime lock'"
  have "m_validityTime lock' = ttl - 1000 * (rc_time api w' div 1000 - rc_time api w div 1000) - clock_drift ttl"
    using validity_value [OF ttl _ dur] t l by simp
  moreover have "b - a \<le> 1000 * (b div 1000 - a div 1000) + 999" for a b :: int by presburger
  note this [of "rc_time api w'" "rc_time api w"]
  moreover have "keys w' = (keys w)(k \<mapsto> (v, t + ttl))" using t(3) by (simp add: set_nx_def split: if_splits)
  moreover have "owned r lock' k v" using assms(2) by (simp add: owned_def l)
  ultimately show ?thesis using t pos by auto
qed simp

section \<open>The whole call\<close>

lemma loop_time:
  assumes "redis_laws api keys" and "owned r lock k v" and "lock_loop n api r c k v ttl lock w = (ok, lock', w')"
  shows "rc_time api w \<le> rc_time api w'"
  using assms(2,3)
proof (induction n arbitrary: lock w)
  case (Suc n)
  obtain ok1 l1 w1 where a: "lock_attempt api r c k v ttl lock w = (ok1, l1, w1)" by (cases "lock_attempt api r c k v ttl lock w") auto
  have "rc_time api w \<le> rc_time api w1" using attempt_time [OF assms(1) Suc.prems(1) a] .
  moreover have "rc_time api w1 \<le> rc_time api w'"
  proof (cases ok1)
    case False
    then have "l1 = lock" by (rule attempt_keeps [OF a])
    then show ?thesis using Suc False a by (simp add: Let_def)
  qed (use Suc.prems(2) a in \<open>simp add: Let_def\<close>)
  ultimately show ?case by simp
qed simp

lemma loop_foreign:
  assumes "redis_laws api keys" and "owned r lock k v" and "lock_loop n api r c k v ttl lock w = (ok, lock', w')"
    and "keys w k = Some (v', d)" and "v' \<noteq> v" and "rc_time api w' < d"
  shows "\<not> ok \<and> keys w' k = Some (v', d)"
  using assms(2,3,4)
proof (induction n arbitrary: lock w)
  case (Suc n)
  obtain ok1 l1 w1 where a: "lock_attempt api r c k v ttl lock w = (ok1, l1, w1)" by (cases "lock_attempt api r c k v ttl lock w") auto
  have "rc_time api w1 < d"
  proof (cases ok1)
    case False
    then have "l1 = lock" by (rule attempt_keeps [OF a])
    then have "lock_loop n api r c k v ttl lock w1 = (ok, lock', w')" using Suc.prems(2) a False by (simp add: Let_def)
    then show ?thesis using loop_time [OF assms(1) Suc.prems(1)] assms(6) by fastforce
  qed (use Suc.prems(2) a assms(6) in \<open>simp add: Let_def\<close>)
  then have "\<not> ok1" "l1 = lock" "keys w1 k = Some (v', d)"
    using attempt_foreign [OF assms(1) Suc.prems(1) a Suc.prems(3) assms(5)] by auto
  then show ?case using Suc.IH [OF Suc.prems(1), of w1] Suc.prems(2) a by (simp add: Let_def)
qed simp

lemma loop_keeps: "lock_loop n api r c k v ttl lock w = (ok, lock', w') \<Longrightarrow> \<not> ok \<Longrightarrow> lock' = lock"
proof (induction n arbitrary: lock w)
  case (Suc n)
  obtain ok1 l1 w1 where a: "lock_attempt api r c k v ttl lock w = (ok1, l1, w1)" by (cases "lock_attempt api r c k v ttl lock w") auto
  then have "\<not> ok1" using Suc.prems by (auto simp: Let_def)
  then have "l1 = lock" by (rule attempt_keeps [OF a])
  then show ?case using Suc a \<open>\<not> ok1\<close> by (simp add: Let_def)
qed simp

lemma loop_clean:
  assumes "redis_laws api keys" and "owned r lock k v" and "lock_loop n api r c k v ttl lock w = (False, lock', w')"
    and "unlock_answered api c" and "0 < n"
  shows "\<not> (live (keys w') k (rc_time api w') \<and> fst (the (keys w' k)) = v)"
  using assms(2,3,5)
proof (induction n arbitrary: lock w)
  case (Suc n)
  obtain ok1 l1 w1 where a: "lock_attempt api r c k v ttl lock w = (ok1, l1, w1)" by (cases "lock_attempt api r c k v ttl lock w") auto
  then have n: "\<not> ok1" using Suc.prems(2) by (auto simp: Let_def)
  then have l: "l1 = lock" by (rule attempt_keeps [OF a])
  show ?case
  proof (cases n)
    case 0
    then show ?thesis using attempt_clean [OF assms(1) Suc.prems(1) _ assms(4)] a n Suc.prems(2) by (simp add: Let_def)
  next
    case (Suc m)
    then show ?thesis using Suc.IH [OF Suc.prems(1), of w1] Suc.prems(2) a n l by (simp add: Let_def)
  qed
qed simp

lemma loop_success:
  assumes "redis_laws api keys" and "owned r lock k v" and "lock_loop n api r c k v ttl lock w = (True, lock', w')"
    and ttl: "0 < ttl" "ttl < 2 ^ 31" and "rc_time api w' - rc_time api w < 2 ^ 30"
  shows "owned r lock' k v \<and> 0 < m_validityTime lock' \<and> (\<exists>d. keys w' k = Some (v, d)
    \<and> m_validityTime lock' + clock_drift ttl - 999 \<le> d - rc_time api w' \<and> d - rc_time api w' \<le> ttl)"
  using assms(2,3,6)
proof (induction n arbitrary: lock w)
  case (Suc n)
  obtain ok1 l1 w1 where a: "lock_attempt api r c k v ttl lock w = (ok1, l1, w1)" by (cases "lock_attempt api r c k v ttl lock w") auto
  show ?case
  proof (cases ok1)
    case True
    then show ?thesis using attempt_success [OF assms(1) Suc.prems(1) _ ttl] a Suc.prems(2,3) by (simp add: Let_def)
  next
    case False
    then have "l1 = lock" by (rule attempt_keeps [OF a])
    moreover have "rc_time api w \<le> rc_time api w1" using attempt_time [OF assms(1) Suc.prems(1) a] .
    ultimately show ?thesis using Suc.IH [OF Suc.prems(1), of w1] Suc.prems(2,3) a False by (simp add: Let_def)
  qed
qed simp

text \<open>A call that gets past its checks, as one run of the loop.\<close>

lemma CRedLock_LockE:
  assumes "redis_laws api keys" and "m_unlockScript r = unlock_script"
    and "CRedLock_Lock api r ctx k ttl lock w = (ok, lock', w')"
  obtains (refused) "\<not> ok" "lock' = lock" "keys w' = keys w" "rc_time api w \<le> rc_time api w'"
  | (run) c v w1 lock1 where "ctx = Some c" "fst (GetUniqueLockId api (m_fd r) w) = Some v" "owned r lock1 k v"
      "keys w1 = keys w" "rc_time api w \<le> rc_time api w1"
      "lock_loop (nat (max 1 (m_retryCount r))) api r c k v ttl lock1 w1 = (ok, lock', w')"
proof -
  obtain vo w1 where id: "GetUniqueLockId api (m_fd r) w = (vo, w1)" by force
  have fr: "keys w1 = keys w" "rc_time api w \<le> rc_time api w1"
    using assms(1) id by (auto simp: GetUniqueLockId_def Let_def case_prod_unfold redis_laws_def frame_law_def)
  show thesis
  proof (cases "\<exists>c v. ctx = Some c \<and> \<not> rc_err api c w \<and> vo = Some v")
    case True
    then obtain c v where "ctx = Some c" "\<not> rc_err api c w" "vo = Some v" by blast
    then show thesis
      using assms(2,3) id fr by (intro run [of c v "lock\<lparr>m_resource := Some k, m_val := Some v\<rparr>" w1]) (auto simp: CRedLock_Lock_def owned_def)
  next
    case False
    then show thesis using assms(3) id fr
      by (intro refused) (auto simp: CRedLock_Lock_def split: option.splits if_splits)
  qed
qed



section \<open>Quorum\<close>

definition add_servers :: "nat option list \<Rightarrow> CRedLock \<Rightarrow> CRedLock" where
  "add_servers cs r = fold (\<lambda>c r. snd (AddServerUrl c r)) cs r"

lemma add_servers_fields:
  "m_redisServer (add_servers cs r) = m_redisServer r @ List.map_filter id cs
   \<and> (cs \<noteq> [] \<longrightarrow> m_quoRum (add_servers cs r) = int (length (m_redisServer (add_servers cs r))) div 2 + 1)
   \<and> (cs = [] \<longrightarrow> m_quoRum (add_servers cs r) = m_quoRum r)"
proof (induction cs rule: rev_induct)
  case (snoc c cs)
  have "add_servers (cs @ [c]) r = snd (AddServerUrl c (add_servers cs r))" by (simp add: add_servers_def)
  then show ?case using snoc by (cases c) (auto simp: AddServerUrl_def Let_def List.map_filter_def)
qed (simp add: add_servers_def List.map_filter_def)

text \<open>
  The quorum that \<^verbatim>\<open>AddServerUrl\<close> computes is a strict majority of the contexts it kept, so that two
  clients never both reach it. Before the first \<^verbatim>\<open>AddServerUrl\<close> the quorum is zero: \<^verbatim>\<open>ContinueLock\<close> then
  reports success without asking any server.
\<close>

theorem ContinueLock_quorum:
  "(cs \<noteq> [] \<longrightarrow> int (length (m_redisServer (add_servers cs (CRedLock_new fd)))) < 2 * m_quoRum (add_servers cs (CRedLock_new fd)))
   \<and> (length (fst (rc_read api fd 20 w)) = 20 \<and> 0 < ttl \<and> ttl < 2 ^ 31 \<and> clock_drift ttl < ttl
      \<longrightarrow> (\<exists>r l w'. ContinueLock api (CRedLock_new fd) resource ttl lock w = Some (True, r, l, w')))"
proof (intro conjI impI)
  assume "cs \<noteq> []"
  then show "int (length (m_redisServer (add_servers cs (CRedLock_new fd)))) < 2 * m_quoRum (add_servers cs (CRedLock_new fd))"
    using add_servers_fields [of cs "CRedLock_new fd"] by auto
next
  assume h: "length (fst (rc_read api fd 20 w)) = 20 \<and> 0 < ttl \<and> ttl < 2 ^ 31 \<and> clock_drift ttl < ttl"
  define v where "v = concat (map print_02X (fst (rc_read api fd 20 w)))"
  define w1 where "w1 = snd (rc_read api fd 20 w)"
  define r where "r = (CRedLock_new fd)\<lparr>m_continueLock := CLock_new\<lparr>m_resource := Some resource, m_val := Some v\<rparr>\<rparr>"
  define l where "l = lock\<lparr>m_resource := Some resource, m_val := Some v\<rparr>"
  have r: "m_redisServer r = []" "m_quoRum r = 0" "m_retryCount r = 3"
    by (simp_all add: r_def CRedLock_new_def Initialize_def m_defaultRetryCount_def)
  have "GetUniqueLockId api fd w = (Some v, w1)"
    using h by (simp add: GetUniqueLockId_def case_prod_unfold Let_def v_def w1_def)
  then have "ContinueLock api (CRedLock_new fd) resource ttl lock w = continue_loop (nat (max 1 (m_retryCount r))) api r resource v ttl l w1"
    by (simp add: ContinueLock_def l_def r_def CRedLock_new_def Initialize_def CLock_new_def)
  moreover have "validity ttl (now_ms api w1) (now_ms api w1) = ttl - clock_drift ttl"
    using validity_value [of ttl api w1 w1] h by simp
  ultimately show "\<exists>r l w'. ContinueLock api (CRedLock_new fd) resource ttl lock w = Some (True, r, l, w')"
    using h r by (simp add: Let_def numeral_3_eq_3)
qed

section \<open>Identifiers\<close>

lemma HEX_inject: "a < 16 \<Longrightarrow> b < 16 \<Longrightarrow> HEX a = HEX b \<longleftrightarrow> a = b"
  by (auto simp: HEX_def char_of_eq_iff take_bit_eq_mod split: if_splits)

lemma print_02X_inject: "print_02X a = print_02X b \<longleftrightarrow> a = b"
proof
  assume "print_02X a = print_02X b"
  then have "unat a div 16 = unat b div 16" "unat a mod 16 = unat b mod 16"
    using unat_byte_less [of a] unat_byte_less [of b] by (auto simp: print_02X_def HEX_inject)
  then have "unat a = unat b" by (metis div_mult_mod_eq)
  then show "a = b" by (simp add: word_unat_eq_iff)
qed simp

lemma concat_print_inject:
  "length xs = length ys \<Longrightarrow> concat (map print_02X xs) = concat (map print_02X ys) \<longleftrightarrow> xs = ys"
proof (induction xs ys rule: list_induct2)
  case (Cons x xs y ys)
  have "length (print_02X x) = length (print_02X y)" by (simp add: print_02X_def)
  then show ?case using Cons by (simp add: append_eq_append_conv print_02X_inject)
qed simp

text \<open>
  Two lock identifiers are equal exactly when the twenty random bytes they were made from are: distinct
  draws never let one client release the lock of another. Every identifier has forty characters.
\<close>

theorem GetUniqueLockId_unique:
  assumes "GetUniqueLockId api fd w = (Some a, w1)" and "GetUniqueLockId api fd' w' = (Some b, w2)"
  shows "(a = b \<longleftrightarrow> fst (rc_read api fd 20 w) = fst (rc_read api fd' 20 w')) \<and> length a = 40"
proof -
  have "length (concat (map print_02X xs)) = 2 * length xs" for xs by (induction xs) (auto simp: print_02X_def)
  then show ?thesis
    using assms by (auto simp: GetUniqueLockId_def Let_def case_prod_unfold concat_print_inject split: if_splits)
qed

section \<open>A server\<close>

text \<open>
  A server that obeys the laws, for the examples: its state is the clock and the keys; a command takes
  effect when it is sent and takes \<open>lat\<close> milliseconds.
\<close>

definition parse_int :: "string \<Rightarrow> int" where
  "parse_int s = (case s of c # cs \<Rightarrow> if c = CHR ''-'' then - int (digits_value cs) else int (digits_value s) | [] \<Rightarrow> 0)"

lemma parse_int_to_string [simp]: "parse_int (to_string i) = i"
proof (cases "i < 0")
  case False
  obtain c cs where d: "digits_of (nat i) = c # cs" using digits_of_nonempty by (cases "digits_of (nat i)") auto
  then have "c \<noteq> CHR ''-''" using digits_of_not_minus [of "nat i"] by auto
  then show ?thesis using False d digits_value_digits_of [of "nat i"] by (simp add: to_string_def parse_int_def)
qed (simp add: to_string_def parse_int_def)

type_synonym demo = "int \<times> keyspace"

definition demo_command :: "nat \<Rightarrow> nat \<Rightarrow> string list \<Rightarrow> demo \<Rightarrow> redisReply option \<times> demo" where
  "demo_command lat c argv w = (let (t, h) = w in
     if hd argv = ''set''
     then (case set_nx h (argv ! 1) (argv ! 2) (parse_int (argv ! 4)) t of
         None \<Rightarrow> (Some REDIS_REPLY_NIL, (t + int lat, h))
       | Some h \<Rightarrow> (Some (REDIS_REPLY_STATUS ''OK''), (t + int lat, h)))
     else (Some (REDIS_REPLY_INTEGER 1), (t + int lat, del_own h (argv ! 3) (argv ! 4) t)))"

definition demo_api :: "nat \<Rightarrow> demo redis_api" where
  "demo_api lat = \<lparr>rc_err = (\<lambda>c w. False), rc_command = demo_command lat, rc_time = fst,
     rc_usleep = (\<lambda>us w. (fst w + max 0 us div 1000, snd w)), rc_rand = (\<lambda>w. (7, w)),
     rc_read = (\<lambda>fd n w. (replicate n 0xA5, w))\<rparr>"

lemma demo_laws: "redis_laws (demo_api lat) snd"
proof -
  have "set_law (demo_api lat) snd" unfolding set_law_def
  proof (intro allI)
    fix c k v ttl and w :: demo
    define out where "out = (case set_nx (snd w) k v ttl (fst w) of
        None \<Rightarrow> (Some REDIS_REPLY_NIL, (fst w + int lat, snd w))
      | Some h \<Rightarrow> (Some (REDIS_REPLY_STATUS ''OK''), (fst w + int lat, h)))"
    have "rc_command (demo_api lat) c (set_argv k v ttl) w = (fst out, snd out)"
      by (auto simp: out_def demo_api_def demo_command_def set_argv_def case_prod_unfold split: option.splits)
    then show "\<exists>r w' t. rc_command (demo_api lat) c (set_argv k v ttl) w = (r, w')
      \<and> rc_time (demo_api lat) w \<le> t \<and> t \<le> rc_time (demo_api lat) w'
      \<and> (if reply_OK r then set_nx (snd w) k v ttl t = Some (snd w')
         else snd w' = snd w \<or> r = None \<and> set_nx (snd w) k v ttl t = Some (snd w'))"
      by (intro exI [of _ "fst out"] exI [of _ "snd out"] exI [of _ "fst w"])
        (auto simp: out_def demo_api_def reply_OK_def split: option.splits)
  qed
  moreover have "unlock_law (demo_api lat) snd" unfolding unlock_law_def
  proof (intro allI)
    fix c k v and w :: demo
    show "\<exists>r w' t. rc_command (demo_api lat) c (unlock_argv unlock_script k v) w = (r, w')
      \<and> rc_time (demo_api lat) w \<le> t \<and> t \<le> rc_time (demo_api lat) w'
      \<and> (snd w' = del_own (snd w) k v t \<or> (\<forall>i. r \<noteq> Some (REDIS_REPLY_INTEGER i)) \<and> snd w' = snd w)"
      by (intro exI [of _ "Some (REDIS_REPLY_INTEGER 1)"] exI [of _ "(fst w + int lat, del_own (snd w) k v (fst w))"] exI [of _ "fst w"])
        (simp add: demo_api_def demo_command_def unlock_argv_def case_prod_unfold)
  qed
  moreover have "frame_law (demo_api lat) snd" by (simp add: frame_law_def demo_api_def pos_imp_zdiv_nonneg_iff)
  ultimately show ?thesis by (simp add: redis_laws_def)
qed

lemma demo_answered: "unlock_answered (demo_api lat) c"
  by (simp add: unlock_answered_def demo_api_def demo_command_def unlock_argv_def case_prod_unfold)

lemma demo_time [simp]: "rc_time (demo_api lat) = fst"
  by (simp add: demo_api_def)

definition demo_lock :: CRedLock where "demo_lock = SetRetry 1 0 (CRedLock_new 4)"

lemma demo_lock_fields [simp]:
  "m_unlockScript demo_lock = unlock_script" "m_retryCount demo_lock = 1" "m_retryDelay demo_lock = 0" "m_fd demo_lock = 4"
  by (simp_all add: demo_lock_def SetRetry_def CRedLock_new_def Initialize_def)

definition demo_id :: string where "demo_id = concat (replicate 20 ''A5'')"

lemma demo_id: "GetUniqueLockId (demo_api lat) fd w = (Some demo_id, w)"
proof -
  have "print_02X 0xA5 = ''A5''" by (simp add: print_02X_def HEX_def char_of_def bit_Suc_0_iff)
  then show ?thesis by (simp add: GetUniqueLockId_def demo_api_def demo_id_def)
qed

lemma clock_drift_1000: "clock_drift 1000 = 12"
  by (simp add: clock_drift_def round_float_def rne24_def fexcess.simps m_clockDriftFactor_def Let_def signed_divide_int_def)

text \<open>A server that needs 990 milliseconds for the command, asked at the start of a second.\<close>

lemma demo_success:
  "CRedLock_Lock (demo_api 990) demo_lock (Some 1) ''r'' 1000 CLock_new (10000, Map.empty)
   = (True, \<lparr>m_validityTime = 988, m_resource = Some ''r'', m_val = Some demo_id\<rparr>, (10990, [''r'' \<mapsto> (demo_id, 11000)]))"
proof -
  have "LockInstance (demo_api 990) 1 ''r'' demo_id 1000 (10000, Map.empty) = (True, (10990, [''r'' \<mapsto> (demo_id, 11000)]))"
    by (simp add: LockInstance_def demo_api_def demo_command_def set_argv_def set_nx_def live_def reply_OK_def)
  moreover have "validity 1000 (now_ms (demo_api 990) (10000, Map.empty)) (now_ms (demo_api 990) (10990, [''r'' \<mapsto> (demo_id, 11000)])) = 988"
    by (simp add: validity_def now_ms_def demo_api_def wrap32_def clock_drift_1000)
  ultimately have "lock_attempt (demo_api 990) demo_lock 1 ''r'' demo_id 1000 (CLock_new\<lparr>m_resource := Some ''r'', m_val := Some demo_id\<rparr>) (10000, Map.empty)
    = (True, \<lparr>m_validityTime = 988, m_resource = Some ''r'', m_val = Some demo_id\<rparr>, (10990, [''r'' \<mapsto> (demo_id, 11000)]))"
    by (simp add: lock_attempt_def Let_def CLock_new_def)
  moreover have "\<not> rc_err (demo_api 990) 1 (10000, Map.empty)" by (simp add: demo_api_def)
  ultimately show ?thesis by (simp add: CRedLock_Lock_def demo_id)
qed


text \<open>The same call while the resource is held by someone else, on a server without delay.\<close>

lemma demo_failure:
  "CRedLock_Lock (demo_api 0) demo_lock (Some 1) ''r'' 1000 CLock_new (10000, [''r'' \<mapsto> (''other'', 10500)])
   = (False, \<lparr>m_validityTime = 0, m_resource = Some ''r'', m_val = Some demo_id\<rparr>, (10000, [''r'' \<mapsto> (''other'', 10500)]))"
proof -
  have "demo_id \<noteq> ''other''" by (simp add: demo_id_def numeral_eq_Suc)
  then have "Unlock (demo_api 0) demo_lock (Some 1) \<lparr>m_validityTime = 0, m_resource = Some ''r'', m_val = Some demo_id\<rparr>
      (10000, [''r'' \<mapsto> (''other'', 10500)]) = (True, (10000, [''r'' \<mapsto> (''other'', 10500)]))"
    by (simp add: Unlock_def UnlockInstance_def demo_api_def demo_command_def unlock_argv_def del_own_def)
  moreover have "LockInstance (demo_api 0) 1 ''r'' demo_id 1000 (10000, [''r'' \<mapsto> (''other'', 10500)])
      = (False, (10000, [''r'' \<mapsto> (''other'', 10500)]))"
    by (simp add: LockInstance_def demo_api_def demo_command_def set_argv_def set_nx_def live_def reply_OK_def)
  ultimately have "lock_attempt (demo_api 0) demo_lock 1 ''r'' demo_id 1000 (CLock_new\<lparr>m_resource := Some ''r'', m_val := Some demo_id\<rparr>)
      (10000, [''r'' \<mapsto> (''other'', 10500)])
    = (False, \<lparr>m_validityTime = 0, m_resource = Some ''r'', m_val = Some demo_id\<rparr>, (10000, [''r'' \<mapsto> (''other'', 10500)]))"
    by (simp add: lock_attempt_def Let_def CLock_new_def)
  moreover have "\<not> rc_err (demo_api 0) 1 (10000, [''r'' \<mapsto> (''other'', 10500)])" by (simp add: demo_api_def)
  ultimately show ?thesis by (simp add: CRedLock_Lock_def demo_id)
qed


theorem GetUniqueLockId_unique_witness:
  "length demo_id = 40 \<and> fst (GetUniqueLockId (demo_api 0) 4 (0, Map.empty)) = Some demo_id"
  using GetUniqueLockId_unique [OF demo_id demo_id] demo_id by simp

theorem ContinueLock_quorum_witness:
  "int (length (m_redisServer (add_servers [Some 1, None, Some 2] (CRedLock_new 4)))) = 2
   \<and> m_quoRum (add_servers [Some 1, None, Some 2] (CRedLock_new 4)) = 2
   \<and> (\<exists>r l w'. ContinueLock (demo_api 0) (CRedLock_new 4) ''r'' 1000 CLock_new (10000, Map.empty) = Some (True, r, l, w'))"
  using ContinueLock_quorum [of "[Some 1]" 4 "demo_api 0" "(10000, Map.empty)" 1000 "''r''" CLock_new]
  by (simp add: clock_drift_1000) (simp add: demo_api_def add_servers_def AddServerUrl_def CRedLock_new_def Initialize_def)

end
