(* ===== verification/Distribute_Lock.thy ===== *)
theory Distribute_Lock
  imports Red_Lock
begin

text \<open>
  The lock facade of \<^verbatim>\<open>common/distribute_lock.h\<close> and \<^verbatim>\<open>common/distribute_lock.cpp\<close>: it takes a connection from the
  Redis pool for each operation and gives it back, and runs the lock manager on it.
\<close>

record RedisLock =
  rl_lock :: CLock
  rl_error :: bool
  rl_locked :: bool

definition RedisLock_new :: RedisLock where
  "RedisLock_new = \<lparr>rl_lock = CLock_new, rl_error = True, rl_locked = False\<rparr>"

definition IsOK :: "RedisLock \<Rightarrow> bool" where
  "IsOK lock \<longleftrightarrow> \<not> rl_error lock"

definition DistributeLock_new :: "int \<Rightarrow> int \<Rightarrow> int \<Rightarrow> CRedLock" where
  "DistributeLock_new retry_count delay fd = SetRetry retry_count delay (CRedLock_new fd)"

text \<open>
  \<^verbatim>\<open>RedisClient client{-1}\<close>: the wait for a connection has no limit; \<open>None\<close> is a wait that nobody ends.
\<close>

definition RedisClient_forever ::
  "check_env \<Rightarrow> open_env \<Rightarrow> RedisConnPool \<Rightarrow> (RedisConn option \<times> RedisConnPool) option" where
  "RedisClient_forever ch oe p =
     (if pool_size p \<noteq> 0 \<and> curr_size p \<noteq> 0 \<and> conn_pool p = [] then None else Some (GetRedisConn ch oe p))"

definition DistributeLock_Lock ::
  "'w redis_api \<Rightarrow> check_env \<Rightarrow> open_env \<Rightarrow> CRedLock \<Rightarrow> string \<Rightarrow> int \<Rightarrow> RedisConnPool \<Rightarrow> 'w
   \<Rightarrow> (RedisLock \<times> RedisConnPool \<times> 'w) option" where
  "DistributeLock_Lock api ch oe red resource ttl p w =
     (case RedisClient_forever ch oe p of
        None \<Rightarrow> None
      | Some (None, p) \<Rightarrow> Some (RedisLock_new\<lparr>rl_error := True\<rparr>, p, w)
      | Some (Some c, p) \<Rightarrow>
          let (res, l, w) = CRedLock_Lock api red (Some (raw_ctx c)) (takeWhile (\<lambda>x. x \<noteq> CHR 0x00) resource) ttl CLock_new w;
              lock = RedisLock_new\<lparr>rl_lock := l\<rparr>;
              lock = (if res then lock\<lparr>rl_error := False, rl_locked := True\<rparr> else lock)
          in Some (lock, snd (snd (Client_ReleaseRedisConn (Some c) p)), w))"

definition DistributeLock_Unlock ::
  "'w redis_api \<Rightarrow> check_env \<Rightarrow> open_env \<Rightarrow> CRedLock \<Rightarrow> RedisLock \<Rightarrow> RedisConnPool \<Rightarrow> 'w
   \<Rightarrow> (RedisLock \<times> RedisConnPool \<times> 'w) option" where
  "DistributeLock_Unlock api ch oe red lock p w =
     (if \<not> rl_locked lock then Some (lock, p, w)
      else case RedisClient_forever ch oe p of
        None \<Rightarrow> None
      | Some (None, p) \<Rightarrow> Some (lock\<lparr>rl_error := True\<rparr>, p, w)
      | Some (Some c, p) \<Rightarrow>
          let w = snd (Unlock api red (Some (raw_ctx c)) (rl_lock lock) w)
          in Some (lock\<lparr>rl_locked := False\<rparr>, snd (snd (Client_ReleaseRedisConn (Some c) p)), w))"

section \<open>Connections\<close>

lemma forever_in_use:
  assumes "RedisClient_forever ch oe p = Some (conn, q)"
  shows "in_use q = (case conn of None \<Rightarrow> in_use p | Some c \<Rightarrow> c # in_use p)"
    and "length (conn_pool q) + (case conn of None \<Rightarrow> 0 | Some c \<Rightarrow> 1) + lost q = length (conn_pool p) + lost p"
  using assms
  by (auto simp: RedisClient_forever_def GetRedisConn_def CheckConnection_def OpenConnection_def Let_def
      split: if_splits list.splits option.splits redisReply.splits prod.splits)

lemma release_in_use:
  "in_use (snd (snd (Client_ReleaseRedisConn (Some c) p))) = remove1 c (in_use p)"
  "length (conn_pool (snd (snd (Client_ReleaseRedisConn (Some c) p)))) = Suc (length (conn_pool p))"
  "lost (snd (snd (Client_ReleaseRedisConn (Some c) p))) = lost p"
  by (simp_all add: Client_ReleaseRedisConn_def ReleaseRedisConn_def)

text \<open>What both operations do to the pool.\<close>

definition same_clients :: "RedisConnPool \<Rightarrow> RedisConnPool \<Rightarrow> bool" where
  "same_clients p q \<longleftrightarrow> in_use q = in_use p \<and> length (conn_pool q) + lost q = length (conn_pool p) + lost p"

lemma Lock_same_clients:
  "DistributeLock_Lock api ch oe red resource ttl p w = Some (lock, q, w') \<Longrightarrow> same_clients p q"
  using forever_in_use [of ch oe p]
  by (auto simp: DistributeLock_Lock_def same_clients_def release_in_use Let_def case_prod_unfold
      split: option.splits prod.splits)

lemma Unlock_same_clients:
  "DistributeLock_Unlock api ch oe red lock p w = Some (lock', q, w') \<Longrightarrow> same_clients p q"
  using forever_in_use [of ch oe p]
  by (auto simp: DistributeLock_Unlock_def same_clients_def release_in_use Let_def case_prod_unfold
      split: option.splits prod.splits if_splits)

section \<open>A lock and its release\<close>

lemma loop_owned:
  "lock_loop n api r c k v ttl lock w = (ok, lock', w') \<Longrightarrow> owned r lock k v \<Longrightarrow> owned r lock' k v"
proof (induction n arbitrary: lock w)
  case (Suc n)
  obtain ok1 l1 w1 where a: "lock_attempt api r c k v ttl lock w = (ok1, l1, w1)" by (cases "lock_attempt api r c k v ttl lock w") auto
  have "owned r l1 k v"
    using a Suc.prems(2) by (auto simp: lock_attempt_def owned_def Let_def case_prod_unfold split: if_splits)
  then show ?case using Suc a by (auto simp: Let_def split: if_splits)
qed simp

lemma CRedLock_Lock_owned:
  assumes "redis_laws api keys" and "m_unlockScript r = unlock_script"
    and "CRedLock_Lock api r ctx k ttl lock w = (True, lock', w')"
  shows "\<exists>v. owned r lock' k v"
  using assms by (rule CRedLock_LockE) (auto dest: loop_owned)

text \<open>
  \<^verbatim>\<open>Lock\<close> reports success exactly when it has locked. Releasing such a lock on a server that answers
  removes the caller's value from the resource, and after the pair of operations the pool counts the same
  connections as before: none is kept, and the ones that could not be reopened are the only ones missing.
\<close>

theorem DistributeLock_scope:
  assumes "redis_laws api keys" and "\<forall>c. unlock_answered api c"
    and "DistributeLock_Lock api ch oe (DistributeLock_new n d fd) resource ttl p w = Some (lock, p1, w1)"
    and "DistributeLock_Unlock api ch' oe' (DistributeLock_new n d fd) lock p1 w1 = Some (lock2, p2, w2)"
  shows "(rl_locked lock \<longleftrightarrow> IsOK lock)
    \<and> (IsOK lock \<longrightarrow> rl_locked lock2 = rl_error lock2)
    \<and> (IsOK lock \<and> IsOK lock2 \<longrightarrow> (\<exists>k v. m_resource (rl_lock lock) = Some k \<and> m_val (rl_lock lock) = Some v
         \<and> \<not> (live (keys w2) k (rc_time api w2) \<and> fst (the (keys w2 k)) = v)))
    \<and> in_use p2 = in_use p \<and> length (conn_pool p2) + lost p2 = length (conn_pool p) + lost p"
proof -
  let ?r = "DistributeLock_new n d fd"
  have s: "m_unlockScript ?r = unlock_script"
    by (simp add: DistributeLock_new_def SetRetry_def CRedLock_new_def Initialize_def)
  have pool: "same_clients p p1" "same_clients p1 p2"
    using assms(3,4) by (auto dest: Lock_same_clients Unlock_same_clients)
  have flags: "rl_locked lock \<longleftrightarrow> IsOK lock"
    using assms(3) by (auto simp: DistributeLock_Lock_def IsOK_def RedisLock_new_def Let_def case_prod_unfold
        split: option.splits if_splits)
  have own: "\<exists>k v. owned ?r (rl_lock lock) k v" if "IsOK lock"
    using assms(3) that CRedLock_Lock_owned [OF assms(1) s]
    by (auto simp: DistributeLock_Lock_def IsOK_def RedisLock_new_def Let_def split: option.splits prod.splits if_splits) blast+
  have gone: "\<exists>k v. m_resource (rl_lock lock) = Some k \<and> m_val (rl_lock lock) = Some v
      \<and> \<not> (live (keys w2) k (rc_time api w2) \<and> fst (the (keys w2 k)) = v)" if ok: "IsOK lock" "IsOK lock2"
  proof -
    obtain k v where kv: "m_resource (rl_lock lock) = Some k" "m_val (rl_lock lock) = Some v"
      using own [OF ok(1)] by (auto simp: owned_def)
    obtain c where w2: "w2 = snd (Unlock api ?r (Some c) (rl_lock lock) w1)"
      using assms(4) ok flags by (auto simp: DistributeLock_Unlock_def IsOK_def Let_def split: option.splits if_splits)
    obtain u where "u \<le> rc_time api w2" "keys w2 = del_own (keys w1) k v u"
      unfolding w2
      by (rule Unlock_effect [OF assms(1) s kv, where w = w1 and ctx = "Some c"])
        (use assms(2) in \<open>auto simp: unlock_answered_def\<close>)
    then show ?thesis using kv by (auto simp: del_own_def live_def split: if_splits option.splits)
  qed
  have "rl_locked lock2 = rl_error lock2" if "IsOK lock"
    using assms(4) that flags by (auto simp: DistributeLock_Unlock_def IsOK_def Let_def split: option.splits if_splits)
  then show ?thesis using flags gone pool by (simp add: same_clients_def)
qed

definition held_lock :: RedisLock where
  "held_lock = \<lparr>rl_lock = \<lparr>m_validityTime = 988, m_resource = Some ''r'', m_val = Some demo_id\<rparr>, rl_error = False, rl_locked = True\<rparr>"

lemma demo_client:
  "RedisClient_forever good_ping down_env one_pool = Some (Some \<lparr>raw_ctx = 1, conn_version = 0\<rparr>, used_pool)"
  by (simp add: RedisClient_forever_def used_pool_def GetRedisConn_def one_pool_value CheckConnection_def good_ping_def strcasecmp_eq_def)

definition back_pool :: RedisConnPool where
  "back_pool = snd (snd (Client_ReleaseRedisConn (Some \<lparr>raw_ctx = 1, conn_version = 0\<rparr>) used_pool))"

lemma back_pool: "back_pool = one_pool"
  by (simp add: back_pool_def used_pool_def Client_ReleaseRedisConn_def ReleaseRedisConn_def GetRedisConn_def one_pool_value
      CheckConnection_def good_ping_def strcasecmp_eq_def)

lemma demo_lock_new: "DistributeLock_new 1 0 4 = demo_lock"
  by (simp add: DistributeLock_new_def demo_lock_def)

lemma demo_Lock:
  "DistributeLock_Lock (demo_api 990) good_ping down_env (DistributeLock_new 1 0 4) ''r'' 1000 one_pool (10000, Map.empty)
   = Some (held_lock, one_pool, (10990, [''r'' \<mapsto> (demo_id, 11000)]))"
  using back_pool demo_success
  by (simp add: DistributeLock_Lock_def demo_client demo_lock_new held_lock_def RedisLock_new_def back_pool_def)

lemma demo_Unlock:
  "DistributeLock_Unlock (demo_api 990) good_ping down_env (DistributeLock_new 1 0 4) held_lock one_pool (10990, [''r'' \<mapsto> (demo_id, 11000)])
   = Some (held_lock\<lparr>rl_locked := False\<rparr>, one_pool, (11980, Map.empty))"
proof -
  have "snd (Unlock (demo_api 990) demo_lock (Some 1) (rl_lock held_lock) (10990, [''r'' \<mapsto> (demo_id, 11000)])) = (11980, Map.empty)"
    by (simp add: Unlock_def UnlockInstance_def demo_api_def demo_command_def unlock_argv_def del_own_def live_def held_lock_def)
  then show ?thesis
    using back_pool by (simp add: DistributeLock_Unlock_def demo_client demo_lock_new held_lock_def back_pool_def)
qed

theorem DistributeLock_scope_witness:
  "IsOK held_lock \<and> in_use one_pool = [] \<and> \<not> live Map.empty ''r'' 11980
   \<and> DistributeLock_Unlock (demo_api 990) good_ping down_env (DistributeLock_new 1 0 4) held_lock one_pool (10990, [''r'' \<mapsto> (demo_id, 11000)])
     = Some (held_lock\<lparr>rl_locked := False\<rparr>, one_pool, (11980, Map.empty))"
  using DistributeLock_scope [OF demo_laws allI [OF demo_answered] demo_Lock demo_Unlock] demo_Unlock
  by (simp add: one_pool_value live_def held_lock_def IsOK_def)

end
