(* ===== verification/Mysql_Pool.thy ===== *)
theory Mysql_Pool
  imports Step_System
begin

text \<open>
  The MySQL connection pool of \<^verbatim>\<open>common/mysql_conn_pool.h\<close> and \<^verbatim>\<open>common/mysql_conn_pool.cpp\<close>. The connector is an
  input: \<open>OpenConnection\<close> takes the connection it got, the calls on a connection take whether they succeeded.
  A connection carries the auto-commit mode of its session, which the connector keeps.
\<close>

record sql_Connection =
  conn_id :: nat
  session_autocommit :: bool

record MySQLConnection =
  raw_conn :: "sql_Connection option"
  my_version :: nat
  my_auto_commit :: bool

datatype conn_value = SQLText string | SQLInt int | SQLBool bool

record MySQLConnPool =
  conn_properties :: "conn_value omap"
  sql_pool_size :: nat
  curr_pool_size :: nat
  sql_conn_pool :: "MySQLConnection list"
  pool_version :: nat
  sql_in_use :: "MySQLConnection list"     \<comment> \<open>handed out and not given back; not stored by the code\<close>

text \<open>\<^verbatim>\<open>OpenConnection\<close>: a new session commits automatically; \<open>None\<close> is a null pointer or an exception.\<close>

definition MySQL_OpenConnection :: "nat option \<Rightarrow> sql_Connection option" where
  "MySQL_OpenConnection c = map_option (\<lambda>i. \<lparr>conn_id = i, session_autocommit = True\<rparr>) c"

fun MySQL_InitConnectionPool :: "nat option list \<Rightarrow> MySQLConnPool \<Rightarrow> MySQLConnPool" where
  "MySQL_InitConnectionPool [] p = p"
| "MySQL_InitConnectionPool (c # cs) p = MySQL_InitConnectionPool cs (case MySQL_OpenConnection c of
     None \<Rightarrow> p
   | Some raw \<Rightarrow> p\<lparr>curr_pool_size := curr_pool_size p + 1,
       sql_conn_pool := sql_conn_pool p @ [\<lparr>raw_conn = Some raw, my_version = pool_version p, my_auto_commit = True\<rparr>]\<rparr>)"

text \<open>The constructor opens half of the pool, rounded up; \<open>cs i\<close> is what attempt \<open>i\<close> gets.\<close>

definition MySQLConnPool_new ::
  "(nat \<Rightarrow> nat option) \<Rightarrow> string \<Rightarrow> string \<Rightarrow> string \<Rightarrow> string \<Rightarrow> nat \<Rightarrow> int \<Rightarrow> MySQLConnPool" where
  "MySQLConnPool_new cs host_name user_name password db_name n port =
     (let props = map_assign ''CLIENT_FOUND_ROWS'' (SQLBool True) (map_assign ''OPT_RECONNECT'' (SQLBool True)
            (map_assign ''port'' (SQLInt port) (map_assign ''schema'' (SQLText db_name)
            (map_assign ''password'' (SQLText password) (map_assign ''userName'' (SQLText user_name)
            (map_assign ''hostName'' (SQLText host_name) []))))));
          half = n div 2 + (if odd n then 1 else 0)
      in MySQL_InitConnectionPool (map cs [0 ..< half])
           \<lparr>conn_properties = props, sql_pool_size = n, curr_pool_size = 0, sql_conn_pool = [], pool_version = 1,
            sql_in_use = []\<rparr>)"

definition GetAvailablePoolSize :: "MySQLConnPool \<Rightarrow> nat" where
  "GetAvailablePoolSize p =
     nat ((int (sql_pool_size p) - int (curr_pool_size p) + int (length (sql_conn_pool p))) mod 2 ^ 32)"

definition setAutoCommit :: "bool \<Rightarrow> bool \<Rightarrow> sql_Connection \<Rightarrow> sql_Connection" where
  "setAutoCommit works b raw = (if works then raw\<lparr>session_autocommit := b\<rparr> else raw)"

text \<open>What the calls on one connection meet.\<close>

record conn_env =
  ce_valid :: bool            \<comment> \<open>\<^verbatim>\<open>isValid\<close>\<close>
  ce_reconnect :: bool        \<comment> \<open>\<^verbatim>\<open>reconnect\<close>: true, and no exception\<close>
  ce_set :: bool              \<comment> \<open>\<^verbatim>\<open>setAutoCommit\<close> does not throw\<close>
  ce_close :: bool            \<comment> \<open>\<^verbatim>\<open>close\<close> does not throw\<close>
  ce_open :: "nat option"     \<comment> \<open>the connection \<^verbatim>\<open>OpenConnection\<close> gets\<close>

definition Reconnect :: "conn_env \<Rightarrow> bool" where
  "Reconnect e = ce_reconnect e"

text \<open>\<^verbatim>\<open>_GetConnection(bool)\<close> on a pool that is not empty.\<close>

definition GetConnection_front :: "conn_env \<Rightarrow> bool \<Rightarrow> MySQLConnPool \<Rightarrow> MySQLConnection option \<times> MySQLConnPool" where
  "GetConnection_front e auto_commit p =
     (let conn = hd (sql_conn_pool p);
          p = p\<lparr>sql_conn_pool := tl (sql_conn_pool p)\<rparr>
      in if \<not> ce_valid e \<and> \<not> Reconnect e then (None, p\<lparr>curr_pool_size := dec32 (curr_pool_size p)\<rparr>)
         else let conn = (if auto_commit then conn
                else conn\<lparr>my_auto_commit := False, raw_conn := map_option (setAutoCommit (ce_set e) False) (raw_conn conn)\<rparr>)
              in (Some conn, p\<lparr>sql_in_use := conn # sql_in_use p\<rparr>))"

text \<open>
  \<^verbatim>\<open>GetConnection\<close>, once a wait is over: a wait that ended with an empty queue has expired.
\<close>

definition GetConnection :: "conn_env \<Rightarrow> bool \<Rightarrow> MySQLConnPool \<Rightarrow> MySQLConnection option \<times> MySQLConnPool" where
  "GetConnection e auto_commit p =
     (if sql_pool_size p = 0 then (None, p)
      else if sql_conn_pool p \<noteq> [] then GetConnection_front e auto_commit p
      else if sql_pool_size p \<le> curr_pool_size p then (None, p)
      else case MySQL_OpenConnection (ce_open e) of
        None \<Rightarrow> (None, p)
      | Some raw \<Rightarrow>
          let raw = (if auto_commit then raw else setAutoCommit (ce_set e) False raw);
              conn = \<lparr>raw_conn = Some raw, my_version = pool_version p, my_auto_commit = auto_commit\<rparr>
          in (Some conn, p\<lparr>curr_pool_size := curr_pool_size p + 1, sql_in_use := conn # sql_in_use p\<rparr>))"

text \<open>
  \<^verbatim>\<open>ReleaseConnection\<close>; \<open>None\<close> is an exception of \<^verbatim>\<open>close\<close>, which nothing catches.
\<close>

definition ReleaseConnection :: "conn_env \<Rightarrow> MySQLConnection option \<Rightarrow> MySQLConnPool \<Rightarrow> MySQLConnPool option" where
  "ReleaseConnection e conn p = (case conn of
     None \<Rightarrow> Some p
   | Some c \<Rightarrow>
       if raw_conn c = None then Some p
       else if my_version c < pool_version p \<and> \<not> ce_close e then None
       else let held = remove1 c (sql_in_use p);
                c = (if my_version c < pool_version p
                     then c\<lparr>raw_conn := MySQL_OpenConnection (ce_open e), my_version := pool_version p\<rparr> else c)
            in if raw_conn c = None then Some (p\<lparr>curr_pool_size := dec32 (curr_pool_size p), sql_in_use := held\<rparr>)
               else let c = (if my_auto_commit c then c
                      else c\<lparr>raw_conn := map_option (setAutoCommit (ce_set e) True) (raw_conn c),
                             my_auto_commit := ce_set e\<rparr>)
                    in Some (p\<lparr>sql_conn_pool := sql_conn_pool p @ [c], sql_in_use := held\<rparr>))"

definition MySQL_ReleaseConnectionPool :: "MySQLConnPool \<Rightarrow> MySQLConnPool" where
  "MySQL_ReleaseConnectionPool p = p\<lparr>sql_conn_pool := [], curr_pool_size := 0\<rparr>"

text \<open>
  \<^verbatim>\<open>UpdateConfig\<close>: \<open>closes\<close> tells for each idle connection whether its \<^verbatim>\<open>close\<close> throws, which leaves the function
  (first component false) with the pool as it is then.
\<close>

fun close_idle :: "bool list \<Rightarrow> MySQLConnPool \<Rightarrow> bool \<times> MySQLConnPool" where
  "close_idle [] p = (True, p)"
| "close_idle (ok # oks) p =
     (if sql_conn_pool p = [] then (True, p)
      else if \<not> ok then (False, p)
      else close_idle oks (p\<lparr>sql_conn_pool := tl (sql_conn_pool p), curr_pool_size := dec32 (curr_pool_size p)\<rparr>))"

definition UpdateConfig ::
  "(nat \<Rightarrow> bool) \<Rightarrow> (nat \<Rightarrow> nat option) \<Rightarrow> string \<Rightarrow> string \<Rightarrow> string \<Rightarrow> string \<Rightarrow> MySQLConnPool \<Rightarrow> bool \<times> MySQLConnPool" where
  "UpdateConfig closes cs host_name user_name password db_name p =
     (let p = p\<lparr>conn_properties := map_assign ''schema'' (SQLText db_name) (map_assign ''password'' (SQLText password)
            (map_assign ''userName'' (SQLText user_name) (map_assign ''hostName'' (SQLText host_name) (conn_properties p))))\<rparr>;
          available_size = length (sql_conn_pool p);
          (ok, p) = close_idle (map closes [0 ..< available_size]) p
      in if \<not> ok then (False, p)
         else let p = MySQL_InitConnectionPool (map cs [0 ..< available_size]) p
              in (True, p\<lparr>pool_version := pool_version p + 1\<rparr>))"

text \<open>One round of \<^verbatim>\<open>MonitorConnPool\<close>: every connection is taken, used for a query and given back.\<close>

fun monitor_loop :: "nat \<Rightarrow> (conn_env \<times> conn_env) list \<Rightarrow> MySQLConnPool \<Rightarrow> MySQLConnPool option" where
  "monitor_loop i [] p = Some p"
| "monitor_loop i ((g, r) # es) p =
     (if i < curr_pool_size p
      then (case GetConnection g True p of
          (None, p) \<Rightarrow> monitor_loop (i + 1) es p
        | (Some c, p) \<Rightarrow> (case ReleaseConnection r (Some c) p of None \<Rightarrow> None | Some p \<Rightarrow> monitor_loop (i + 1) es p))
      else Some p)"

text \<open>The client's handle: its constructor throws \<^verbatim>\<open>ConnectionNull\<close> (\<open>None\<close>) without a connection.\<close>

definition MySQLConnAssistant :: "conn_env \<Rightarrow> bool \<Rightarrow> MySQLConnPool \<Rightarrow> MySQLConnection option \<times> MySQLConnPool" where
  "MySQLConnAssistant e auto_commit p =
     (case GetConnection e auto_commit p of
        (Some c, p) \<Rightarrow> (if raw_conn c = None then None else Some c, p)
      | (None, p) \<Rightarrow> (None, p))"

section \<open>Steps and invariant\<close>

text \<open>The steps of clients and of a configuration update; with \<open>sets\<close>, \<^verbatim>\<open>setAutoCommit\<close> never throws.\<close>

inductive mysql_step :: "bool \<Rightarrow> MySQLConnPool \<Rightarrow> MySQLConnPool \<Rightarrow> bool" for sets where
  Get: "sets \<longrightarrow> ce_set e \<Longrightarrow> mysql_step sets p (snd (GetConnection e auto_commit p))"
| Release: "sets \<longrightarrow> ce_set e \<Longrightarrow> c \<in> set (sql_in_use p) \<Longrightarrow> ReleaseConnection e (Some c) p = Some q \<Longrightarrow> mysql_step sets p q"
| Update: "mysql_step sets p (snd (UpdateConfig closes cs host user pass db p))"

definition conn_ok :: "nat \<Rightarrow> MySQLConnection \<Rightarrow> bool" where
  "conn_ok v c \<longleftrightarrow> raw_conn c \<noteq> None \<and> my_version c \<le> v"

definition mysql_inv :: "MySQLConnPool \<Rightarrow> bool" where
  "mysql_inv p \<longleftrightarrow> curr_pool_size p = length (sql_conn_pool p) + length (sql_in_use p)
     \<and> curr_pool_size p \<le> sql_pool_size p \<and> sql_pool_size p < 2 ^ 32 \<and> omap_wf (conn_properties p)
     \<and> (\<forall>c \<in> set (sql_conn_pool p) \<union> set (sql_in_use p). conn_ok (pool_version p) c)"

lemma GetConnection_inv: "mysql_inv p \<Longrightarrow> mysql_inv (snd (GetConnection e auto_commit p))"
proof -
  assume p: "mysql_inv p"
  show ?thesis
  proof (cases "sql_pool_size p \<noteq> 0 \<and> sql_conn_pool p \<noteq> []")
    case True
    then obtain c cs where cs: "sql_conn_pool p = c # cs" by (cases "sql_conn_pool p") auto
    have "dec32 (curr_pool_size p) = length cs + length (sql_in_use p)"
      using p cs by (subst dec32_pos) (auto simp: mysql_inv_def)
    then show ?thesis
      using p cs by (auto simp: GetConnection_def GetConnection_front_def mysql_inv_def conn_ok_def Let_def)
  next
    case False
    then show ?thesis
      using p by (auto simp: GetConnection_def mysql_inv_def conn_ok_def Let_def split: option.splits)
  qed
qed

lemma ReleaseConnection_inv:
  assumes "mysql_inv p" and "c \<in> set (sql_in_use p)" and "ReleaseConnection e (Some c) p = Some q"
  shows "mysql_inv q"
proof -
  have n: "length (sql_in_use p) = Suc (length (remove1 c (sql_in_use p)))"
    using assms(2) by (simp add: length_remove1) (metis Suc_pred length_pos_if_in_set)
  have "dec32 (curr_pool_size p) = length (sql_conn_pool p) + length (remove1 c (sql_in_use p))"
    using assms(1) n by (subst dec32_pos) (auto simp: mysql_inv_def)
  moreover have "set (remove1 c (sql_in_use p)) \<subseteq> set (sql_in_use p)" by (rule set_remove1_subset)
  ultimately show ?thesis
    using assms n
    by (auto simp: ReleaseConnection_def mysql_inv_def conn_ok_def Let_def split: if_splits)
qed

text \<open>Opening adds to the idle connections and to the count alike.\<close>

lemma MySQL_Init_frame:
  "\<exists>cs'. MySQL_InitConnectionPool cs p = p\<lparr>sql_conn_pool := sql_conn_pool p @ cs', curr_pool_size := curr_pool_size p + length cs'\<rparr>
     \<and> length cs' \<le> length cs
     \<and> (\<forall>c \<in> set cs'. my_version c = pool_version p \<and> my_auto_commit c \<and> (\<exists>raw. raw_conn c = Some raw \<and> session_autocommit raw))"
proof (induction cs arbitrary: p)
  case (Cons c cs)
  show ?case
  proof (cases c)
    case None
    then show ?thesis using Cons [of p] by (auto simp: MySQL_OpenConnection_def)
  next
    case (Some i)
    let ?c = "\<lparr>raw_conn = Some \<lparr>conn_id = i, session_autocommit = True\<rparr>, my_version = pool_version p, my_auto_commit = True\<rparr>"
    obtain cs' where "MySQL_InitConnectionPool (c # cs) p
        = p\<lparr>sql_conn_pool := sql_conn_pool p @ [?c] @ cs', curr_pool_size := curr_pool_size p + 1 + length cs'\<rparr>"
      "length cs' \<le> length cs"
      "\<forall>c \<in> set cs'. my_version c = pool_version p \<and> my_auto_commit c \<and> (\<exists>raw. raw_conn c = Some raw \<and> session_autocommit raw)"
      using Cons [of "p\<lparr>curr_pool_size := curr_pool_size p + 1, sql_conn_pool := sql_conn_pool p @ [?c]\<rparr>"] Some
      by (auto simp: MySQL_OpenConnection_def)
    then show ?thesis by (intro exI [of _ "?c # cs'"]) simp
  qed
qed simp

lemma close_idle_frame:
  "length (sql_conn_pool p) \<le> curr_pool_size p \<Longrightarrow> curr_pool_size p < 2 ^ 32 \<Longrightarrow>
   \<exists>k \<le> length (sql_conn_pool p). snd (close_idle oks p) = p\<lparr>sql_conn_pool := drop k (sql_conn_pool p), curr_pool_size := curr_pool_size p - k\<rparr>
     \<and> (fst (close_idle oks p) \<longrightarrow> length oks = length (sql_conn_pool p) \<longrightarrow> k = length (sql_conn_pool p))"
proof (induction oks p rule: close_idle.induct)
  case (2 ok oks p)
  show ?case
  proof (cases "sql_conn_pool p = [] \<or> \<not> ok")
    case False
    then obtain c cs where cs: "sql_conn_pool p = c # cs" by (cases "sql_conn_pool p") auto
    let ?q = "p\<lparr>sql_conn_pool := cs, curr_pool_size := curr_pool_size p - 1\<rparr>"
    have d: "dec32 (curr_pool_size p) = curr_pool_size p - 1" using 2(2,3) cs by (intro dec32_pos) auto
    have q: "close_idle (ok # oks) p = close_idle oks ?q" using False cs d by simp
    have "\<exists>k \<le> length (sql_conn_pool ?q). snd (close_idle oks ?q) = ?q\<lparr>sql_conn_pool := drop k (sql_conn_pool ?q), curr_pool_size := curr_pool_size ?q - k\<rparr>
        \<and> (fst (close_idle oks ?q) \<longrightarrow> length oks = length (sql_conn_pool ?q) \<longrightarrow> k = length (sql_conn_pool ?q))"
      using 2(1) [unfolded d cs list.sel] False 2(2,3) cs by (simp del: close_idle.simps)
    then obtain k where "k \<le> length cs"
      "snd (close_idle oks ?q) = ?q\<lparr>sql_conn_pool := drop k cs, curr_pool_size := curr_pool_size p - 1 - k\<rparr>"
      "fst (close_idle oks ?q) \<longrightarrow> length oks = length cs \<longrightarrow> k = length cs" by auto
    then show ?thesis unfolding q by (intro exI [of _ "Suc k"]) (auto simp: cs)
  qed (auto intro!: exI [of _ 0])
qed (auto intro!: exI [of _ 0])

text \<open>The two ways \<^verbatim>\<open>UpdateConfig\<close> ends.\<close>

lemma UpdateConfigE:
  assumes "mysql_inv p"
  obtains
    (thrown) k props where "fst (UpdateConfig closes cs host user pass db p) = False" "k \<le> length (sql_conn_pool p)"
      "omap_wf props" "snd (UpdateConfig closes cs host user pass db p)
       = p\<lparr>conn_properties := props, sql_conn_pool := drop k (sql_conn_pool p), curr_pool_size := curr_pool_size p - k\<rparr>"
  | (finished) cs' props where "fst (UpdateConfig closes cs host user pass db p) = True" "length cs' \<le> length (sql_conn_pool p)"
      "snd (UpdateConfig closes cs host user pass db p)
       = p\<lparr>conn_properties := props, sql_conn_pool := cs', curr_pool_size := length (sql_in_use p) + length cs',
           pool_version := pool_version p + 1\<rparr>"
      "\<forall>c \<in> set cs'. my_version c = pool_version p \<and> my_auto_commit c \<and> (\<exists>raw. raw_conn c = Some raw \<and> session_autocommit raw)"
      "props = map_assign ''schema'' (SQLText db) (map_assign ''password'' (SQLText pass)
         (map_assign ''userName'' (SQLText user) (map_assign ''hostName'' (SQLText host) (conn_properties p))))"
proof -
  define props where "props = map_assign ''schema'' (SQLText db) (map_assign ''password'' (SQLText pass)
         (map_assign ''userName'' (SQLText user) (map_assign ''hostName'' (SQLText host) (conn_properties p))))"
  let ?p = "p\<lparr>conn_properties := props\<rparr>" and ?n = "length (sql_conn_pool p)"
  obtain ok q where q: "close_idle (map closes [0 ..< ?n]) ?p = (ok, q)" by force
  obtain k where k: "k \<le> ?n" "q = ?p\<lparr>sql_conn_pool := drop k (sql_conn_pool p), curr_pool_size := curr_pool_size p - k\<rparr>"
    "ok \<longrightarrow> k = ?n"
    using close_idle_frame [of ?p "map closes [0 ..< ?n]"] assms q by (auto simp: mysql_inv_def)
  have u: "UpdateConfig closes cs host user pass db p =
      (if \<not> ok then (False, q) else (True, (MySQL_InitConnectionPool (map cs [0 ..< ?n]) q)\<lparr>pool_version := pool_version p + 1\<rparr>))"
    using q k(2) MySQL_Init_frame [of "map cs [0 ..< ?n]" q]
    by (auto simp: UpdateConfig_def Let_def props_def [symmetric])
  show thesis
  proof (cases ok)
    case False
    then show thesis using u k assms by (intro thrown [of k props]) (auto simp: props_def mysql_inv_def)
  next
    case True
    obtain cs' where "MySQL_InitConnectionPool (map cs [0 ..< ?n]) q
        = q\<lparr>sql_conn_pool := sql_conn_pool q @ cs', curr_pool_size := curr_pool_size q + length cs'\<rparr>"
      "length cs' \<le> ?n"
      "\<forall>c \<in> set cs'. my_version c = pool_version q \<and> my_auto_commit c \<and> (\<exists>raw. raw_conn c = Some raw \<and> session_autocommit raw)"
      using MySQL_Init_frame [of "map cs [0 ..< ?n]" q] by auto
    then show thesis
      using u k True assms by (intro finished [of cs' props]) (auto simp: mysql_inv_def props_def)
  qed
qed

lemma UpdateConfig_inv: "mysql_inv p \<Longrightarrow> mysql_inv (snd (UpdateConfig closes cs host user pass db p))"
proof -
  assume p: "mysql_inv p"
  then show ?thesis
  proof (cases rule: UpdateConfigE [of p closes cs host user pass db])
    case (thrown k props)
    then show ?thesis using p by (auto simp: mysql_inv_def dest: in_set_dropD)
  next
    case (finished cs' props)
    then show ?thesis using p by (auto simp: mysql_inv_def conn_ok_def intro: le_SucI)
  qed
qed

lemma MySQLConnPool_new_inv: "n < 2 ^ 32 \<Longrightarrow> mysql_inv (MySQLConnPool_new cs host user pass db n port)"
proof -
  assume n: "n < 2 ^ 32"
  define m where "m = n div 2 + (if odd n then 1 else 0)"
  have "m \<le> n" by (auto simp: m_def elim: oddE)
  moreover have "mysql_inv (MySQL_InitConnectionPool (map cs [0 ..< m]) p)"
    if p: "sql_conn_pool p = []" "sql_in_use p = []" "curr_pool_size p = 0" "sql_pool_size p = n" "m \<le> n" "omap_wf (conn_properties p)" for p
  proof -
    obtain cs' where "MySQL_InitConnectionPool (map cs [0 ..< m]) p
        = p\<lparr>sql_conn_pool := sql_conn_pool p @ cs', curr_pool_size := curr_pool_size p + length cs'\<rparr>" "length cs' \<le> m"
      "\<forall>c \<in> set cs'. my_version c = pool_version p \<and> my_auto_commit c \<and> (\<exists>raw. raw_conn c = Some raw \<and> session_autocommit raw)"
      using MySQL_Init_frame [of "map cs [0 ..< m]" p] by auto
    then show ?thesis using p n by (auto simp: mysql_inv_def conn_ok_def)
  qed
  ultimately show ?thesis unfolding MySQLConnPool_new_def Let_def m_def [symmetric] by (simp del: map_assign.simps)
qed

interpretation mysql: bounded_pool "mysql_step sets" mysql_inv "\<lambda>p. length (sql_conn_pool p)" "\<lambda>p. length (sql_in_use p)"
    "\<lambda>p. 0" curr_pool_size sql_pool_size for sets
proof
  show "mysql_inv s \<Longrightarrow> mysql_step sets s t \<Longrightarrow> mysql_inv t" for s t
    by (erule mysql_step.cases) (auto simp: GetConnection_inv ReleaseConnection_inv UpdateConfig_inv)
qed (auto simp: mysql_inv_def)

text \<open>
  C32. In every state clients and configuration updates can bring a fresh pool into, even through updates that
  end in an exception, \<^verbatim>\<open>curr_pool_size_\<close> is the number of idle and handed out connections, it never exceeds
  the pool size, and \<^verbatim>\<open>GetAvailablePoolSize\<close> is what is left of the pool size without the connections in use.
\<close>

theorem MySQLConnPool_accounts:
  assumes "n < 2 ^ 32" and "(mysql_step sets)\<^sup>*\<^sup>* (MySQLConnPool_new cs host user pass db n port) p"
  shows "length (sql_conn_pool p) + length (sql_in_use p) = curr_pool_size p \<and> curr_pool_size p \<le> sql_pool_size p
    \<and> GetAvailablePoolSize p + length (sql_in_use p) = sql_pool_size p"
proof -
  have inv: "mysql_inv p" using mysql.inv_steps [OF assms(2) MySQLConnPool_new_inv [OF assms(1)]] .
  have "length (sql_conn_pool p) + length (sql_in_use p) + 0 = curr_pool_size p
      \<and> length (sql_conn_pool p) + length (sql_in_use p) \<le> sql_pool_size p"
    using mysql.pool_accounts [OF assms(2) MySQLConnPool_new_inv [OF assms(1)]] .
  moreover from this have "int (sql_pool_size p) - int (curr_pool_size p) + int (length (sql_conn_pool p))
      = int (sql_pool_size p - length (sql_in_use p))" by (simp add: of_nat_diff)
  moreover have "sql_pool_size p < 2 ^ 32" using inv by (simp add: mysql_inv_def)
  ultimately show ?thesis by (auto simp: GetAvailablePoolSize_def nat_mod_distrib)
qed

section \<open>Auto-commit\<close>

definition autocommit_of :: "MySQLConnection \<Rightarrow> bool" where
  "autocommit_of c = (case raw_conn c of None \<Rightarrow> False | Some raw \<Rightarrow> session_autocommit raw)"

definition session_inv :: "MySQLConnPool \<Rightarrow> bool" where
  "session_inv p \<longleftrightarrow> mysql_inv p \<and> (\<forall>c \<in> set (sql_conn_pool p). my_auto_commit c \<and> autocommit_of c)
     \<and> (\<forall>c \<in> set (sql_in_use p). autocommit_of c = my_auto_commit c)"

lemma GetConnection_session:
  assumes "session_inv p" and "ce_set e" and "GetConnection e auto_commit p = (Some c, q)"
  shows "autocommit_of c = auto_commit \<and> my_auto_commit c = auto_commit"
proof (cases "sql_conn_pool p")
  case Nil
  then show ?thesis using assms
    by (auto simp: GetConnection_def autocommit_of_def MySQL_OpenConnection_def setAutoCommit_def Let_def split: if_splits option.splits)
next
  case (Cons c' cs)
  then have "my_auto_commit c'" "autocommit_of c'" "\<exists>raw. raw_conn c' = Some raw"
    using assms(1) by (auto simp: session_inv_def mysql_inv_def conn_ok_def)
  then show ?thesis using assms Cons
    by (auto simp: GetConnection_def GetConnection_front_def autocommit_of_def setAutoCommit_def Let_def split: if_splits)
qed

lemma GetConnection_lists:
  "set (sql_conn_pool (snd (GetConnection e a p))) \<subseteq> set (sql_conn_pool p)"
  "set (sql_in_use (snd (GetConnection e a p))) \<subseteq> set (sql_in_use p) \<union> set_option (fst (GetConnection e a p))"
  by (cases "sql_conn_pool p"; auto simp: GetConnection_def GetConnection_front_def Let_def split: option.splits)+

lemma session_inv_get: "session_inv p \<Longrightarrow> ce_set e \<Longrightarrow> session_inv (snd (GetConnection e a p))"
proof -
  assume p: "session_inv p" "ce_set e"
  have "autocommit_of c = my_auto_commit c" if "fst (GetConnection e a p) = Some c" for c
    using GetConnection_session [OF p, of a c "snd (GetConnection e a p)"] that by (simp add: prod_eq_iff)
  then show ?thesis
    using p GetConnection_inv [of p e a] GetConnection_lists [of e a p] by (fastforce simp: session_inv_def)
qed

lemma session_inv_release:
  assumes "session_inv p" and "ce_set e" and "c \<in> set (sql_in_use p)" and "ReleaseConnection e (Some c) p = Some q"
  shows "session_inv q"
proof -
  have "mysql_inv q" using ReleaseConnection_inv [of p c e q] assms by (simp add: session_inv_def)
  moreover have own: "autocommit_of c = my_auto_commit c" "raw_conn c \<noteq> None"
    using assms(1,3) by (auto simp: session_inv_def mysql_inv_def conn_ok_def)
  moreover have "sql_in_use q = remove1 c (sql_in_use p)"
    using assms(4) own(2) by (auto simp: ReleaseConnection_def Let_def split: if_splits)
  moreover have "\<forall>c' \<in> set (sql_conn_pool q). c' \<in> set (sql_conn_pool p) \<or> my_auto_commit c' \<and> autocommit_of c'"
    using assms(2,4) own
    by (auto simp: ReleaseConnection_def Let_def autocommit_of_def MySQL_OpenConnection_def setAutoCommit_def split: if_splits)
  ultimately show ?thesis
    using assms(1) set_remove1_subset [of c "sql_in_use p"] by (auto simp: session_inv_def)
qed

lemma session_inv_update: "session_inv p \<Longrightarrow> session_inv (snd (UpdateConfig closes cs host user pass db p))"
proof -
  assume s: "session_inv p"
  then have p: "mysql_inv p" by (simp add: session_inv_def)
  then show ?thesis
  proof (cases rule: UpdateConfigE [of p closes cs host user pass db])
    case (thrown k props)
    then show ?thesis using s UpdateConfig_inv [OF p, of closes cs host user pass db]
      by (auto simp: session_inv_def dest: in_set_dropD)
  next
    case (finished cs' props)
    then show ?thesis using s UpdateConfig_inv [OF p, of closes cs host user pass db]
      by (auto simp: session_inv_def autocommit_of_def)
  qed
qed

interpretation sessions: invariant_system "mysql_step True" session_inv
  by unfold_locales (erule mysql_step.cases, auto simp: session_inv_get session_inv_release session_inv_update)

lemma MySQLConnPool_new_session: "n < 2 ^ 32 \<Longrightarrow> session_inv (MySQLConnPool_new cs host user pass db n port)"
proof -
  assume "n < 2 ^ 32"
  then have inv: "mysql_inv (MySQLConnPool_new cs host user pass db n port)" by (rule MySQLConnPool_new_inv)
  obtain es p where p: "MySQLConnPool_new cs host user pass db n port = MySQL_InitConnectionPool es p"
    "sql_conn_pool p = []" "sql_in_use p = []"
    by (rule that [OF MySQLConnPool_new_def [unfolded Let_def]]) simp_all
  then have "\<forall>c \<in> set (sql_conn_pool (MySQL_InitConnectionPool es p)). my_auto_commit c \<and> autocommit_of c"
    "sql_in_use (MySQL_InitConnectionPool es p) = []"
    using MySQL_Init_frame [of es p] by (fastforce simp: autocommit_of_def)+
  then show ?thesis using inv p(1) by (simp add: session_inv_def)
qed

text \<open>
  As long as \<^verbatim>\<open>setAutoCommit\<close> does not fail, a client gets a connection whose session is in the mode it asked
  for. When the call fails once as a transactional connection is given back, the connection is put into the
  pool with its session still in manual mode, and a client that asks for automatic commits can get it.
\<close>

theorem GetConnection_autocommit:
  "(n < 2 ^ 32 \<and> (mysql_step True)\<^sup>*\<^sup>* (MySQLConnPool_new cs host user pass db n port) p \<and> ce_set e
    \<and> GetConnection e auto_commit p = (Some c, p') \<longrightarrow> autocommit_of c = auto_commit)
   \<and> (sql_conn_pool s = [] \<and> raw_conn d = Some raw \<and> \<not> session_autocommit raw \<and> \<not> my_auto_commit d
    \<and> my_version d = pool_version s \<and> 0 < sql_pool_size s \<and> \<not> ce_set e' \<and> ce_valid e
    \<longrightarrow> (\<exists>s' c. ReleaseConnection e' (Some d) s = Some s' \<and> fst (GetConnection e True s') = Some c \<and> \<not> autocommit_of c))"
proof (intro conjI impI)
  assume a: "n < 2 ^ 32 \<and> (mysql_step True)\<^sup>*\<^sup>* (MySQLConnPool_new cs host user pass db n port) p \<and> ce_set e
    \<and> GetConnection e auto_commit p = (Some c, p')"
  then have "session_inv p" using sessions.inv_steps MySQLConnPool_new_session by blast
  then show "autocommit_of c = auto_commit" using GetConnection_session a by blast
next
  assume a: "sql_conn_pool s = [] \<and> raw_conn d = Some raw \<and> \<not> session_autocommit raw \<and> \<not> my_auto_commit d
    \<and> my_version d = pool_version s \<and> 0 < sql_pool_size s \<and> \<not> ce_set e' \<and> ce_valid e"
  then show "\<exists>s' c. ReleaseConnection e' (Some d) s = Some s' \<and> fst (GetConnection e True s') = Some c \<and> \<not> autocommit_of c"
    by (simp add: ReleaseConnection_def GetConnection_def GetConnection_front_def setAutoCommit_def autocommit_of_def Let_def)
qed

section \<open>Configuration updates\<close>

text \<open>
  An \<^verbatim>\<open>UpdateConfig\<close> that returns has replaced every idle connection by one opened with the new properties, and
  left the connections in use alone; but it opens them before it raises the version, so that every one of
  them counts as outdated: the next client that gives it back closes it and opens another one.
\<close>

theorem UpdateConfig_outdated:
  assumes "mysql_inv p" and "UpdateConfig closes cs host user pass db p = (True, q)"
  shows "pool_version q = pool_version p + 1 \<and> sql_in_use q = sql_in_use p
    \<and> map_of (conn_properties q) ''hostName'' = Some (SQLText host) \<and> map_of (conn_properties q) ''userName'' = Some (SQLText user)
    \<and> map_of (conn_properties q) ''password'' = Some (SQLText pass) \<and> map_of (conn_properties q) ''schema'' = Some (SQLText db)
    \<and> (\<forall>c \<in> set (sql_conn_pool q). my_version c < pool_version q)
    \<and> (\<forall>c \<in> set (sql_conn_pool q). ce_close e \<longrightarrow> ce_open e = Some i \<longrightarrow>
         (\<exists>r d raw. ReleaseConnection e (Some c) q = Some r \<and> sql_conn_pool r = sql_conn_pool q @ [d]
            \<and> raw_conn d = Some raw \<and> conn_id raw = i))"
  using assms(1)
proof (cases rule: UpdateConfigE [of p closes cs host user pass db])
  case (finished cs' props)
  then show ?thesis
    using assms by (auto simp: ReleaseConnection_def MySQL_OpenConnection_def Let_def mysql_inv_def)
qed (use assms(2) in simp)

section \<open>Examples\<close>

definition good_env :: conn_env where
  "good_env = \<lparr>ce_valid = True, ce_reconnect = True, ce_set = True, ce_close = True, ce_open = Some 9\<rparr>"

definition bad_set_env :: conn_env where
  "bad_set_env = good_env\<lparr>ce_set := False\<rparr>"

definition one_conn :: MySQLConnPool where
  "one_conn = MySQLConnPool_new Some ''h'' ''u'' ''p'' ''d'' 1 0"

definition idle_conn :: MySQLConnection where
  "idle_conn = \<lparr>raw_conn = Some \<lparr>conn_id = 0, session_autocommit = True\<rparr>, my_version = 1, my_auto_commit = True\<rparr>"

definition busy_conn :: MySQLConnection where
  "busy_conn = \<lparr>raw_conn = Some \<lparr>conn_id = 0, session_autocommit = False\<rparr>, my_version = 1, my_auto_commit = False\<rparr>"

lemma one_conn_fields:
  "sql_pool_size one_conn = 1" "curr_pool_size one_conn = 1" "sql_conn_pool one_conn = [idle_conn]"
  "sql_in_use one_conn = []" "pool_version one_conn = 1"
  by (simp_all add: one_conn_def MySQLConnPool_new_def MySQL_OpenConnection_def idle_conn_def Let_def)

definition busy_pool :: MySQLConnPool where
  "busy_pool = snd (GetConnection good_env False one_conn)"

lemma busy_pool_get: "GetConnection good_env False one_conn = (Some busy_conn, busy_pool)"
  by (simp add: busy_pool_def GetConnection_def GetConnection_front_def one_conn_fields good_env_def idle_conn_def busy_conn_def
      setAutoCommit_def Let_def)

lemma busy_pool_fields:
  "sql_conn_pool busy_pool = []" "sql_in_use busy_pool = [busy_conn]" "pool_version busy_pool = 1" "sql_pool_size busy_pool = 1"
  "curr_pool_size busy_pool = 1"
  by (simp_all add: busy_pool_def GetConnection_def GetConnection_front_def one_conn_fields good_env_def idle_conn_def busy_conn_def
      setAutoCommit_def Let_def)

lemma busy_pool_reached: "(mysql_step True)\<^sup>*\<^sup>* one_conn busy_pool"
  unfolding busy_pool_def by (rule r_into_rtranclp, rule Get) (simp add: good_env_def)

theorem MySQLConnPool_accounts_witness:
  "length (sql_conn_pool busy_pool) + length (sql_in_use busy_pool) = curr_pool_size busy_pool \<and> GetAvailablePoolSize busy_pool = 0"
  using MySQLConnPool_accounts [OF _ busy_pool_reached [unfolded one_conn_def]] by (simp add: busy_pool_fields)

theorem GetConnection_autocommit_witness:
  "\<not> autocommit_of busy_conn
   \<and> (\<exists>s' c. ReleaseConnection bad_set_env (Some busy_conn) busy_pool = Some s'
       \<and> fst (GetConnection good_env True s') = Some c \<and> \<not> autocommit_of c)"
  using GetConnection_autocommit [of 1 Some "''h''" "''u''" "''p''" "''d''" 0 one_conn good_env False busy_conn busy_pool
      busy_pool busy_conn "\<lparr>conn_id = 0, session_autocommit = False\<rparr>" bad_set_env, folded one_conn_def]
    busy_pool_get
  by (simp add: busy_pool_fields) (simp add: bad_set_env_def good_env_def busy_conn_def)

lemma one_conn_inv: "mysql_inv one_conn"
  unfolding one_conn_def by (rule MySQLConnPool_new_inv) simp

definition moved_pool :: MySQLConnPool where
  "moved_pool = snd (UpdateConfig (\<lambda>i. True) (\<lambda>i. Some (i + 5)) ''h2'' ''u'' ''p'' ''d'' one_conn)"

lemma moved_pool: "UpdateConfig (\<lambda>i. True) (\<lambda>i. Some (i + 5)) ''h2'' ''u'' ''p'' ''d'' one_conn = (True, moved_pool)"
  by (simp add: moved_pool_def UpdateConfig_def one_conn_fields Let_def)

theorem UpdateConfig_outdated_witness:
  "pool_version moved_pool = 2 \<and> map_of (conn_properties moved_pool) ''hostName'' = Some (SQLText ''h2'')
   \<and> (\<exists>c. sql_conn_pool moved_pool = [c] \<and> my_version c = 1)"
proof -
  have "\<exists>c. sql_conn_pool moved_pool = [c] \<and> my_version c = 1"
    by (simp add: moved_pool_def UpdateConfig_def one_conn_fields MySQL_OpenConnection_def Let_def)
  then show ?thesis using UpdateConfig_outdated [OF one_conn_inv moved_pool] by (simp add: one_conn_fields)
qed

end
