(* ===== verification/Mysql_Ops.thy ===== *)
theory Mysql_Ops
  imports Mysql_Pool
begin

text \<open>
  The statement interface of \<^verbatim>\<open>common/mysql_operation.h\<close> and \<^verbatim>\<open>common/mysql_operation.cpp\<close>. The connection is an input:
  what each call on it returns or throws. The operations yield what they sent, so that the theorems can speak
  of what the database was told.
\<close>

datatype sql_event = Savepoint string | Exec string | RollbackTo "string option" | Commit

text \<open>What one operation meets; an exception is its message.\<close>

record sql_env =
  has_conn :: bool                              \<comment> \<open>the pool gave a connection\<close>
  savepoint_err :: "string option"
  statement_err :: "string option"              \<comment> \<open>of \<^verbatim>\<open>createStatement\<close>\<close>
  update_reply :: "nat \<Rightarrow> string \<Rightarrow> string + int" \<comment> \<open>of the \<open>i\<close>-th \<^verbatim>\<open>executeUpdate\<close>\<close>
  rollback_err :: "string option"
  commit_err :: "string option"

definition ConnectionNull_what :: string where
  "ConnectionNull_what = ''conn_exception: connection is null''"

definition ExecuteQuery :: "sql_env \<Rightarrow> (string \<Rightarrow> string + 'r) \<Rightarrow> string \<Rightarrow> string \<Rightarrow> 'r option \<times> string" where
  "ExecuteQuery e query query_sql err_msg =
     (if \<not> has_conn e then (None, ConnectionNull_what)
      else case statement_err e of
        Some m \<Rightarrow> (None, m)
      | None \<Rightarrow> (case query query_sql of Inl m \<Rightarrow> (None, m) | Inr r \<Rightarrow> (Some r, err_msg)))"

definition ExecuteUpdate :: "sql_env \<Rightarrow> string \<Rightarrow> string \<Rightarrow> int \<times> string \<times> sql_event list" where
  "ExecuteUpdate e update_sql err_msg =
     (if \<not> has_conn e then (-1, ConnectionNull_what, [])
      else case statement_err e of
        Some m \<Rightarrow> (-2, m, [])
      | None \<Rightarrow> (case update_reply e 0 update_sql of
          Inl m \<Rightarrow> (-2, m, [Exec update_sql])
        | Inr n \<Rightarrow> (n, err_msg, [Exec update_sql])))"

text \<open>The loop over the statements: the sum so far, or the exception that ended it.\<close>

fun run_updates :: "(nat \<Rightarrow> string \<Rightarrow> string + int) \<Rightarrow> nat \<Rightarrow> string list \<Rightarrow> int \<Rightarrow> (string + int) \<times> sql_event list" where
  "run_updates f i [] res = (Inr res, [])"
| "run_updates f i (sql # sqls) res = (case f i sql of
     Inl m \<Rightarrow> (Inl m, [Exec sql])
   | Inr n \<Rightarrow> (let (r, es) = run_updates f (i + 1) sqls (wrap32 (res + n)) in (r, Exec sql # es)))"

text \<open>
  The inner \<^verbatim>\<open>try\<close> of \<^verbatim>\<open>ExecuteUpdates\<close>: the result, the error message, the savepoint set and what was sent.
\<close>

definition update_block ::
  "sql_env \<Rightarrow> string list \<Rightarrow> string \<Rightarrow> bool \<Rightarrow> nat \<Rightarrow> int \<times> string \<times> string option \<times> sql_event list" where
  "update_block e update_sqls err_msg trans_ctrl seq =
     (let name = ''update_pos'' @ ''_'' @ to_string (int seq);
          body = (\<lambda>sp es. case statement_err e of
             Some m \<Rightarrow> (-2, m, sp, es)
           | None \<Rightarrow> (case run_updates (update_reply e) 0 update_sqls 0 of
               (Inl m, es') \<Rightarrow> (-2, m, sp, es @ es')
             | (Inr res, es') \<Rightarrow> (res, err_msg, sp, es @ es')))
      in if trans_ctrl
         then (case savepoint_err e of Some m \<Rightarrow> (-2, m, None, []) | None \<Rightarrow> body (Some name) [Savepoint name])
         else body None [])"

text \<open>\<^verbatim>\<open>ExecuteUpdates\<close>: the code, the message, the next sequence number and what was sent.\<close>

definition ExecuteUpdates ::
  "sql_env \<Rightarrow> string list \<Rightarrow> string \<Rightarrow> bool \<Rightarrow> int \<Rightarrow> nat \<Rightarrow> int \<times> string \<times> nat \<times> sql_event list" where
  "ExecuteUpdates e update_sqls err_msg trans_ctrl affect_rows seq =
     (if \<not> has_conn e then (-1, ConnectionNull_what, seq, [])
      else let (res, msg, sp, es) = update_block e update_sqls err_msg trans_ctrl seq;
               seq' = (if trans_ctrl then (seq + 1) mod 2 ^ 32 else seq)
           in if \<not> trans_ctrl then (res, msg, seq', es)
              else if 0 \<le> affect_rows \<and> affect_rows \<noteq> res \<or> affect_rows < 0 \<and> res < 0
              then (case rollback_err e of
                  Some m \<Rightarrow> (-2, m, seq', es)
                | None \<Rightarrow> (-3, ''partial statement execution failed'', seq', es @ [RollbackTo sp]))
              else (case commit_err e of
                  Some m \<Rightarrow> (-2, m, seq', es)
                | None \<Rightarrow> (res, msg, seq', es @ [Commit])))"

definition ExecuteInsert :: "sql_env \<Rightarrow> string \<Rightarrow> string \<Rightarrow> int \<times> string \<times> sql_event list" where
  "ExecuteInsert = ExecuteUpdate"

definition ExecuteInserts ::
  "sql_env \<Rightarrow> string list \<Rightarrow> string \<Rightarrow> bool \<Rightarrow> int \<Rightarrow> nat \<Rightarrow> int \<times> string \<times> nat \<times> sql_event list" where
  "ExecuteInserts = ExecuteUpdates"

definition ExecuteDelete :: "sql_env \<Rightarrow> string \<Rightarrow> string \<Rightarrow> int \<times> string \<times> sql_event list" where
  "ExecuteDelete = ExecuteUpdate"

definition ExecuteDeletes ::
  "sql_env \<Rightarrow> string list \<Rightarrow> string \<Rightarrow> bool \<Rightarrow> int \<Rightarrow> nat \<Rightarrow> int \<times> string \<times> nat \<times> sql_event list" where
  "ExecuteDeletes = ExecuteUpdates"

text \<open>\<^verbatim>\<open>msg += e.getErrorCode()\<close> appends the character with that code, not its digits.\<close>

definition ManageException :: "string \<Rightarrow> string \<Rightarrow> int \<Rightarrow> string" where
  "ManageException what state error_code =
     (if error_code \<noteq> 0
      then ''error_msg: '' @ what @ '', SQLState: '' @ state @ '', error_code: '' @ [char_of (nat (error_code mod 256))]
      else [])"

text \<open>\<^verbatim>\<open>EscapeString\<close>: \<open>is_mysql\<close> is whether the cast to the connector's class succeeds.\<close>

definition EscapeString ::
  "sql_env \<Rightarrow> bool \<Rightarrow> (string \<Rightarrow> string + string) \<Rightarrow> string \<Rightarrow> string \<Rightarrow> string \<Rightarrow> bool \<times> string \<times> string" where
  "EscapeString e is_mysql escape dest src err_msg =
     (if \<not> has_conn e then (False, dest, ConnectionNull_what)
      else if \<not> is_mysql then (False, dest, ''failed to convert connection'')
      else case escape src of Inl m \<Rightarrow> (False, dest, m) | Inr d \<Rightarrow> (True, d, err_msg))"

section \<open>Transactions\<close>

text \<open>The statements all succeed with the counts \<open>ns\<close>.\<close>

definition all_succeed :: "sql_env \<Rightarrow> string list \<Rightarrow> int list \<Rightarrow> bool" where
  "all_succeed e sqls ns \<longleftrightarrow> length ns = length sqls \<and> (\<forall>i < length sqls. update_reply e i (sqls ! i) = Inr (ns ! i) \<and> 0 \<le> ns ! i)"

lemma run_updates_ok:
  assumes "\<forall>i < length sqls. f (k + i) (sqls ! i) = Inr (ns ! i) \<and> 0 \<le> ns ! i" and "length ns = length sqls"
    and "0 \<le> res" and "res + sum_list ns < 2 ^ 31"
  shows "run_updates f k sqls res = (Inr (res + sum_list ns), map Exec sqls)"
  using assms
proof (induction sqls arbitrary: k ns res)
  case (Cons s sqls)
  then obtain n ns' where ns: "ns = n # ns'" by (cases ns) auto
  have n: "f k s = Inr n" "0 \<le> n" using Cons.prems(1) ns by (auto dest: spec [of _ 0])
  have rest: "\<forall>i < length sqls. f (Suc k + i) (sqls ! i) = Inr (ns' ! i) \<and> 0 \<le> ns' ! i"
    using Cons.prems(1) ns by (auto dest: spec [of _ "Suc i" for i])
  have "0 \<le> sum_list ns'"
    using rest Cons.prems(2) ns by (intro sum_list_nonneg) (auto simp: in_set_conv_nth)
  then have "wrap32 (res + n) = res + n" using Cons.prems(3,4) ns n by (intro wrap32_id) auto
  then show ?case using Cons.IH [OF rest, of "res + n"] Cons.prems ns n by (simp add: add.assoc)
qed simp

lemma run_updates_fail:
  "i < length sqls \<Longrightarrow> isl (f (k + i) (sqls ! i)) \<Longrightarrow> isl (fst (run_updates f k sqls res))"
proof (induction sqls arbitrary: i k res)
  case (Cons s sqls)
  show ?case
  proof (cases i)
    case 0
    then show ?thesis using Cons.prems by (auto simp: isl_def)
  next
    case (Suc j)
    then show ?thesis
      using Cons.prems Cons.IH [of j "Suc k"] by (cases "f k s") (auto simp: Let_def case_prod_unfold)
  qed
qed simp

lemma run_updates_execs: "set (snd (run_updates f k sqls res)) \<subseteq> Exec ` set sqls"
  by (induction f k sqls res rule: run_updates.induct) (auto simp: Let_def case_prod_unfold split: sum.splits)

lemma update_block_execs:
  "update_block e sqls err tc seq = (res, msg, sp, es) \<Longrightarrow> Commit \<notin> set es \<and> (\<forall>s. RollbackTo s \<notin> set es)"
  using run_updates_execs [of "update_reply e" 0 sqls 0]
  by (auto simp: update_block_def Let_def case_prod_unfold split: if_splits option.splits sum.splits)

lemma update_block_fail:
  assumes "update_block e sqls err tc seq = (res, msg, sp, es)" and "i < length sqls" and "isl (update_reply e i (sqls ! i))"
  shows "res = -2"
  using assms run_updates_fail [of i sqls "update_reply e" 0 0]
  by (auto simp: update_block_def Let_def isl_def case_prod_unfold split: if_splits option.splits sum.splits)

text \<open>
  C33. \<^verbatim>\<open>ExecuteUpdates\<close> in transaction mode is all or nothing as seen from its result: it returns a number of rows
  exactly when it committed, and -3 exactly when it rolled back; a statement that fails excludes the commit.
  When every statement succeeds and the total is the expected one, it commits and returns the total. When
  the savepoint cannot be set, it calls \<^verbatim>\<open>rollback\<close> with a null savepoint.
\<close>

theorem ExecuteUpdates_transaction:
  assumes "ExecuteUpdates e sqls err True affect_rows seq = (res, msg, seq', es)"
  shows "(0 \<le> res \<longleftrightarrow> Commit \<in> set es) \<and> (res = -3 \<longleftrightarrow> (\<exists>sp. RollbackTo sp \<in> set es))
    \<and> (\<forall>i < length sqls. isl (update_reply e i (sqls ! i)) \<longrightarrow> res < 0)
    \<and> (has_conn e \<and> savepoint_err e = None \<and> statement_err e = None \<and> commit_err e = None \<and> all_succeed e sqls ns
       \<and> sum_list ns < 2 ^ 31 \<and> (affect_rows < 0 \<or> affect_rows = sum_list ns)
       \<longrightarrow> res = sum_list ns \<and> es = Savepoint (''update_pos_'' @ to_string (int seq)) # map Exec sqls @ [Commit])
    \<and> (has_conn e \<and> savepoint_err e \<noteq> None \<and> rollback_err e = None \<longrightarrow> es = [RollbackTo None])"
proof (cases "has_conn e")
  case False
  then show ?thesis using assms by (auto simp: ExecuteUpdates_def)
next
  case True
  obtain res1 msg1 sp es1 where b: "update_block e sqls err True seq = (res1, msg1, sp, es1)"
    by (cases "update_block e sqls err True seq") auto
  have es1: "Commit \<notin> set es1" "\<forall>s. RollbackTo s \<notin> set es1" using update_block_execs [OF b] by auto
  have codes: "(0 \<le> res \<longleftrightarrow> Commit \<in> set es) \<and> (res = -3 \<longleftrightarrow> (\<exists>sp. RollbackTo sp \<in> set es))"
    using assms True b es1 by (auto simp: ExecuteUpdates_def Let_def split: if_splits option.splits)
  have fail: "res < 0" if "i < length sqls" "isl (update_reply e i (sqls ! i))" for i
    using update_block_fail [OF b that] assms True b by (auto simp: ExecuteUpdates_def Let_def split: if_splits option.splits)
  have good: "res = sum_list ns \<and> es = Savepoint (''update_pos_'' @ to_string (int seq)) # map Exec sqls @ [Commit]"
    if g: "savepoint_err e = None" "statement_err e = None" "commit_err e = None" "all_succeed e sqls ns"
      "sum_list ns < 2 ^ 31" "affect_rows < 0 \<or> affect_rows = sum_list ns"
  proof -
    have "run_updates (update_reply e) 0 sqls 0 = (Inr (sum_list ns), map Exec sqls)"
      using run_updates_ok [of sqls "update_reply e" 0 ns 0] g(4,5) by (simp add: all_succeed_def)
    moreover have "0 \<le> sum_list ns" using g(4) by (intro sum_list_nonneg) (auto simp: all_succeed_def in_set_conv_nth)
    ultimately show ?thesis using assms True g by (auto simp: ExecuteUpdates_def update_block_def Let_def)
  qed
  have null: "es = [RollbackTo None]" if "savepoint_err e \<noteq> None" "rollback_err e = None"
    using assms True that by (auto simp: ExecuteUpdates_def update_block_def Let_def split: if_splits option.splits)
  show ?thesis using codes fail good null by blast
qed

definition two_rows :: sql_env where
  "two_rows = \<lparr>has_conn = True, savepoint_err = None, statement_err = None, update_reply = (\<lambda>i s. if i < 2 then Inr 1 else Inl ''lost''),
     rollback_err = None, commit_err = None\<rparr>"

lemma two_rows_commit:
  "ExecuteUpdates two_rows [''a'', ''b''] [] True 2 7 = (2, [], 8, [Savepoint ''update_pos_7'', Exec ''a'', Exec ''b'', Commit])"
proof -
  have "to_string 7 = ''7''" by (simp add: to_string_def digits_of.simps [of 7] digit_char_def char_of_def bit_Suc_0_iff)
  then show ?thesis by (simp add: ExecuteUpdates_def update_block_def two_rows_def wrap32_def Let_def)
qed

theorem ExecuteUpdates_transaction_witness:
  "fst (ExecuteUpdates two_rows [''a'', ''b''] [] True 2 7) = 2
   \<and> Commit \<in> set (snd (snd (snd (ExecuteUpdates two_rows [''a'', ''b''] [] True 2 7))))"
  using ExecuteUpdates_transaction [OF two_rows_commit] unfolding two_rows_commit by simp

end
