(* ===== verification/Oss_Client.thy ===== *)
theory Oss_Client
  imports Prelude "HOL-Library.Sublist"
begin

text \<open>
  The object storage client of \<^verbatim>\<open>common/ali_oss_client.h\<close> and \<^verbatim>\<open>common/ali_oss_client.cpp\<close>. The vendor's SDK is an
  input: the outcome of an upload and of the signing of an address.
\<close>

record ClientConfiguration =
  maxConnections :: nat
  requestTimeoutMs :: int
  connectTimeoutMs :: int
  retry_scale_factor :: int
  retry_max_retries :: int

record AliOSSClient =
  access_key_id :: string
  access_key_secret :: string
  oss_endpoint :: string
  buket_name :: string
  dir_name :: string
  oss_conf :: ClientConfiguration
  sdk_log :: "string list"      \<comment> \<open>the calls of \<^verbatim>\<open>InitializeSdk\<close> and \<^verbatim>\<open>ShutdownSdk\<close>\<close>

definition InitConf :: ClientConfiguration where
  "InitConf = \<lparr>maxConnections = 32, requestTimeoutMs = 30000, connectTimeoutMs = 30000,
     retry_scale_factor = 300, retry_max_retries = 5\<rparr>"

definition AliOSSClient_new :: "string \<Rightarrow> string \<Rightarrow> string \<Rightarrow> string \<Rightarrow> string \<Rightarrow> AliOSSClient" where
  "AliOSSClient_new key_id key_secret endpoint bucket dir =
     \<lparr>access_key_id = key_id, access_key_secret = key_secret, oss_endpoint = endpoint, buket_name = bucket,
      dir_name = dir, oss_conf = InitConf, sdk_log = [''InitializeSdk'']\<rparr>"

definition ReinitializeSdk :: "AliOSSClient \<Rightarrow> AliOSSClient" where
  "ReinitializeSdk c = c\<lparr>sdk_log := sdk_log c @ [''ShutdownSdk'', ''InitializeSdk'']\<rparr>"

record oss_env =
  PutObject :: "string \<Rightarrow> string \<Rightarrow> string \<Rightarrow> bool"               \<comment> \<open>bucket, object, content\<close>
  GeneratePresignedUrl :: "string \<Rightarrow> string \<Rightarrow> int \<Rightarrow> string option" \<comment> \<open>bucket, object, expiry\<close>
  ListObjects :: "string \<Rightarrow> string list option"
  oss_time :: int

text \<open>\<^verbatim>\<open>outcome.result().c_str()\<close> ends at the first null character.\<close>

definition GenerateURL :: "oss_env \<Rightarrow> AliOSSClient \<Rightarrow> string \<Rightarrow> string" where
  "GenerateURL e c object_name =
     (case GeneratePresignedUrl e (buket_name c) object_name (oss_time e + 3600 * 24 * 365 * 5) of
        Some url \<Rightarrow> takeWhile (\<lambda>x. x \<noteq> CHR 0x00) url
      | None \<Rightarrow> [])"

definition PutObjectFromMemory :: "oss_env \<Rightarrow> string \<Rightarrow> string \<Rightarrow> AliOSSClient \<Rightarrow> int \<times> string \<times> AliOSSClient" where
  "PutObjectFromMemory e request_id data c =
     (if request_id = [] \<or> data = [] then (-1, [], c)
      else let object_name = dir_name c @ ''/'' @ request_id @ ''.jpg''
           in if \<not> PutObject e (buket_name c) object_name data then (-2, [], ReinitializeSdk c)
              else let url = GenerateURL e c object_name
                   in (if url = [] then -3 else 0, url, c))"

definition ListAllFiles :: "oss_env \<Rightarrow> AliOSSClient \<Rightarrow> string list \<times> AliOSSClient" where
  "ListAllFiles e c = (case ListObjects e (buket_name c) of
     None \<Rightarrow> ([], ReinitializeSdk c) | Some objects \<Rightarrow> (objects, c))"

section \<open>Retry strategy\<close>

record oss_error =
  Status :: int
  Message :: string

text \<open>\<^verbatim>\<open>std::string::find\<close>: the first position of a pattern, \<open>None\<close> for \<^verbatim>\<open>npos\<close>.\<close>

fun str_find :: "string \<Rightarrow> string \<Rightarrow> nat option" where
  "str_find pat [] = (if pat = [] then Some 0 else None)"
| "str_find pat (c # s) = (if take (length pat) (c # s) = pat then Some 0 else map_option Suc (str_find pat s))"

definition ERROR_CURL_BASE :: int where "ERROR_CURL_BASE = 200000"

text \<open>The position is used as a condition: only position zero is false.\<close>

definition shouldRetry :: "ClientConfiguration \<Rightarrow> oss_error \<Rightarrow> int \<Rightarrow> bool" where
  "shouldRetry s err attemped_retries =
     (if retry_max_retries s \<le> attemped_retries then False
      else let response_code = Status err in
        if response_code = 403 \<and> str_find ''RequestTimeTooSkewed'' (Message err) \<noteq> Some 0
           \<or> 499 < response_code \<and> response_code < 599 then True
        else response_code \<in> set (map ((+) ERROR_CURL_BASE) [7, 18, 23, 28, 52, 55, 56]))"

text \<open>\<^verbatim>\<open>1 << attemped_retries\<close> is an \<^verbatim>\<open>int\<close>.\<close>

definition calcDelayTimeMs :: "ClientConfiguration \<Rightarrow> oss_error \<Rightarrow> int \<Rightarrow> int" where
  "calcDelayTimeMs s err attemped_retries = wrap32 (2 ^ nat attemped_retries) * retry_scale_factor s"

lemma take_prefix: "take (length pat) s = pat \<longleftrightarrow> prefix pat s"
  by (metis append_eq_conv_conj append_take_drop_id prefix_def)

lemma str_find_0: "pat \<noteq> [] \<Longrightarrow> str_find pat s = Some 0 \<longleftrightarrow> prefix pat s"
  by (cases s) (auto simp: take_prefix)

lemma str_find_None: "pat \<noteq> [] \<Longrightarrow> str_find pat s = None \<longleftrightarrow> \<not> sublist pat s"
  by (induction s) (auto simp: take_prefix sublist_Cons_right)

section \<open>Properties\<close>

text \<open>
  The strategy the client installs allows at most five retries, and the waits before them are 300, 600, ...,
  4800 milliseconds. A 403 answer is retried unless its message begins with \<^verbatim>\<open>RequestTimeTooSkewed\<close>: the skewed
  clock the condition names is the only case of 403 that can fail to be retried. Of the server errors 500 to
  599, the last is not retried.
\<close>

theorem ClientRetryStrategy_correct:
  "(0 \<le> n \<and> shouldRetry InitConf err n \<longrightarrow> n < 5 \<and> calcDelayTimeMs InitConf err n = 300 * 2 ^ nat n \<and> calcDelayTimeMs InitConf err n \<le> 4800)
   \<and> (n < 5 \<and> Status err = 403 \<longrightarrow> (shouldRetry InitConf err n \<longleftrightarrow> \<not> prefix ''RequestTimeTooSkewed'' (Message err)))
   \<and> (n < 5 \<and> 500 \<le> Status err \<and> Status err \<le> 599 \<longrightarrow> (shouldRetry InitConf err n \<longleftrightarrow> Status err \<noteq> 599))"
proof -
  have "calcDelayTimeMs InitConf err n = 300 * 2 ^ nat n \<and> (2 :: int) ^ nat n \<le> 2 ^ 4" if "0 \<le> n" "n < 5"
  proof -
    have "(2 :: int) ^ nat n \<le> 2 ^ 4" using that by (intro power_increasing) auto
    moreover have "wrap32 (2 ^ nat n) = 2 ^ nat n" using calculation by (intro wrap32_id) (auto intro: order_trans [of _ 0])
    ultimately show ?thesis by (simp add: calcDelayTimeMs_def InitConf_def)
  qed
  then show ?thesis
    by (auto simp: shouldRetry_def InitConf_def str_find_0 Let_def ERROR_CURL_BASE_def split: if_splits)
qed

theorem ClientRetryStrategy_correct_witness:
  "\<not> shouldRetry InitConf \<lparr>Status = 403, Message = ''RequestTimeTooSkewed: clock''\<rparr> 0
   \<and> shouldRetry InitConf \<lparr>Status = 403, Message = ''AccessDenied''\<rparr> 4
   \<and> calcDelayTimeMs InitConf \<lparr>Status = 403, Message = ''AccessDenied''\<rparr> 4 = 4800"
  using ClientRetryStrategy_correct [of 0 "\<lparr>Status = 403, Message = ''RequestTimeTooSkewed: clock''\<rparr>"]
    ClientRetryStrategy_correct [of 4 "\<lparr>Status = 403, Message = ''AccessDenied''\<rparr>"]
  by simp

text \<open>
  \<^verbatim>\<open>PutObjectFromMemory\<close> returns 0 exactly when it delivers an address, -1 exactly for an empty identifier or
  empty data, and restarts the SDK exactly when the upload fails; the object is
  \<^verbatim>\<open><dir>/<request_id>.jpg\<close> and the address is valid for five years of 365 days.
\<close>

theorem PutObjectFromMemory_codes:
  assumes "PutObjectFromMemory e request_id data c = (code, url, c')"
  shows "code \<in> {0, -1, -2, -3} \<and> (code = 0 \<longleftrightarrow> url \<noteq> []) \<and> (code = -1 \<longleftrightarrow> request_id = [] \<or> data = [])
    \<and> (code = -2 \<longleftrightarrow> c' \<noteq> c)
    \<and> (code = 0 \<longrightarrow> PutObject e (buket_name c) (dir_name c @ ''/'' @ request_id @ ''.jpg'') data
        \<and> (\<exists>u. GeneratePresignedUrl e (buket_name c) (dir_name c @ ''/'' @ request_id @ ''.jpg'') (oss_time e + 157680000) = Some u
            \<and> prefix url u))"
proof -
  have "ReinitializeSdk c \<noteq> c"
  proof
    assume "ReinitializeSdk c = c"
    then have "sdk_log (ReinitializeSdk c) = sdk_log c" by simp
    then show False by (simp add: ReinitializeSdk_def)
  qed
  then show ?thesis
    using assms by (auto simp: PutObjectFromMemory_def GenerateURL_def Let_def takeWhile_is_prefix split: if_splits option.splits)
qed

definition demo_oss :: oss_env where
  "demo_oss = \<lparr>PutObject = (\<lambda>b k d. True), GeneratePresignedUrl = (\<lambda>b k t. Some (''http://'' @ b @ ''/'' @ k)),
     ListObjects = (\<lambda>b. Some []), oss_time = 0\<rparr>"

lemma demo_put:
  "PutObjectFromMemory demo_oss ''42'' ''data'' (AliOSSClient_new ''i'' ''s'' ''e'' ''bk'' ''img'')
   = (0, ''http://bk/img/42.jpg'', AliOSSClient_new ''i'' ''s'' ''e'' ''bk'' ''img'')"
  by (simp add: PutObjectFromMemory_def demo_oss_def AliOSSClient_new_def GenerateURL_def)

theorem PutObjectFromMemory_codes_witness:
  "PutObject demo_oss ''bk'' ''img/42.jpg'' ''data'' \<and> prefix ''http://bk/img/42.jpg'' ''http://bk/img/42.jpg''"
  using PutObjectFromMemory_codes [OF demo_put] by (simp add: AliOSSClient_new_def)

end
