(* ===== verification/Apollo.thy ===== *)
theory Apollo
  imports Conf Data_Flow Apollo_Conf
begin

text \<open>
  The configuration client of \<^verbatim>\<open>common/apollo_client.h\<close> and \<^verbatim>\<open>common/apollo_client.cpp\<close> together with the callback
  that \<^verbatim>\<open>init_server.cpp\<close> installs. libcurl and the JSON reader and writer are arguments; the requests are
  numbered, so that each can have its own outcome.
\<close>

section \<open>Look-up by path\<close>

text \<open>\<^verbatim>\<open>DictionaryValue::Get\<close> descends at every dot of the path.\<close>

fun get_pieces :: "string list \<Rightarrow> (string \<times> base_value) list \<Rightarrow> base_value option" where
  "get_pieces [] d = None"
| "get_pieces [k] d = map_of d k"
| "get_pieces (k # ks) d = (case map_of d k of Some (TYPE_DICTIONARY c) \<Rightarrow> get_pieces ks c | _ \<Rightarrow> None)"

definition DictionaryValue_Get :: "string \<Rightarrow> (string \<times> base_value) list \<Rightarrow> base_value option" where
  "DictionaryValue_Get path d = get_pieces (split_pieces (CHR ''.'') [] path) d"

text \<open>\<^verbatim>\<open>std::string v; dict->GetString(path, &v)\<close>: the string stays empty when there is none.\<close>

definition string_at :: "string \<Rightarrow> (string \<times> base_value) list \<Rightarrow> string" where
  "string_at path d = (case DictionaryValue_Get path d of Some (TYPE_STRING s) \<Rightarrow> s | _ \<Rightarrow> [])"

lemma split_pieces_no_delim: "c \<notin> set s \<Longrightarrow> split_pieces c acc s = [acc @ s]"
  by (induction s arbitrary: acc) auto

lemma string_at_plain: "CHR ''.'' \<notin> set k \<Longrightarrow> string_at k d = (case GetString k d of Some s \<Rightarrow> s | None \<Rightarrow> [])"
  by (auto simp: string_at_def DictionaryValue_Get_def split_pieces_no_delim GetString_def split: option.splits base_value.splits)

section \<open>State\<close>

datatype fetch_result =
    NoHandle                          \<comment> \<open>\<^verbatim>\<open>curl_easy_init\<close> fails\<close>
  | CurlFailed                        \<comment> \<open>not \<^verbatim>\<open>CURLE_OK\<close>\<close>
  | Fetched int "string list"         \<comment> \<open>the response code and the pieces handed to \<^verbatim>\<open>OnWriteData\<close>\<close>

record apollo_env =
  fetch :: "nat \<Rightarrow> string \<Rightarrow> fetch_result"
  ap_read :: "string \<Rightarrow> base_value option"
  ap_write :: "base_value \<Rightarrow> string"
  ap_escape :: "string \<Rightarrow> string"

record ApolloClient =
  app_id :: string
  cluster :: string
  config_server_url :: string
  apollo_ip :: string
  notification_map :: "int omap"
  apollo_stopping :: bool
  apollo_stopped :: bool

text \<open>What a poll reads and writes: the client, the configuration store and the statics of the data flow.\<close>

record apollo_state =
  client :: ApolloClient
  store :: conf
  flow :: dataflow_static
  requests :: nat              \<comment> \<open>HTTP requests made so far\<close>

definition ApolloClient_new :: "string \<Rightarrow> string \<Rightarrow> string \<Rightarrow> string \<Rightarrow> ApolloClient" where
  "ApolloClient_new app_id' cluster' url ip =
     \<lparr>app_id = app_id', cluster = cluster', config_server_url = url, apollo_ip = ip,
      notification_map = map_assign ''application'' (-1) (map_assign ''datawork-common'' (-1) []),
      apollo_stopping = False, apollo_stopped = False\<rparr>"

section \<open>The callback\<close>

definition update_conf :: "(string \<times> base_value) list \<Rightarrow> string \<Rightarrow> conf \<Rightarrow> conf" where
  "update_conf data_dict key params = snd (SetValue key (string_at key data_dict) params)"

text \<open>
  \<^verbatim>\<open>KafkaClient::GetInstance()->Topic() = topic\<close> is an assignment without a check, whereas \<^verbatim>\<open>SetValue\<close> refuses
  an empty value.
\<close>

definition apollo_callback :: "string \<Rightarrow> (string \<times> base_value) list \<Rightarrow> apollo_state \<Rightarrow> apollo_state" where
  "apollo_callback name_space data_dict s =
     (if name_space = ''datawork-common'' then
        let kafka_host = string_at ''kafka-bootstrap-servers'' data_dict;
            params = snd (SetValue APOLLO_COMMON_DF_HOST kafka_host (store s));
            type = GetValue CONF_SERVICE_TYPE ''other'' params;
            topic = string_at type data_dict;
            params = snd (SetValue APOLLO_COMMON_DF_TOPIC topic params)
        in s\<lparr>store := params, flow := (snd (GetInstance (flow s)))\<lparr>p_instance := Some \<lparr>m_topic = topic\<rparr>\<rparr>\<rparr>
      else if name_space = ''application'' then
        s\<lparr>store := fold (update_conf data_dict) application_keys (store s)\<rparr>
      else s)"

section \<open>Requests\<close>

definition response_body :: "string list \<Rightarrow> string" where
  "response_body chunks = concat chunks"

definition UNCachedHTTPGet :: "apollo_env \<Rightarrow> string \<Rightarrow> apollo_state \<Rightarrow> apollo_state" where
  "UNCachedHTTPGet e name_space s =
     (let c = client s;
          url = config_server_url c @ ''/configs/'' @ app_id c @ ''/'' @ cluster c @ ''/'' @ name_space @ ''/?ip='' @ apollo_ip c;
          s' = s\<lparr>requests := requests s + 1\<rparr>
      in case fetch e (requests s) url of
           Fetched res_code chunks \<Rightarrow>
             if res_code \<noteq> 200 then s'
             else (case ap_read e (response_body chunks) of
                 Some (TYPE_DICTIONARY root_dict) \<Rightarrow>
                   (case map_of root_dict ''configurations'' of
                      Some (TYPE_DICTIONARY data_dict) \<Rightarrow> apollo_callback name_space data_dict s'
                    | _ \<Rightarrow> s')
               | _ \<Rightarrow> s')
         | _ \<Rightarrow> s')"

definition poll_body :: "int omap \<Rightarrow> base_value" where
  "poll_body m = TYPE_LIST (map (\<lambda>(k, i). TYPE_DICTIONARY
     (map_assign ''notificationId'' (TYPE_INTEGER i) (map_assign ''namespaceName'' (TYPE_STRING k) []))) m)"

definition poll_url :: "apollo_env \<Rightarrow> ApolloClient \<Rightarrow> string" where
  "poll_url e c = config_server_url c @ ''/notifications/v2'' @ ''?appId='' @ app_id c @ ''&cluster='' @ cluster c
     @ ''&notifications='' @ ap_escape e (ap_write e (poll_body (notification_map c)))"

text \<open>The loop over the answer: each name space is fetched, and its number stored whatever came of it.\<close>

fun poll_nodes :: "apollo_env \<Rightarrow> base_value list \<Rightarrow> apollo_state \<Rightarrow> apollo_state" where
  "poll_nodes e [] s = s"
| "poll_nodes e (TYPE_DICTIONARY d # vs) s =
     (let namespace_name = (case GetString ''namespaceName'' d of Some n \<Rightarrow> n | None \<Rightarrow> []);
          notification_id = (case GetInteger ''notificationId'' d of Some i \<Rightarrow> i | None \<Rightarrow> -1);
          s = UNCachedHTTPGet e namespace_name s
      in poll_nodes e vs (s\<lparr>client := (client s)\<lparr>notification_map :=
             map_assign namespace_name notification_id (notification_map (client s))\<rparr>\<rparr>))"
| "poll_nodes e (v # vs) s = poll_nodes e vs s"

definition LongPoll :: "apollo_env \<Rightarrow> apollo_state \<Rightarrow> apollo_state" where
  "LongPoll e s =
     (let s' = s\<lparr>requests := requests s + 1\<rparr>
      in case fetch e (requests s) (poll_url e (client s)) of
           Fetched res_code chunks \<Rightarrow>
             if res_code \<noteq> 200 then s'
             else (case ap_read e (response_body chunks) of Some (TYPE_LIST root_list) \<Rightarrow> poll_nodes e root_list s' | _ \<Rightarrow> s')
         | _ \<Rightarrow> s')"

text \<open>
  The listener thread polls until \<^verbatim>\<open>_stopping\<close> is seen: \<open>stop_at\<close> is the number of polls after which \<^verbatim>\<open>Stop\<close> was
  called.
\<close>

fun Listener :: "apollo_env \<Rightarrow> nat \<Rightarrow> apollo_state \<Rightarrow> apollo_state" where
  "Listener e 0 s = s\<lparr>client := (client s)\<lparr>apollo_stopping := True, apollo_stopped := True\<rparr>\<rparr>"
| "Listener e (Suc n) s = Listener e n (LongPoll e s)"

definition Start :: "apollo_env \<Rightarrow> nat \<Rightarrow> apollo_state \<Rightarrow> apollo_state" where
  "Start e polls s = Listener e polls (LongPoll e s)"

section \<open>What a poll changes\<close>

lemma update_conf_all:
  "GetValue k dv (fold (update_conf d) application_keys p)
   = (if k \<in> set application_keys \<and> string_at k d \<noteq> [] then string_at k d else GetValue k dv p)"
  using conf.get_put_all [of k dv "\<lambda>k. string_at k d" application_keys p] application_keys_distinct
  by (auto simp: update_conf_def [abs_def])

lemma apollo_callback_frame:
  "client (apollo_callback ns d s) = client s" "requests (apollo_callback ns d s) = requests s"
  by (simp_all add: apollo_callback_def Let_def)

lemma UNCachedHTTPGet_client: "client (UNCachedHTTPGet e ns s) = client s"
  by (auto simp: UNCachedHTTPGet_def Let_def apollo_callback_frame split: fetch_result.splits option.splits base_value.splits)

definition config_url :: "ApolloClient \<Rightarrow> string \<Rightarrow> string" where
  "config_url c ns = config_server_url c @ ''/configs/'' @ app_id c @ ''/'' @ cluster c @ ''/'' @ ns @ ''/?ip='' @ apollo_ip c"

text \<open>The configuration a fetch delivers, if it delivers one.\<close>

definition delivered :: "apollo_env \<Rightarrow> fetch_result \<Rightarrow> (string \<times> base_value) list option" where
  "delivered e r = (case r of
     Fetched res_code chunks \<Rightarrow>
       if res_code \<noteq> 200 then None
       else (case ap_read e (response_body chunks) of
           Some (TYPE_DICTIONARY m) \<Rightarrow> (case map_of m ''configurations'' of Some (TYPE_DICTIONARY d) \<Rightarrow> Some d | _ \<Rightarrow> None)
         | _ \<Rightarrow> None)
   | _ \<Rightarrow> None)"

lemma UNCachedHTTPGet_delivered:
  "UNCachedHTTPGet e ns s = (case delivered e (fetch e (requests s) (config_url (client s) ns)) of
     None \<Rightarrow> s\<lparr>requests := requests s + 1\<rparr> | Some d \<Rightarrow> apollo_callback ns d (s\<lparr>requests := requests s + 1\<rparr>))"
  by (simp add: UNCachedHTTPGet_def delivered_def config_url_def Let_def split: fetch_result.splits option.splits base_value.splits)

text \<open>The one notification an answer carries.\<close>

definition notified :: "apollo_env \<Rightarrow> fetch_result \<Rightarrow> string \<Rightarrow> int \<Rightarrow> bool" where
  "notified e r ns i \<longleftrightarrow> (\<exists>chunks d. r = Fetched 200 chunks \<and> ap_read e (response_body chunks) = Some (TYPE_LIST [TYPE_DICTIONARY d])
     \<and> GetString ''namespaceName'' d = Some ns \<and> GetInteger ''notificationId'' d = Some i)"

lemma LongPoll_notified:
  assumes "notified e (fetch e (requests s) (poll_url e (client s))) ns i"
  shows "LongPoll e s = (let t = UNCachedHTTPGet e ns (s\<lparr>requests := requests s + 1\<rparr>)
    in t\<lparr>client := (client t)\<lparr>notification_map := map_assign ns i (notification_map (client t))\<rparr>\<rparr>)"
  using assms by (auto simp: notified_def LongPoll_def Let_def)

text \<open>
  C26. A poll that announces a change of the name space \<^verbatim>\<open>application\<close> gives every key of the service the value that
  Apollo delivers, except that an empty or missing value leaves the old one, and touches no other key. If
  the fetch of the values fails, the store stays as it was but the notification number is stored all the
  same: the next polls tell the server that the change is known, and it is not delivered again.
\<close>

theorem LongPoll_refresh:
  assumes "notified e (fetch e (requests s) (poll_url e (client s))) ''application'' i"
    and "omap_wf (notification_map (client s))"
  shows "(\<forall>d. delivered e (fetch e (requests s + 1) (config_url (client s) ''application'')) = Some d \<longrightarrow>
      (\<forall>k dv. GetValue k dv (store (LongPoll e s))
        = (if k \<in> set application_keys \<and> string_at k d \<noteq> [] then string_at k d else GetValue k dv (store s))))
    \<and> (delivered e (fetch e (requests s + 1) (config_url (client s) ''application'')) = None \<longrightarrow> store (LongPoll e s) = store s)
    \<and> map_of (notification_map (client (LongPoll e s))) ''application'' = Some i"
proof -
  let ?t = "UNCachedHTTPGet e ''application'' (s\<lparr>requests := requests s + 1\<rparr>)"
  have poll: "store (LongPoll e s) = store ?t"
    "notification_map (client (LongPoll e s)) = map_assign ''application'' i (notification_map (client s))"
    by (simp_all add: LongPoll_notified [OF assms(1)] UNCachedHTTPGet_client Let_def)
  have "store ?t = (case delivered e (fetch e (requests s + 1) (config_url (client s) ''application'')) of
      None \<Rightarrow> store s | Some d \<Rightarrow> fold (update_conf d) application_keys (store s))"
    by (simp add: UNCachedHTTPGet_delivered apollo_callback_def split: option.splits)
  then show ?thesis using assms(2) by (auto simp: poll update_conf_all)
qed

section \<open>An example\<close>

definition change_node :: base_value where
  "change_node = TYPE_LIST [TYPE_DICTIONARY [(''namespaceName'', TYPE_STRING ''application''), (''notificationId'', TYPE_INTEGER 5)]]"

text \<open>The server announces a change and then fails to deliver it.\<close>

definition flaky_env :: apollo_env where
  "flaky_env = \<lparr>fetch = (\<lambda>n url. if n = 0 then Fetched 200 [''change''] else CurlFailed),
     ap_read = (\<lambda>t. if t = ''change'' then Some change_node else None), ap_write = (\<lambda>v. []), ap_escape = (\<lambda>t. t)\<rparr>"

definition fresh_apollo :: apollo_state where
  "fresh_apollo = \<lparr>client = ApolloClient_new ''id'' ''default'' ''http://a'' ''1.2.3.4'', store = Map.empty,
     flow = dataflow_initial, requests = 0\<rparr>"

theorem LongPoll_refresh_witness:
  "store (LongPoll flaky_env fresh_apollo) = Map.empty
   \<and> map_of (notification_map (client (LongPoll flaky_env fresh_apollo))) ''application'' = Some 5"
proof -
  have "notified flaky_env (fetch flaky_env (requests fresh_apollo) (poll_url flaky_env (client fresh_apollo))) ''application'' 5"
    by (simp add: notified_def flaky_env_def fresh_apollo_def change_node_def response_body_def GetString_def GetInteger_def)
  moreover have "omap_wf (notification_map (client fresh_apollo))"
    unfolding fresh_apollo_def ApolloClient_new_def apollo_state.simps ApolloClient.simps by (intro omap_wf_assign omap_wf_Nil)
  ultimately show ?thesis
    using LongPoll_refresh [of flaky_env fresh_apollo 5] by (simp add: delivered_def flaky_env_def fresh_apollo_def)
qed

end
