(* ===== verification/Init_Server.thy ===== *)
theory Init_Server
  imports Apollo
begin

text \<open>
  Start-up and shut-down of the service: \<^verbatim>\<open>init_server.h\<close>, \<^verbatim>\<open>init_server.cpp\<close> and \<^verbatim>\<open>service_main.cpp\<close>. The optional
  components (object storage, MySQL, Redis, the lock) appear with the arguments their singletons were
  created with; \<^verbatim>\<open>std::call_once\<close> makes only the first creation count.
\<close>

datatype CURRENT_ENV = LOCAL_ENV | TEST_ENV | PRE_ENV | PROD_ENV

text \<open>How a step of the start-up ends: it returns, waits forever, exits, or an exception leaves \<^verbatim>\<open>main\<close>.\<close>

datatype 'a startup = Running 'a | Waits | Exits | Uncaught conf_error

fun sbind :: "'a startup \<Rightarrow> ('a \<Rightarrow> 'b startup) \<Rightarrow> 'b startup" where
  "sbind (Running x) f = f x"
| "sbind Waits f = Waits"
| "sbind Exits f = Exits"
| "sbind (Uncaught x) f = Uncaught x"

fun conf_result :: "conf_error + int \<Rightarrow> int startup" where
  "conf_result (Inr i) = Running i"
| "conf_result (Inl x) = Uncaught x"

lemma sbind_Running: "sbind m f = Running y \<longleftrightarrow> (\<exists>x. m = Running x \<and> f x = Running y)"
  by (cases m) auto

record server =
  ap :: apollo_state
  g_current_env :: CURRENT_ENV
  oss_instance :: "(string \<times> string \<times> string \<times> string \<times> string) option"
  mysql_instance :: "(string \<times> string \<times> string \<times> string \<times> nat) option"
  redis_instance :: "(string \<times> int \<times> string \<times> nat \<times> nat) option"
  lock_instance :: "(int \<times> int) option"
  eureka_instance :: "(string \<times> int \<times> string \<times> string \<times> string \<times> int) option"

section \<open>Environment\<close>

text \<open>The environment of a process does not change by itself: a missing variable is waited for forever.\<close>

definition GetCurrentEnv :: "(string \<Rightarrow> string option) \<Rightarrow> CURRENT_ENV startup" where
  "GetCurrentEnv getenv = (case getenv ''CURRENT_ENV'' of
     None \<Rightarrow> Waits
   | Some v \<Rightarrow> if v = ''LOCAL'' then Running LOCAL_ENV else if v = ''TEST'' then Running TEST_ENV
               else if v = ''PRE'' then Running PRE_ENV else if v = ''PROD'' then Running PROD_ENV else Exits)"

fun read_env_items :: "(string \<Rightarrow> string option) \<Rightarrow> string list \<Rightarrow> conf \<Rightarrow> conf startup" where
  "read_env_items getenv [] p = Running p"
| "read_env_items getenv (item # items) p = (case getenv item of
     None \<Rightarrow> Waits
   | Some v \<Rightarrow> read_env_items getenv items (snd (SetValue item v p)))"

definition ReadEnvConfig :: "(string \<Rightarrow> string option) \<Rightarrow> conf \<Rightarrow> conf startup" where
  "ReadEnvConfig getenv p = read_env_items getenv ENV_CONF_ITERM p"

text \<open>\<^verbatim>\<open>rfind("-")\<close>, the assertion \<^verbatim>\<open>index > 0\<close> (\<open>None\<close> when it fails) and the prefix up to it.\<close>

definition cut_last :: "string \<Rightarrow> string option" where
  "cut_last s = (let front = rev (tl (dropWhile (\<lambda>c. c \<noteq> CHR ''-'') (rev s)))
     in if CHR ''-'' \<in> set s \<and> front \<noteq> [] then Some front else None)"

definition GetHostName :: "string \<Rightarrow> string option" where
  "GetHostName hname = Option.bind (cut_last hname) cut_last"

section \<open>Components\<close>

definition get_str :: "string \<Rightarrow> server \<Rightarrow> string" where
  "get_str key s = GetValue key [] (store (ap s))"

definition get_int :: "string \<Rightarrow> int \<Rightarrow> server \<Rightarrow> int startup" where
  "get_int key def_val s = conf_result (GetValue_int key def_val (store (ap s)))"

definition to_unsigned :: "int \<Rightarrow> nat" where
  "to_unsigned i = nat (i mod 2 ^ 32)"

definition ConnectApollo :: "apollo_env \<Rightarrow> string \<Rightarrow> server \<Rightarrow> server startup" where
  "ConnectApollo e ip s =
     (let apollo_host = get_str CONF_APOLLO_HOST s; apollo_app_id = get_str CONF_APOLLO_APPLICATION s
      in if apollo_host = [] \<or> apollo_app_id = [] then Exits
         else Running (s\<lparr>ap := LongPoll e ((ap s)\<lparr>client := ApolloClient_new apollo_app_id ''default'' apollo_host ip\<rparr>)\<rparr>))"

definition InitKafka :: "server \<Rightarrow> server" where
  "InitKafka s =
     (let f = Init (get_str APOLLO_COMMON_DF_HOST s) (get_str APOLLO_COMMON_DF_TOPIC s) (snd (GetInstance (flow (ap s))));
          f = SetApiType (get_str APOLLO_LOCAL_API_TYPE s) f;
          f = SetBizType (GetValue CONF_SERVICE_TYPE ''other'' (store (ap s))) f
      in s\<lparr>ap := (ap s)\<lparr>flow := f\<rparr>\<rparr>)"

definition InitAliOSS :: "server \<Rightarrow> server" where
  "InitAliOSS s =
     (let endpoint = get_str APOLLO_OSS_ENDPOINT s
      in if endpoint = [] then s
         else s\<lparr>oss_instance := Some (get_str APOLLO_OSS_ACCESS_KEY_ID s, get_str APOLLO_OSS_ACCESS_KEY_SECRET s, endpoint,
                 get_str APOLLO_OSS_BUKETNAME s, get_str APOLLO_OSS_DIR s)\<rparr>)"

definition InitMySQLConn :: "nat \<Rightarrow> server \<Rightarrow> server startup" where
  "InitMySQLConn pool_size s =
     (let host = get_str APOLLO_MYSQL_HOST s
      in if host = [] then Running s
         else sbind (if pool_size = 0 then get_int APOLLO_MYSQL_POOLSIZE 16 s else Running (int pool_size)) (\<lambda>size.
           Running (s\<lparr>mysql_instance := Some (host, get_str APOLLO_MYSQL_USER s, get_str APOLLO_MYSQL_PW s,
             get_str APOLLO_MYSQL_DBNAME s, to_unsigned size)\<rparr>)))"

definition InitRedisConn :: "nat \<Rightarrow> server \<Rightarrow> server startup" where
  "InitRedisConn pool_size s =
     (let host = get_str APOLLO_REDIS_HOST s
      in if host = [] then Running s
         else sbind (get_int APOLLO_REDIS_PORT 6379 s) (\<lambda>port.
              sbind (get_int APOLLO_REDIS_DB 0 s) (\<lambda>db_num.
              sbind (if pool_size = 0 then get_int APOLLO_REDIS_POOLSIZE 64 s else Running (int pool_size)) (\<lambda>size.
           Running (s\<lparr>redis_instance := Some (host, port, get_str APOLLO_REDIS_PW s, to_unsigned db_num, to_unsigned size)\<rparr>)))))"

definition InitDistributeLock :: "server \<Rightarrow> server startup" where
  "InitDistributeLock s =
     sbind (get_int APOLLO_DIST_LOCK_RETRY_COUNT (-1) s) (\<lambda>retry_count.
     sbind (get_int APOLLO_DIST_LOCK_INTERVAL (-1) s) (\<lambda>interval.
       Running (if retry_count = -1 \<or> interval = -1 then s else s\<lparr>lock_instance := Some (retry_count, interval)\<rparr>)))"

text \<open>\<^verbatim>\<open>InitLog\<close> and \<^verbatim>\<open>InitDumpFile\<close> change nothing of this state.\<close>

definition InitService :: "(string \<Rightarrow> string option) \<Rightarrow> apollo_env \<Rightarrow> string \<Rightarrow> server \<Rightarrow> server startup" where
  "InitService getenv e ip s =
     sbind (GetCurrentEnv getenv) (\<lambda>env.
     sbind (ReadEnvConfig getenv (store (ap s))) (\<lambda>p.
     sbind (ConnectApollo e ip (s\<lparr>g_current_env := env, ap := (ap s)\<lparr>store := p\<rparr>\<rparr>)) (\<lambda>s.
     sbind (InitMySQLConn 0 (InitAliOSS (InitKafka s))) (\<lambda>s.
     sbind (InitRedisConn 0 s) InitDistributeLock))))"

definition server_initial :: server where
  "server_initial = \<lparr>ap = \<lparr>client = ApolloClient_new [] [] [] [], store = Map.empty, flow = dataflow_initial, requests = 0\<rparr>,
     g_current_env = LOCAL_ENV, oss_instance = None, mysql_instance = None, redis_instance = None, lock_instance = None,
     eureka_instance = None\<rparr>"

section \<open>Listening and shutting down\<close>

text \<open>\<^verbatim>\<open>ConnectEureka\<close>: the host name is taken apart before the environment is looked at.\<close>

definition ConnectEureka :: "string \<Rightarrow> server \<Rightarrow> server startup" where
  "ConnectEureka hname s =
     sbind (get_int APOLLO_LOCAL_SERVICE_PORT 8889 s) (\<lambda>service_port.
     sbind (get_int APOLLO_PAAS_EUREKA_PORT 0 s) (\<lambda>eureka_port.
       case GetHostName hname of
         None \<Rightarrow> Exits
       | Some server_host \<Rightarrow>
           if g_current_env s = LOCAL_ENV then Running s
           else Running (s\<lparr>eureka_instance := Some (get_str APOLLO_PAAS_EUREKA_HOST s, eureka_port,
                  get_str APOLLO_PAAS_EUREKA_URL s, get_str APOLLO_PAAS_EUREKA_APP_NAME s, server_host, service_port)\<rparr>)))"

definition ReleaseEureka :: "server \<Rightarrow> server" where
  "ReleaseEureka s = (if g_current_env s = LOCAL_ENV then s else s\<lparr>eureka_instance := None\<rparr>)"

definition ReleaseService :: "server \<Rightarrow> server" where
  "ReleaseService s = (ReleaseEureka s)\<lparr>oss_instance := None, redis_instance := None, lock_instance := None\<rparr>"

datatype HTTP_METHOD = POST | PUT | GET | UPDATE

definition main_routes :: "(string \<times> HTTP_METHOD) list" where
  "main_routes = [(''/welcome'', GET), (''/'', POST)]"

definition welcome_text :: string where "welcome_text = ''welcome to micro service''"

section \<open>Host names\<close>

lemma cut_last_append: "CHR ''-'' \<notin> set b \<Longrightarrow> cut_last (a @ ''-'' @ b) = (if a = [] then None else Some a)"
proof -
  assume "CHR ''-'' \<notin> set b"
  then have "dropWhile (\<lambda>c. c \<noteq> CHR ''-'') (rev b @ ''-'' @ rev a) = ''-'' @ rev a"
    by (subst dropWhile_append2) auto
  then show ?thesis by (simp add: cut_last_def)
qed

text \<open>
  On a pod named \<^verbatim>\<open><deployment>-<set>-<pod>\<close>, \<^verbatim>\<open>GetHostName\<close> yields the name of the deployment. On a name with
  fewer than two hyphens it fails its assertion, and \<^verbatim>\<open>ConnectEureka\<close> calls it before it looks at the
  environment: the service does not come up on such a host, not even in the local environment.
\<close>

theorem GetHostName_pod:
  "(a \<noteq> [] \<and> CHR ''-'' \<notin> set b \<and> CHR ''-'' \<notin> set c \<longrightarrow> GetHostName (a @ ''-'' @ b @ ''-'' @ c) = Some a)
   \<and> (length (filter (\<lambda>x. x = CHR ''-'') h) < 2 \<longrightarrow> GetHostName h = None \<and> (\<forall>s t. ConnectEureka h s \<noteq> Running t))"
proof (intro conjI impI)
  assume "a \<noteq> [] \<and> CHR ''-'' \<notin> set b \<and> CHR ''-'' \<notin> set c"
  then show "GetHostName (a @ ''-'' @ b @ ''-'' @ c) = Some a"
    using cut_last_append [of c "a @ ''-'' @ b"] cut_last_append [of b a] by (simp add: GetHostName_def)
next
  assume few: "length (filter (\<lambda>x. x = CHR ''-'') h) < 2"
  have none: "GetHostName h = None"
  proof (cases "CHR ''-'' \<in> set h")
    case True
    then obtain a b where h: "h = a @ ''-'' @ b" "CHR ''-'' \<notin> set b" using split_list_last [OF True] by auto
    with few have "filter (\<lambda>x. x = CHR ''-'') a = []" by simp
    then have "CHR ''-'' \<notin> set a" by (auto simp: filter_empty_conv)
    then show ?thesis using h cut_last_append [of b a] by (simp add: GetHostName_def) (simp add: cut_last_def)
  qed (simp add: GetHostName_def cut_last_def)
  then show "GetHostName h = None" .
  show "\<forall>s t. ConnectEureka h s \<noteq> Running t"
    by (auto simp: ConnectEureka_def sbind_Running none)
qed

theorem GetHostName_pod_witness:
  "GetHostName ''nudity-detect-6f5b-x2x'' = Some ''nudity-detect'' \<and> GetHostName ''localhost'' = None"
  using GetHostName_pod [of "''nudity-detect''" "''6f5b''" "''x2x''" "''localhost''"] by simp

section \<open>Starting without Apollo\<close>

lemma Init_keeps: "p_producer f \<noteq> None \<Longrightarrow> p_producer (Init h t f) = p_producer f"
  by (auto simp: Init_def Let_def)

lemma GetInstance_producer [simp]: "p_producer (snd (GetInstance f)) = p_producer f"
  by (simp add: GetInstance_def Let_def split: option.splits)

lemma callback_producer: "p_producer (flow (apollo_callback ns d s)) = p_producer (flow s)"
  by (simp add: apollo_callback_def Let_def)

lemma UNCachedHTTPGet_producer: "p_producer (flow (UNCachedHTTPGet e ns s)) = p_producer (flow s)"
  by (simp add: UNCachedHTTPGet_delivered callback_producer split: option.splits)

lemma poll_nodes_producer: "p_producer (flow (poll_nodes e vs s)) = p_producer (flow s)"
  by (induction e vs s rule: poll_nodes.induct) (simp_all add: UNCachedHTTPGet_producer Let_def)

lemma LongPoll_producer: "p_producer (flow (LongPoll e s)) = p_producer (flow s)"
  by (simp add: LongPoll_def poll_nodes_producer Let_def split: fetch_result.splits option.splits base_value.splits)

lemma Listener_producer: "p_producer (flow (Listener e n s)) = p_producer (flow s)"
  by (induction e n s rule: Listener.induct) (simp_all add: LongPoll_producer)

definition env_ready :: "(string \<Rightarrow> string option) \<Rightarrow> CURRENT_ENV \<Rightarrow> string \<Rightarrow> string \<Rightarrow> string \<Rightarrow> bool" where
  "env_ready getenv env host app type \<longleftrightarrow> GetCurrentEnv getenv = Running env \<and> getenv CONF_APOLLO_HOST = Some host
     \<and> getenv CONF_APOLLO_APPLICATION = Some app \<and> getenv CONF_SERVICE_TYPE = Some type \<and> host \<noteq> [] \<and> app \<noteq> [] \<and> type \<noteq> []"

definition env_store :: "string \<Rightarrow> string \<Rightarrow> string \<Rightarrow> conf" where
  "env_store host app type = [CONF_APOLLO_HOST \<mapsto> host, CONF_APOLLO_APPLICATION \<mapsto> app, CONF_SERVICE_TYPE \<mapsto> type]"

text \<open>The state in which the first poll runs.\<close>

definition before_poll :: "CURRENT_ENV \<Rightarrow> string \<Rightarrow> string \<Rightarrow> string \<Rightarrow> string \<Rightarrow> apollo_state" where
  "before_poll env host app type ip =
     \<lparr>client = ApolloClient_new app ''default'' host ip, store = env_store host app type, flow = dataflow_initial, requests = 0\<rparr>"

lemma InitService_poll:
  assumes "env_ready getenv env host app type"
  shows "InitService getenv e ip server_initial =
    sbind (InitMySQLConn 0 (InitAliOSS (InitKafka (server_initial\<lparr>g_current_env := env, ap := LongPoll e (before_poll env host app type ip)\<rparr>))))
      (\<lambda>s. sbind (InitRedisConn 0 s) InitDistributeLock)"
proof -
  have "ReadEnvConfig getenv Map.empty = Running (env_store host app type)"
    using assms by (simp add: env_ready_def ReadEnvConfig_def ENV_CONF_ITERM_def SetValue_def env_store_def apollo_names)
  moreover have "env_store host app type CONF_APOLLO_HOST = Some host" "env_store host app type CONF_APOLLO_APPLICATION = Some app"
    by (simp_all add: env_store_def apollo_names)
  ultimately show ?thesis
    using assms by (simp add: InitService_def env_ready_def server_initial_def ConnectApollo_def get_str_def GetValue_def before_poll_def)
qed

lemma env_store_None: "k \<in> set application_keys \<union> {APOLLO_COMMON_DF_HOST, APOLLO_COMMON_DF_TOPIC} \<Longrightarrow> env_store host app type k = None"
  by (auto simp: application_keys_def apollo_items apollo_names env_store_def)

lemma key_membership:
  "APOLLO_OSS_ENDPOINT \<in> set application_keys" "APOLLO_MYSQL_HOST \<in> set application_keys" "APOLLO_REDIS_HOST \<in> set application_keys"
  "APOLLO_MYSQL_USER \<in> set application_keys" "APOLLO_MYSQL_PW \<in> set application_keys" "APOLLO_MYSQL_DBNAME \<in> set application_keys"
  "APOLLO_MYSQL_POOLSIZE \<in> set application_keys" "APOLLO_REDIS_PORT \<in> set application_keys" "APOLLO_REDIS_PW \<in> set application_keys"
  "APOLLO_REDIS_DB \<in> set application_keys" "APOLLO_REDIS_POOLSIZE \<in> set application_keys"
  "APOLLO_OSS_ACCESS_KEY_ID \<in> set application_keys" "APOLLO_OSS_ACCESS_KEY_SECRET \<in> set application_keys"
  "APOLLO_OSS_BUKETNAME \<in> set application_keys" "APOLLO_OSS_DIR \<in> set application_keys"
  "APOLLO_DIST_LOCK_RETRY_COUNT \<in> set application_keys" "APOLLO_DIST_LOCK_INTERVAL \<in> set application_keys"
  by (simp_all add: application_keys_def APOLLO_BASE_CONF_ITEM_def APOLLO_OSS_CONF_ITEM_def APOLLO_REDIS_CONF_ITEM_def
      APOLLO_MYSQL_CONF_ITEM_def APOLLO_DIST_LOCK_CONF_ITEM_def)

lemma InitKafka_store [simp]: "store (ap (InitKafka s)) = store (ap s)" "g_current_env (InitKafka s) = g_current_env s"
  "oss_instance (InitKafka s) = oss_instance s" "mysql_instance (InitKafka s) = mysql_instance s"
  "redis_instance (InitKafka s) = redis_instance s" "lock_instance (InitKafka s) = lock_instance s"
  by (simp_all add: InitKafka_def Let_def)

text \<open>What the initialisers read, for a store that has nothing but the values of \<open>d\<close>.\<close>

definition int_at :: "string \<Rightarrow> int \<Rightarrow> (string \<times> base_value) list \<Rightarrow> conf_error + int" where
  "int_at k dv d = (if string_at k d = [] then Inr dv else stoi (string_at k d))"

definition store_of :: "(string \<times> base_value) list \<Rightarrow> conf \<Rightarrow> bool" where
  "store_of d p \<longleftrightarrow> (\<forall>k \<in> set application_keys. p k = (if string_at k d = [] then None else Some (string_at k d)))"

lemma get_str_of: "store_of d (store (ap s)) \<Longrightarrow> k \<in> set application_keys \<Longrightarrow> get_str k s = string_at k d"
  by (auto simp: store_of_def get_str_def GetValue_def)

lemma get_int_of: "store_of d (store (ap s)) \<Longrightarrow> k \<in> set application_keys \<Longrightarrow> get_int k dv s = conf_result (int_at k dv d)"
  by (auto simp: store_of_def get_int_def GetValue_int_def int_at_def)

text \<open>The components a configuration calls for.\<close>

definition oss_of :: "(string \<times> base_value) list \<Rightarrow> (string \<times> string \<times> string \<times> string \<times> string) option" where
  "oss_of d = (if string_at APOLLO_OSS_ENDPOINT d = [] then None
     else Some (string_at APOLLO_OSS_ACCESS_KEY_ID d, string_at APOLLO_OSS_ACCESS_KEY_SECRET d, string_at APOLLO_OSS_ENDPOINT d,
       string_at APOLLO_OSS_BUKETNAME d, string_at APOLLO_OSS_DIR d))"

definition mysql_of :: "(string \<times> base_value) list \<Rightarrow> int \<Rightarrow> (string \<times> string \<times> string \<times> string \<times> nat) option" where
  "mysql_of d pool = (if string_at APOLLO_MYSQL_HOST d = [] then None
     else Some (string_at APOLLO_MYSQL_HOST d, string_at APOLLO_MYSQL_USER d, string_at APOLLO_MYSQL_PW d,
       string_at APOLLO_MYSQL_DBNAME d, to_unsigned pool))"

definition redis_of :: "(string \<times> base_value) list \<Rightarrow> int \<Rightarrow> int \<Rightarrow> int \<Rightarrow> (string \<times> int \<times> string \<times> nat \<times> nat) option" where
  "redis_of d port db pool = (if string_at APOLLO_REDIS_HOST d = [] then None
     else Some (string_at APOLLO_REDIS_HOST d, port, string_at APOLLO_REDIS_PW d, to_unsigned db, to_unsigned pool))"

definition lock_of :: "int \<Rightarrow> int \<Rightarrow> (int \<times> int) option" where
  "lock_of retry_count interval = (if retry_count = -1 \<or> interval = -1 then None else Some (retry_count, interval))"

lemma InitAliOSS_of:
  assumes "store_of d (store (ap s))" and "oss_instance s = None"
  shows "InitAliOSS s = s\<lparr>oss_instance := oss_of d\<rparr>"
  using assms by (simp add: InitAliOSS_def oss_of_def get_str_of [of d] key_membership Let_def)

lemma InitMySQLConn_of:
  assumes "store_of d (store (ap s))" and "mysql_instance s = None" and "int_at APOLLO_MYSQL_POOLSIZE 16 d = Inr ms"
  shows "InitMySQLConn 0 s = Running (s\<lparr>mysql_instance := mysql_of d ms\<rparr>)"
  using assms by (simp add: InitMySQLConn_def mysql_of_def get_str_of [of d] get_int_of [of d] key_membership Let_def)

lemma InitRedisConn_of:
  assumes "store_of d (store (ap s))" and "redis_instance s = None" and "int_at APOLLO_REDIS_PORT 6379 d = Inr rp"
    and "int_at APOLLO_REDIS_DB 0 d = Inr rd" and "int_at APOLLO_REDIS_POOLSIZE 64 d = Inr rs"
  shows "InitRedisConn 0 s = Running (s\<lparr>redis_instance := redis_of d rp rd rs\<rparr>)"
  using assms by (simp add: InitRedisConn_def redis_of_def get_str_of [of d] get_int_of [of d] key_membership Let_def)

lemma InitDistributeLock_of:
  assumes "store_of d (store (ap s))" and "lock_instance s = None" and "int_at APOLLO_DIST_LOCK_RETRY_COUNT (-1) d = Inr lr"
    and "int_at APOLLO_DIST_LOCK_INTERVAL (-1) d = Inr li"
  shows "InitDistributeLock s = Running (s\<lparr>lock_instance := lock_of lr li\<rparr>)"
  using assms by (simp add: InitDistributeLock_def lock_of_def get_int_of [of d] key_membership)

lemma components_of:
  assumes st: "store_of d (store (ap s))"
    and none: "oss_instance s = None" "mysql_instance s = None" "redis_instance s = None" "lock_instance s = None"
    and ints: "int_at APOLLO_MYSQL_POOLSIZE 16 d = Inr ms" "int_at APOLLO_REDIS_PORT 6379 d = Inr rp" "int_at APOLLO_REDIS_DB 0 d = Inr rd"
      "int_at APOLLO_REDIS_POOLSIZE 64 d = Inr rs" "int_at APOLLO_DIST_LOCK_RETRY_COUNT (-1) d = Inr lr" "int_at APOLLO_DIST_LOCK_INTERVAL (-1) d = Inr li"
  shows "sbind (InitMySQLConn 0 (InitAliOSS s)) (\<lambda>s. sbind (InitRedisConn 0 s) InitDistributeLock)
    = Running (s\<lparr>oss_instance := oss_of d, mysql_instance := mysql_of d ms, redis_instance := redis_of d rp rd rs, lock_instance := lock_of lr li\<rparr>)"
  using assms by (simp add: InitAliOSS_of [of d] InitMySQLConn_of [of d] InitRedisConn_of [of d] InitDistributeLock_of [of d])

lemma fold_update_conf: "fold (update_conf d) ks p k = (if k \<in> set ks \<and> k \<noteq> [] \<and> string_at k d \<noteq> [] then Some (string_at k d) else p k)"
  by (induction ks arbitrary: p) (auto simp: update_conf_def SetValue_def)

lemma before_poll_fields:
  "client (before_poll env host app type ip) = ApolloClient_new app ''default'' host ip"
  "store (before_poll env host app type ip) = env_store host app type"
  "requests (before_poll env host app type ip) = 0" "flow (before_poll env host app type ip) = dataflow_initial"
  by (simp_all add: before_poll_def)

text \<open>
  C25. The way of the configuration from Apollo to the components: when the first poll delivers the values \<open>d\<close> of
  the name space \<^verbatim>\<open>application\<close> and its numbers are well-formed, \<^verbatim>\<open>InitService\<close> returns, each optional component is
  created exactly when its address (for the lock, both of its numbers) is configured, and with the
  configured arguments or their defaults. If MySQL is configured with a pool size that is not a number, the
  exception leaves \<^verbatim>\<open>main\<close>.
\<close>

theorem InitService_configured:
  assumes "env_ready getenv env host app type"
    and "notified e (fetch e 0 (poll_url e (ApolloClient_new app ''default'' host ip))) ''application'' i"
    and "delivered e (fetch e 1 (config_url (ApolloClient_new app ''default'' host ip) ''application'')) = Some d"
  shows "(int_at APOLLO_MYSQL_POOLSIZE 16 d = Inr ms \<and> int_at APOLLO_REDIS_PORT 6379 d = Inr rp \<and> int_at APOLLO_REDIS_DB 0 d = Inr rd
      \<and> int_at APOLLO_REDIS_POOLSIZE 64 d = Inr rs \<and> int_at APOLLO_DIST_LOCK_RETRY_COUNT (-1) d = Inr lr
      \<and> int_at APOLLO_DIST_LOCK_INTERVAL (-1) d = Inr li \<longrightarrow>
    (\<exists>t. InitService getenv e ip server_initial = Running t \<and> oss_instance t = oss_of d \<and> mysql_instance t = mysql_of d ms
      \<and> redis_instance t = redis_of d rp rd rs \<and> lock_instance t = lock_of lr li))
    \<and> (string_at APOLLO_MYSQL_HOST d \<noteq> [] \<and> int_at APOLLO_MYSQL_POOLSIZE 16 d = Inl x
      \<longrightarrow> InitService getenv e ip server_initial = Uncaught x)"
proof -
  define s where "s = InitKafka (server_initial\<lparr>g_current_env := env, ap := LongPoll e (before_poll env host app type ip)\<rparr>)"
  have "LongPoll e (before_poll env host app type ip) = (let t = UNCachedHTTPGet e ''application'' ((before_poll env host app type ip)\<lparr>requests := 1\<rparr>)
      in t\<lparr>client := (client t)\<lparr>notification_map := map_assign ''application'' i (notification_map (client t))\<rparr>\<rparr>)"
    using LongPoll_notified [of e "before_poll env host app type ip"] assms(2) by (simp add: before_poll_fields)
  then have "store (ap s) = fold (update_conf d) application_keys (env_store host app type)"
    using assms(3) by (simp add: s_def Let_def UNCachedHTTPGet_delivered before_poll_fields apollo_callback_def)
  then have st: "store_of d (store (ap s))"
    using application_keys_distinct env_store_None by (auto simp: store_of_def fold_update_conf)
  have none: "oss_instance s = None" "mysql_instance s = None" "redis_instance s = None" "lock_instance s = None"
    by (simp_all add: s_def server_initial_def)
  have run: "InitService getenv e ip server_initial = sbind (InitMySQLConn 0 (InitAliOSS s)) (\<lambda>s. sbind (InitRedisConn 0 s) InitDistributeLock)"
    unfolding InitService_poll [OF assms(1)] s_def ..
  show ?thesis
  proof (intro conjI impI)
    assume "string_at APOLLO_MYSQL_HOST d \<noteq> [] \<and> int_at APOLLO_MYSQL_POOLSIZE 16 d = Inl x"
    moreover have "store_of d (store (ap (InitAliOSS s)))" using st by (simp add: InitAliOSS_def Let_def)
    ultimately show "InitService getenv e ip server_initial = Uncaught x"
      by (simp add: run InitMySQLConn_def get_str_of [of d] get_int_of [of d] key_membership)
  qed (use components_of [OF st none] in \<open>simp add: run\<close>)
qed

lemma string_at_Nil: "string_at k [] = []"
proof -
  have "get_pieces ks [] = None" for ks by (cases ks; cases "tl ks") auto
  then show ?thesis by (simp add: string_at_def DictionaryValue_Get_def)
qed

text \<open>
  C38. When the first poll fails, \<^verbatim>\<open>InitService\<close> returns all the same, without any optional component and with a
  Kafka producer for an empty list of brokers. The producer is made once: however many polls of the
  listener follow, and whatever they deliver, the list stays empty.
\<close>

theorem InitService_without_apollo:
  assumes "env_ready getenv env host app type" and "\<forall>url chunks. fetch e 0 url \<noteq> Fetched 200 chunks"
  shows "\<exists>t. InitService getenv e ip server_initial = Running t
    \<and> oss_instance t = None \<and> mysql_instance t = None \<and> redis_instance t = None \<and> lock_instance t = None
    \<and> (\<forall>e' n. \<exists>conf. p_producer (flow (Listener e' n (ap t))) = Some conf \<and> map_of conf ''metadata.broker.list'' = Some [])"
proof -
  define b where "b = before_poll env host app type ip"
  define s where "s = InitKafka (server_initial\<lparr>g_current_env := env, ap := LongPoll e b\<rparr>)"
  have poll: "LongPoll e b = b\<lparr>requests := 1\<rparr>"
    using assms(2) by (auto simp: b_def LongPoll_def before_poll_fields Let_def split: fetch_result.splits)
  have st: "store (ap s) = env_store host app type" by (simp add: s_def poll) (simp add: b_def before_poll_fields)
  have of: "store_of [] (store (ap s))" using env_store_None by (auto simp: st store_of_def string_at_Nil)
  have none: "oss_instance s = None" "mysql_instance s = None" "redis_instance s = None" "lock_instance s = None"
    by (simp_all add: s_def server_initial_def)
  have "InitService getenv e ip server_initial = sbind (InitMySQLConn 0 (InitAliOSS s)) (\<lambda>s. sbind (InitRedisConn 0 s) InitDistributeLock)"
    unfolding InitService_poll [OF assms(1)] s_def b_def ..
  also have "\<dots> = Running (s\<lparr>oss_instance := oss_of [], mysql_instance := mysql_of [] 16, redis_instance := redis_of [] 6379 0 64, lock_instance := lock_of (-1) (-1)\<rparr>)"
    by (rule components_of [OF of none]) (simp_all add: int_at_def string_at_Nil)
  finally have run: "InitService getenv e ip server_initial
      = Running (s\<lparr>oss_instance := None, mysql_instance := None, redis_instance := None, lock_instance := None\<rparr>)"
    by (simp add: oss_of_def mysql_of_def redis_of_def lock_of_def string_at_Nil)
  have "get_str APOLLO_COMMON_DF_HOST (server_initial\<lparr>g_current_env := env, ap := LongPoll e b\<rparr>) = []"
    by (simp add: get_str_def poll) (simp add: b_def before_poll_fields GetValue_def env_store_None)
  then have "\<exists>conf. p_producer (flow (ap s)) = Some conf \<and> map_of conf ''metadata.broker.list'' = Some []"
    by (simp add: s_def InitKafka_def Let_def poll)
      (simp add: b_def before_poll_fields Init_def GetInstance_def SetApiType_def SetBizType_def dataflow_initial_def Let_def)
  then show ?thesis using run by (simp add: Listener_producer)
qed

section \<open>Examples\<close>

definition demo_getenv :: "string \<Rightarrow> string option" where
  "demo_getenv = [''CURRENT_ENV'' \<mapsto> ''TEST'', CONF_APOLLO_HOST \<mapsto> ''http://a'', CONF_APOLLO_APPLICATION \<mapsto> ''id'', CONF_SERVICE_TYPE \<mapsto> ''image'']"

lemma demo_ready: "env_ready demo_getenv TEST_ENV ''http://a'' ''id'' ''image''"
  by (simp add: env_ready_def demo_getenv_def GetCurrentEnv_def apollo_names)

definition down_apollo :: apollo_env where
  "down_apollo = flaky_env\<lparr>fetch := \<lambda>n url. CurlFailed\<rparr>"

theorem InitService_without_apollo_witness:
  "\<exists>t. InitService demo_getenv down_apollo ''1.2.3.4'' server_initial = Running t \<and> mysql_instance t = None"
  using InitService_without_apollo [OF demo_ready, of down_apollo "''1.2.3.4''"] by (auto simp: down_apollo_def)

text \<open>A server that delivers a MySQL address, with a pool size that is a number and one that is not.\<close>

definition mysql_dict :: "string \<Rightarrow> (string \<times> base_value) list" where
  "mysql_dict pool = [(APOLLO_MYSQL_HOST, TYPE_STRING ''db''), (APOLLO_MYSQL_POOLSIZE, TYPE_STRING pool)]"

definition mysql_apollo :: "string \<Rightarrow> apollo_env" where
  "mysql_apollo pool = \<lparr>fetch = (\<lambda>n url. if n = 0 then Fetched 200 [''change''] else Fetched 200 [''values'']),
     ap_read = (\<lambda>t. if t = ''change'' then Some change_node else Some (TYPE_DICTIONARY [(''configurations'', TYPE_DICTIONARY (mysql_dict pool))])),
     ap_write = (\<lambda>v. []), ap_escape = (\<lambda>t. t)\<rparr>"

lemma mysql_dict_at: "string_at APOLLO_MYSQL_HOST (mysql_dict pool) = ''db''" "string_at APOLLO_MYSQL_POOLSIZE (mysql_dict pool) = pool"
  by (simp_all add: string_at_plain mysql_dict_def GetString_def apollo_names)

theorem InitService_configured_witness:
  "InitService demo_getenv (mysql_apollo ''many'') ''1.2.3.4'' server_initial = Uncaught invalid_argument"
proof -
  have n: "notified (mysql_apollo pool) (fetch (mysql_apollo pool) 0 url) ''application'' 5" for pool url
    by (simp add: notified_def mysql_apollo_def change_node_def response_body_def GetString_def GetInteger_def)
  have d: "delivered (mysql_apollo pool) (fetch (mysql_apollo pool) 1 url) = Some (mysql_dict pool)" for pool url
    by (simp add: delivered_def mysql_apollo_def response_body_def)
  have "int_at APOLLO_MYSQL_POOLSIZE 16 (mysql_dict ''many'') = Inl invalid_argument"
    by (simp add: int_at_def mysql_dict_at stoi_def is_ws_def kWhitespaceASCII_def is_digit_def)
  then show ?thesis using InitService_configured [OF demo_ready n d, of "''many''"] by (simp add: mysql_dict_at)
qed

end
