(* ===== verification/Dete_Reg.thy ===== *)
theory Dete_Reg
  imports Signature Json_Value Conf Apollo_Conf
begin

text \<open>
  The recognition client of \<^verbatim>\<open>Paas/dete_reg.cpp\<close> and the HTTP helper of \<^verbatim>\<open>Paas/curl_tool.h\<close>. libcurl, the image codec
  and the JSON writer are arguments; transfers are numbered.
\<close>

record 'm reg_env =
  reg_get :: "nat \<Rightarrow> string \<Rightarrow> (int \<times> int \<times> string list) option"
    \<comment> \<open>curl code, response code and data of the \<open>n\<close>-th transfer; \<open>None\<close>: no handle\<close>
  reg_post :: "nat \<Rightarrow> string \<Rightarrow> string list \<Rightarrow> string \<Rightarrow> (int \<times> int \<times> string list) option"
  imencode :: "'m \<Rightarrow> byte list"
  imdecode_any :: "byte list \<Rightarrow> 'm"
  reg_write :: "json \<Rightarrow> string"

definition write_data :: "string \<Rightarrow> string option \<Rightarrow> nat \<times> string option" where
  "write_data ptr buffer = (case buffer of None \<Rightarrow> (0, None) | Some b \<Rightarrow> (length ptr, Some (b @ ptr)))"

definition curl_success :: "int \<Rightarrow> int \<Rightarrow> bool" where
  "curl_success res res_code \<longleftrightarrow> res = 0 \<and> (res_code = 200 \<or> res_code = 201)"

text \<open>\<^verbatim>\<open>curlGet\<close>: without a handle the result string is left alone.\<close>

definition curlGet :: "'m reg_env \<Rightarrow> nat \<Rightarrow> string \<Rightarrow> string \<Rightarrow> bool \<times> string" where
  "curlGet e n url result = (case reg_get e n url of
     None \<Rightarrow> (False, result)
   | Some (res, res_code, chunks) \<Rightarrow> (curl_success res res_code, concat chunks))"

definition post_headers :: "string \<Rightarrow> string list" where
  "post_headers traceId = [''Accept-Language:zh-CN,zh;q=0.8'', ''Connection:close'', ''Content-Type:application/json'', ''Expect:'']
     @ (if traceId = [] then [] else [''Traceid:'' @ traceId])"

text \<open>\<^verbatim>\<open>curlPost\<close> returns what was received, whatever the outcome.\<close>

definition curlPost :: "'m reg_env \<Rightarrow> nat \<Rightarrow> string \<Rightarrow> string \<Rightarrow> string \<Rightarrow> string" where
  "curlPost e n url traceId postdBody = (case reg_post e n url (post_headers traceId) postdBody of
     None \<Rightarrow> []
   | Some (res, res_code, chunks) \<Rightarrow> concat chunks)"

definition reg_body :: "'m reg_env \<Rightarrow> 'm \<Rightarrow> string" where
  "reg_body e img = reg_write e (objectValue [(''image_base64'', stringValue (base64_encode (imencode e img)))])"

definition inner_reg :: "'m reg_env \<Rightarrow> conf \<Rightarrow> 'm \<Rightarrow> string \<Rightarrow> string" where
  "inner_reg e p img traceID = curlPost e 0 (GetValue APOLLO_SRCHSUB_URL [] p) traceID (reg_body e img)"

text \<open>
  The retry loop of \<^verbatim>\<open>reg\<close>: \<open>post n\<close> is the answer to the \<open>n\<close>-th post; the result is the last answer and the
  number of posts.
\<close>

function reg_loop :: "(nat \<Rightarrow> string) \<Rightarrow> nat \<Rightarrow> string \<Rightarrow> nat \<Rightarrow> string \<times> nat" where
  "reg_loop post n jsonStr retryCount =
     (if jsonStr \<noteq> [] then (jsonStr, n)
      else let jsonStr = post n
           in if 10 < retryCount then (jsonStr, n + 1) else reg_loop post (n + 1) jsonStr (retryCount + 1))"
  by pat_completeness auto

termination by (relation "measure (\<lambda>(post, n, jsonStr, retryCount). 12 - retryCount)") auto

declare reg_loop.simps [simp del]

definition reg_url :: string where "reg_url = ''http://openai.100tal.com/aiimage/ocr/automatic-box''"

definition reg_key_id :: string where "reg_key_id = ''4815040119882752''"

definition reg_key_secret :: string where "reg_key_secret = ''3ee7e06ccff441b7915784db1a5c6565''"

definition reg :: "'m reg_env \<Rightarrow> (nat \<Rightarrow> byte) \<Rightarrow> nat list \<Rightarrow> string \<Rightarrow> 'm \<Rightarrow> mem_error + string \<times> nat" where
  "reg e junk rcs time_stamp img =
     (let postbody = reg_body e img
      in rbind (generateSignature junk rcs time_stamp reg_url reg_key_id reg_key_secret postbody []) (\<lambda>url.
           Inr (reg_loop (\<lambda>n. curlPost e n url [] postbody) 1 (curlPost e 0 url [] postbody) 0)))"

definition downloadImg :: "'m reg_env \<Rightarrow> string \<Rightarrow> 'm \<Rightarrow> 'm" where
  "downloadImg e url img =
     (let (ok, datastr) = curlGet e 0 url [] in if ok then imdecode_any e (bytes_of datastr) else img)"

section \<open>The retry loop\<close>

lemma reg_loop_step:
  "js \<noteq> [] \<Longrightarrow> reg_loop post n js r = (js, n)"
  "10 < r \<Longrightarrow> reg_loop post n [] r = (post n, n + 1)"
  "r \<le> 10 \<Longrightarrow> reg_loop post n [] r = reg_loop post (n + 1) (post n) (r + 1)"
  by (subst reg_loop.simps; simp add: Let_def)+

lemma reg_loop_answer:
  assumes "r \<le> 11" and "n = r + 1" and "\<forall>j \<le> r. post j = []"
  shows "(\<exists>i. r < i \<and> i \<le> 12 \<and> post i \<noteq> [] \<and> (\<forall>j < i. post j = []) \<and> reg_loop post n [] r = (post i, i + 1))
    \<or> (\<forall>j \<le> 12. post j = []) \<and> reg_loop post n [] r = ([], 13)"
  using assms
proof (induction "12 - r" arbitrary: r n)
  case (Suc k)
  show ?case
  proof (cases "post (r + 1) = []")
    case True
    then have all: "\<forall>j \<le> r + 1. post j = []" using Suc.prems(3) by (auto simp: le_Suc_eq)
    show ?thesis
    proof (cases "r = 11")
      case True
      then show ?thesis using all Suc.prems(2) by (simp add: reg_loop_step)
    next
      case False
      then have "reg_loop post n [] r = reg_loop post (n + 1) [] (r + 1)"
        using Suc.prems(1,2) True by (simp add: reg_loop_step)
      moreover have "k = 12 - (r + 1)" "r + 1 \<le> 11" "n + 1 = (r + 1) + 1" using Suc.hyps(2) Suc.prems(1,2) False by auto
      ultimately show ?thesis using Suc.hyps(1) [of "r + 1" "n + 1"] all by auto
    qed
  next
    case False
    then have "reg_loop post n [] r = (post (r + 1), r + 2)"
      using Suc.prems(1,2) by (cases "r = 11") (simp_all add: reg_loop_step)
    then show ?thesis
      using False Suc.prems(1,3) by (intro disjI1 exI [of _ "r + 1"]) auto
  qed
qed simp

text \<open>
  \<^verbatim>\<open>reg\<close> posts at most thirteen times. It returns the first answer that is not empty, whatever its status, and
  stops there; it returns the empty string only when all thirteen answers were empty.
\<close>

theorem reg_bounded:
  assumes "generateSignature junk rcs time_stamp reg_url reg_key_id reg_key_secret (reg_body e img) [] = Inr url"
  defines "post n \<equiv> curlPost e n url [] (reg_body e img)"
  shows "(\<exists>i \<le> 12. post i \<noteq> [] \<and> (\<forall>j < i. post j = []) \<and> reg e junk rcs time_stamp img = Inr (post i, i + 1))
    \<or> (\<forall>j \<le> 12. post j = []) \<and> reg e junk rcs time_stamp img = Inr ([], 13)"
proof -
  have r: "reg e junk rcs time_stamp img = Inr (reg_loop post 1 (post 0) 0)"
    using assms(1) by (simp add: reg_def post_def [abs_def] Let_def)
  show ?thesis
  proof (cases "post 0 = []")
    case True
    then show ?thesis using reg_loop_answer [of 0 1 post] r by auto
  next
    case False
    then show ?thesis by (intro disjI1 exI [of _ 0]) (simp add: r reg_loop_step)
  qed
qed

end
