(* ===== verification/Crow_Http.thy ===== *)
theory Crow_Http
  imports Prelude
begin

text \<open>
  The HTTP data types of the server (\<^verbatim>\<open>src/crow_all.h\<close>): methods, the case-insensitive header
  multimap, requests and responses. Header names are compared with \<^verbatim>\<open>boost::iequals\<close>, modelled for the
  classic locale.
\<close>

section \<open>Methods\<close>

text \<open>
  The enumerators are numbers, since the server casts the parser's method number to \<^verbatim>\<open>HTTPMethod\<close>
  whether the enumeration names it or not.
\<close>

datatype HTTPMethod = Delete | Get | Head | Post | Put | Connect | Options | Trace

fun method_code :: "HTTPMethod \<Rightarrow> nat" where
  "method_code Delete = 0"
| "method_code Get = 1"
| "method_code Head = 2"
| "method_code Post = 3"
| "method_code Put = 4"
| "method_code Connect = 5"
| "method_code Options = 6"
| "method_code Trace = 7"

definition method_name :: "nat \<Rightarrow> string" where
  "method_name m =
     (if m = method_code Delete then ''DELETE''
      else if m = method_code Get then ''GET''
      else if m = method_code Head then ''HEAD''
      else if m = method_code Post then ''POST''
      else if m = method_code Put then ''PUT''
      else if m = method_code Connect then ''CONNECT''
      else if m = method_code Options then ''OPTIONS''
      else if m = method_code Trace then ''TRACE''
      else ''invalid'')"

text \<open>\<^verbatim>\<open>black_magic::is_equ_p\<close> on two zero-terminated strings.\<close>

fun is_equ_p :: "string \<Rightarrow> string \<Rightarrow> nat \<Rightarrow> bool" where
  "is_equ_p [] [] n \<longleftrightarrow> n = 0"
| "is_equ_p [] (b # bs) n \<longleftrightarrow> False"
| "is_equ_p (a # as) [] n \<longleftrightarrow> False"
| "is_equ_p (a # as) (b # bs) n \<longleftrightarrow> (if n = 0 then True else if a \<noteq> b then False else is_equ_p as bs (n - 1))"

text \<open>The literal operator \<^verbatim>\<open>_method\<close>; \<open>None\<close> is \<^verbatim>\<open>std::runtime_error("invalid http method")\<close>.\<close>

definition method_literal :: "string \<Rightarrow> HTTPMethod option" where
  "method_literal str =
     (if is_equ_p str ''GET'' 3 then Some Get
      else if is_equ_p str ''DELETE'' 6 then Some Delete
      else if is_equ_p str ''HEAD'' 4 then Some Head
      else if is_equ_p str ''POST'' 4 then Some Post
      else if is_equ_p str ''PUT'' 3 then Some Put
      else if is_equ_p str ''OPTIONS'' 7 then Some Options
      else if is_equ_p str ''CONNECT'' 7 then Some Connect
      else if is_equ_p str ''TRACE'' 5 then Some Trace
      else None)"

section \<open>The header multimap\<close>

type_synonym ci_map = "(string \<times> string) list"

definition toupper :: "char \<Rightarrow> char" where
  "toupper c = (let n = of_char c :: nat in if 97 \<le> n \<and> n \<le> 122 then char_of (n - 32) else c)"

definition iequals :: "string \<Rightarrow> string \<Rightarrow> bool" where
  "iequals l r \<longleftrightarrow> map toupper l = map toupper r"

definition hdr_count :: "string \<Rightarrow> ci_map \<Rightarrow> nat" where
  "hdr_count key headers = length (filter (\<lambda>(k, v). iequals k key) headers)"

text \<open>
  \<^verbatim>\<open>headers.find(key)\<close>: among several elements with the key the model takes the first inserted one;
  the C++ standard leaves the choice open.
\<close>

definition hdr_find :: "string \<Rightarrow> ci_map \<Rightarrow> string option" where
  "hdr_find key headers = map_option snd (find (\<lambda>(k, v). iequals k key) headers)"

definition get_header_value :: "ci_map \<Rightarrow> string \<Rightarrow> string" where
  "get_header_value headers key =
     (if hdr_count key headers \<noteq> 0 then (case hdr_find key headers of Some v \<Rightarrow> v | None \<Rightarrow> []) else [])"

definition hdr_erase :: "string \<Rightarrow> ci_map \<Rightarrow> ci_map" where
  "hdr_erase key headers = filter (\<lambda>(k, v). \<not> iequals k key) headers"

definition hdr_emplace :: "string \<Rightarrow> string \<Rightarrow> ci_map \<Rightarrow> ci_map" where
  "hdr_emplace key v headers = headers @ [(key, v)]"

section \<open>Requests and responses\<close>

record 'q request =
  req_method :: nat
  req_raw_url :: string
  req_url :: string
  req_url_params :: 'q
  req_headers :: ci_map
  req_body :: string

text \<open>
  \<^verbatim>\<open>response\<close>. The JSON value is kept as the text \<^verbatim>\<open>json::dump\<close> gives for it, \<open>Some\<close> exactly when it is
  an object.
\<close>

record response =
  res_code :: int
  res_body :: string
  res_json :: "string option"
  res_headers :: ci_map
  res_completed :: bool

definition response_new :: response where
  "response_new = \<lparr>res_code = 200, res_body = [], res_json = None, res_headers = [], res_completed = False\<rparr>"

definition response_code :: "int \<Rightarrow> response" where
  "response_code code = response_new\<lparr>res_code := code\<rparr>"

definition response_text :: "string \<Rightarrow> response" where
  "response_text b = response_new\<lparr>res_body := b\<rparr>"

definition set_header :: "string \<Rightarrow> string \<Rightarrow> response \<Rightarrow> response" where
  "set_header key v res = res\<lparr>res_headers := hdr_emplace key v (hdr_erase key (res_headers res))\<rparr>"

definition add_header :: "string \<Rightarrow> string \<Rightarrow> response \<Rightarrow> response" where
  "add_header key v res = res\<lparr>res_headers := hdr_emplace key v (res_headers res)\<rparr>"

definition response_clear :: "response \<Rightarrow> response" where
  "response_clear res = response_new"

text \<open>\<^verbatim>\<open>response::end\<close>: the second component says whether \<^verbatim>\<open>complete_request_handler_\<close> is called.\<close>

definition response_end :: "response \<Rightarrow> response \<times> bool" where
  "response_end res = (if res_completed res then (res, False) else (res\<lparr>res_completed := True\<rparr>, True))"

section \<open>Header look-up\<close>

lemma iequals_refl [simp]: "iequals k k"
  by (simp add: iequals_def)

lemma iequals_sym: "iequals a b \<longleftrightarrow> iequals b a"
  by (auto simp: iequals_def)

lemma iequals_trans: "iequals a b \<Longrightarrow> iequals b c \<Longrightarrow> iequals a c"
  by (simp add: iequals_def)

lemma hdr_count_emplace [simp]:
  "hdr_count k (hdr_emplace k' v headers) = hdr_count k headers + (if iequals k' k then 1 else 0)"
  by (simp add: hdr_count_def hdr_emplace_def)

lemma iequals_apart:
  "iequals k' k \<Longrightarrow> \<not> iequals x k' \<Longrightarrow> \<not> iequals x k"
  "\<not> iequals k' k \<Longrightarrow> iequals x k \<Longrightarrow> \<not> iequals x k'"
  by (auto simp: iequals_def)

lemma hdr_count_erase [simp]:
  "hdr_count k (hdr_erase k' headers) = (if iequals k' k then 0 else hdr_count k headers)"
  by (induction headers) (auto simp: hdr_count_def hdr_erase_def dest: iequals_apart)

lemma hdr_count_find: "hdr_count k headers = 0 \<longleftrightarrow> hdr_find k headers = None"
  by (auto simp: hdr_count_def hdr_find_def find_None_iff filter_empty_conv)

lemma get_header_value_find: "get_header_value headers k = (case hdr_find k headers of Some v \<Rightarrow> v | None \<Rightarrow> [])"
  using hdr_count_find [of k headers] by (auto simp: get_header_value_def split: option.splits)

lemma hdr_find_emplace:
  "hdr_find k (hdr_emplace k' v headers) =
     (case hdr_find k headers of Some w \<Rightarrow> Some w | None \<Rightarrow> if iequals k' k then Some v else None)"
  by (induction headers) (auto simp: hdr_find_def hdr_emplace_def)

lemma hdr_find_erase:
  "hdr_find k (hdr_erase k' headers) = (if iequals k' k then None else hdr_find k headers)"
  by (induction headers) (auto simp: hdr_find_def hdr_erase_def dest: iequals_apart)

lemma get_header_value_set_header:
  "get_header_value (res_headers (set_header k v res)) k' =
     (if iequals k k' then v else get_header_value (res_headers res) k')"
  by (auto simp: get_header_value_find set_header_def hdr_find_emplace hdr_find_erase split: option.splits)

end
