(* ===== verification/Crow_Trie.thy ===== *)
theory Crow_Trie
  imports Prelude
begin

text \<open>
  The URL trie of the HTTP server (\<^verbatim>\<open>src/crow_all.h\<close>, class \<^verbatim>\<open>Trie\<close>): the nodes live in a
  vector and refer to each other by index, index 0 standing for \<open>no child\<close> as well as for the
  head. This theory has the node type, \<^verbatim>\<open>add\<close>, which inserts a rule pattern, and \<^verbatim>\<open>find\<close>, which
  looks a request URL up, together with the abstract view of a trie as a map from patterns
  (lists of literal characters and typed placeholders) to rule numbers. The theorems show that
  \<^verbatim>\<open>add\<close> updates that map at one pattern, that it never returns on an unknown placeholder, and that
  \<^verbatim>\<open>find\<close> answers the least rule number whose pattern matches the URL.
\<close>

section \<open>Data\<close>

datatype ParamType = P_INT | P_UINT | P_DOUBLE | P_STRING | P_PATH

fun param_ix :: "ParamType \<Rightarrow> nat" where
  "param_ix P_INT = 0"
| "param_ix P_UINT = 1"
| "param_ix P_DOUBLE = 2"
| "param_ix P_STRING = 3"
| "param_ix P_PATH = 4"

record 'd routing_params =
  int_params :: "int list"
  uint_params :: "int list"
  double_params :: "'d list"
  string_params :: "string list"

definition no_params :: "'d routing_params" where
  "no_params = \<lparr>int_params = [], uint_params = [], double_params = [], string_params = []\<rparr>"

text \<open>
  \<^verbatim>\<open>Node\<close>. The children are an association list in insertion order; the source's
  \<^verbatim>\<open>std::unordered_map\<close> has distinct keys as well, and its iteration order does not matter to what
  is proved here, since at most one child of a well-formed node matches.
\<close>

record trie_node =
  rule_index :: nat
  param_childrens :: "nat list"
  children :: "(string \<times> nat) list"

definition empty_node :: trie_node where
  "empty_node = \<lparr>rule_index = 0, param_childrens = replicate 5 0, children = []\<rparr>"

definition Trie_init :: "trie_node list" where
  "Trie_init = [empty_node]"

definition IsSimpleNode :: "trie_node \<Rightarrow> bool" where
  "IsSimpleNode n \<longleftrightarrow> rule_index n = 0 \<and> list_all (\<lambda>x. x = 0) (param_childrens n)"

definition param_child :: "trie_node \<Rightarrow> ParamType \<Rightarrow> nat" where
  "param_child n t = param_childrens n ! param_ix t"

section \<open>Number scanning: strtoll and strtoull in base 10\<close>

definition is_space :: "char \<Rightarrow> bool" where
  "is_space c \<longleftrightarrow> (of_char c :: nat) \<in> {9, 10, 11, 12, 13, 32}"

text \<open>The sign, the digits and the number of characters of the subject sequence.\<close>

definition strto_scan :: "string \<Rightarrow> bool \<times> string \<times> nat" where
  "strto_scan s =
     (let ws = takeWhile is_space s;
          s1 = drop (length ws) s;
          sign = (case s1 of [] \<Rightarrow> 0 | c # _ \<Rightarrow> if c = CHR ''-'' \<or> c = CHR ''+'' then 1 else 0);
          neg = (case s1 of [] \<Rightarrow> False | c # _ \<Rightarrow> c = CHR ''-'');
          ds = takeWhile is_digit (drop sign s1)
      in (neg, ds, if ds = [] then 0 else length ws + sign + length ds))"

text \<open>The value, \<^verbatim>\<open>eptr - nptr\<close>, and whether \<^verbatim>\<open>errno\<close> is set to \<^verbatim>\<open>ERANGE\<close>.\<close>

definition strtoll :: "string \<Rightarrow> int \<times> nat \<times> bool" where
  "strtoll s =
     (let (neg, ds, n) = strto_scan s;
          v = (if neg then - int (digits_value ds) else int (digits_value ds))
      in if v < - (2 ^ 63) then (- (2 ^ 63), n, True)
         else if 2 ^ 63 - 1 < v then (2 ^ 63 - 1, n, True)
         else (v, n, False))"

definition strtoull :: "string \<Rightarrow> int \<times> nat \<times> bool" where
  "strtoull s =
     (let (neg, ds, n) = strto_scan s; v = int (digits_value ds)
      in if 2 ^ 64 - 1 < v then (2 ^ 64 - 1, n, True)
         else (if neg then (- v) mod 2 ^ 64 else v, n, False))"

section \<open>find\<close>

text \<open>
  The recursive calls that \<^verbatim>\<open>find\<close> makes at a node, as the list of the next node, the next position
  and the parameters collected so far, in the order of the code. \<^verbatim>\<open>strtod\<close> is an argument: it answers
  the value, the number of characters it read and whether it set \<^verbatim>\<open>ERANGE\<close>; like the C function it
  cannot read past the end of the string.
\<close>

type_synonym 'd strtod_fn = "string \<Rightarrow> 'd \<times> nat \<times> bool"

type_synonym 'd find_call = "nat \<times> nat \<times> 'd routing_params"

definition scan_int :: "string \<Rightarrow> nat \<Rightarrow> 'd routing_params \<Rightarrow> (nat \<times> 'd routing_params) option" where
  "scan_int url pos ps =
     (if length url \<le> pos then None
      else let c = url ! pos in
        if is_digit c \<or> c = CHR ''+'' \<or> c = CHR ''-'' then
          let (v, n, erange) = strtoll (drop pos url) in
          if \<not> erange \<and> n \<noteq> 0
          then Some (pos + n, ps\<lparr>int_params := int_params ps @ [v]\<rparr>)
          else None
        else None)"

definition scan_uint :: "string \<Rightarrow> nat \<Rightarrow> 'd routing_params \<Rightarrow> (nat \<times> 'd routing_params) option" where
  "scan_uint url pos ps =
     (if length url \<le> pos then None
      else let c = url ! pos in
        if is_digit c \<or> c = CHR ''+'' then
          let (v, n, erange) = strtoull (drop pos url) in
          if \<not> erange \<and> n \<noteq> 0
          then Some (pos + n, ps\<lparr>uint_params := uint_params ps @ [v]\<rparr>)
          else None
        else None)"

definition scan_double ::
  "'d strtod_fn \<Rightarrow> string \<Rightarrow> nat \<Rightarrow> 'd routing_params \<Rightarrow> (nat \<times> 'd routing_params) option" where
  "scan_double strtod url pos ps =
     (if length url \<le> pos then None
      else let c = url ! pos in
        if is_digit c \<or> c = CHR ''+'' \<or> c = CHR ''-'' \<or> c = CHR ''.'' then
          let (v, n0, erange) = strtod (drop pos url); n = min n0 (length url - pos) in
          if \<not> erange \<and> n \<noteq> 0
          then Some (pos + n, ps\<lparr>double_params := double_params ps @ [v]\<rparr>)
          else None
        else None)"

definition scan_string :: "string \<Rightarrow> nat \<Rightarrow> 'd routing_params \<Rightarrow> (nat \<times> 'd routing_params) option" where
  "scan_string url pos ps =
     (let piece = takeWhile (\<lambda>c. c \<noteq> CHR ''/'') (drop pos url); epos = pos + length piece in
      if epos \<noteq> pos then Some (epos, ps\<lparr>string_params := string_params ps @ [piece]\<rparr>) else None)"

definition scan_path :: "string \<Rightarrow> nat \<Rightarrow> 'd routing_params \<Rightarrow> (nat \<times> 'd routing_params) option" where
  "scan_path url pos ps =
     (let epos = length url in
      if epos \<noteq> pos
      then Some (epos, ps\<lparr>string_params := string_params ps @ [drop pos url]\<rparr>) else None)"

fun scan_param ::
  "'d strtod_fn \<Rightarrow> ParamType \<Rightarrow> string \<Rightarrow> nat \<Rightarrow> 'd routing_params
   \<Rightarrow> (nat \<times> 'd routing_params) option" where
  "scan_param strtod P_INT = scan_int"
| "scan_param strtod P_UINT = scan_uint"
| "scan_param strtod P_DOUBLE = scan_double strtod"
| "scan_param strtod P_STRING = scan_string"
| "scan_param strtod P_PATH = scan_path"

definition try_param ::
  "'d strtod_fn \<Rightarrow> trie_node \<Rightarrow> string \<Rightarrow> nat \<Rightarrow> 'd routing_params \<Rightarrow> ParamType \<Rightarrow> 'd find_call list"
  where
  "try_param strtod node url pos ps t =
     (if param_child node t = 0 then []
      else case scan_param strtod t url pos ps of
             None \<Rightarrow> []
           | Some (p, q) \<Rightarrow> [(param_child node t, p, q)])"

text \<open>
  \<^verbatim>\<open>req_url.compare(pos, fragment.size(), fragment) == 0\<close>. No node of a trie has an empty
  fragment (shown by the invariant \<open>trie_wf\<close>), so the test for one changes nothing; it only makes
  the recursion below well-founded.
\<close>

definition fragment_matches :: "string \<Rightarrow> nat \<Rightarrow> string \<Rightarrow> bool" where
  "fragment_matches url pos fragment \<longleftrightarrow>
     fragment \<noteq> [] \<and> take (length fragment) (drop pos url) = fragment"

definition try_children :: "trie_node \<Rightarrow> string \<Rightarrow> nat \<Rightarrow> 'd routing_params \<Rightarrow> 'd find_call list" where
  "try_children node url pos ps =
     map (\<lambda>(fragment, child). (child, pos + length fragment, ps))
       (filter (\<lambda>(fragment, child). fragment_matches url pos fragment) (children node))"

definition find_calls ::
  "'d strtod_fn \<Rightarrow> trie_node \<Rightarrow> string \<Rightarrow> nat \<Rightarrow> 'd routing_params \<Rightarrow> 'd find_call list" where
  "find_calls strtod node url pos ps =
     concat (map (try_param strtod node url pos ps) [P_INT, P_UINT, P_DOUBLE, P_STRING, P_PATH])
     @ try_children node url pos ps"

definition update_found ::
  "nat \<times> 'd routing_params \<Rightarrow> nat \<times> 'd routing_params \<Rightarrow> nat \<times> 'd routing_params" where
  "update_found found ret =
     (if fst ret \<noteq> 0 \<and> (fst found = 0 \<or> fst ret < fst found) then ret else found)"

lemma strto_scan_bound:
  assumes "strto_scan s = (neg, ds, n)"
  shows "n \<le> length s"
proof -
  define ws where "ws = takeWhile is_space s"
  define s1 where "s1 = drop (length ws) s"
  have s: "length s = length ws + length s1"
    by (simp add: s1_def ws_def length_takeWhile_le)
  have "length (takeWhile is_digit (drop k s1)) \<le> length s1 - k" for k
    by (metis length_drop length_takeWhile_le)
  then show ?thesis
    using assms s length_takeWhile_le [of is_digit s1]
      length_takeWhile_le [of is_digit "tl s1"]
    by (auto simp: strto_scan_def Let_def ws_def [symmetric] s1_def [symmetric] drop_Suc
        split: list.splits if_splits)
qed

lemma strtoll_bound: "strtoll s = (v, n, e) \<Longrightarrow> n \<le> length s"
  using strto_scan_bound by (auto simp: strtoll_def Let_def split: prod.splits if_splits)

lemma strtoull_bound: "strtoull s = (v, n, e) \<Longrightarrow> n \<le> length s"
  using strto_scan_bound by (auto simp: strtoull_def Let_def split: prod.splits if_splits)

lemma fragment_matches_bound:
  assumes "fragment_matches url pos f"
  shows "pos + length f \<le> length url \<and> 0 < length f"
proof -
  have "take (length f) (drop pos url) = f" and f: "0 < length f"
    using assms by (simp_all add: fragment_matches_def)
  then have "length (take (length f) (drop pos url)) = length f" by (simp only:)
  then show ?thesis using f unfolding length_take length_drop by linarith
qed

text \<open>Every recursive call of \<^verbatim>\<open>find\<close> is nearer to the end of the URL.\<close>

lemma scan_int_advance:
  "scan_int url pos ps = Some (pos', ps') \<Longrightarrow> pos < pos' \<and> pos' \<le> length url"
  using strtoll_bound [of "drop pos url"]
  by (cases "strtoll (drop pos url)")
    (auto simp: scan_int_def Let_def le_diff_conv2 add.commute split: if_splits)

lemma scan_uint_advance:
  "scan_uint url pos ps = Some (pos', ps') \<Longrightarrow> pos < pos' \<and> pos' \<le> length url"
  using strtoull_bound [of "drop pos url"]
  by (cases "strtoull (drop pos url)")
    (auto simp: scan_uint_def Let_def le_diff_conv2 add.commute split: if_splits)

lemma scan_double_advance:
  "scan_double strtod url pos ps = Some (pos', ps') \<Longrightarrow> pos < pos' \<and> pos' \<le> length url"
  by (auto simp: scan_double_def Let_def split: if_splits prod.splits)

lemma scan_string_advance:
  assumes "scan_string url pos ps = Some (pos', ps')"
  shows "pos < pos' \<and> pos' \<le> length url"
proof -
  let ?piece = "takeWhile (\<lambda>c. c \<noteq> CHR ''/'') (drop pos url)"
  have "length ?piece \<le> length url - pos"
    by (metis length_drop length_takeWhile_le)
  moreover have "pos' = pos + length ?piece" and "pos' \<noteq> pos"
    using assms by (auto simp: scan_string_def Let_def split: if_splits)
  ultimately show ?thesis by linarith
qed

lemma scan_param_advance:
  "scan_param strtod t url pos ps = Some (pos', ps') \<Longrightarrow>
     pos' \<le> length url \<and> (pos < pos' \<or> length url < pos \<and> pos' = length url)"
  by (cases t)
    (auto simp: scan_path_def Let_def split: if_splits
      dest: scan_int_advance scan_uint_advance scan_double_advance scan_string_advance)

lemma find_calls_param:
  "x \<in> set (concat (map (try_param strtod node url pos ps)
       [P_INT, P_UINT, P_DOUBLE, P_STRING, P_PATH])) \<longleftrightarrow> (\<exists>t. x \<in> set (try_param strtod node url pos ps t))"
proof -
  have "t \<in> set [P_INT, P_UINT, P_DOUBLE, P_STRING, P_PATH]" for t by (cases t) simp_all
  then show ?thesis unfolding set_concat set_map by blast
qed

lemma try_param_iff:
  "(i, p, q) \<in> set (try_param strtod node url pos ps t) \<longleftrightarrow>
     i = param_child node t \<and> i \<noteq> 0 \<and> scan_param strtod t url pos ps = Some (p, q)"
  by (auto simp: try_param_def split: option.splits)

lemma try_children_iff:
  "(i, p, q) \<in> set (try_children node url pos ps) \<longleftrightarrow>
     (\<exists>f. (f, i) \<in> set (children node) \<and> fragment_matches url pos f \<and> p = pos + length f \<and> q = ps)"
  by (auto simp: try_children_def image_iff)

lemma find_calls_iff:
  "(i, p, q) \<in> set (find_calls strtod node url pos ps) \<longleftrightarrow>
     (\<exists>t. i = param_child node t \<and> i \<noteq> 0 \<and> scan_param strtod t url pos ps = Some (p, q)) \<or>
     (\<exists>f. (f, i) \<in> set (children node) \<and> fragment_matches url pos f \<and> p = pos + length f \<and> q = ps)"
  unfolding find_calls_def set_append Un_iff find_calls_param try_param_iff try_children_iff ..

lemma find_calls_advance:
  assumes "(i, pos', ps') \<in> set (find_calls strtod node url pos ps)"
  shows "pos' \<le> length url \<and> (pos < pos' \<or> length url < pos \<and> pos' = length url)"
  using assms unfolding find_calls_iff
  by (auto dest: scan_param_advance fragment_matches_bound)

function find_at ::
  "'d strtod_fn \<Rightarrow> trie_node list \<Rightarrow> string \<Rightarrow> nat \<Rightarrow> nat \<Rightarrow> 'd routing_params
   \<Rightarrow> nat \<times> 'd routing_params" where
  "find_at strtod nodes url idx pos ps =
     (if pos = length url then (rule_index (nodes ! idx), ps)
      else foldl update_found (0, no_params)
             (map (\<lambda>(i, p, q). find_at strtod nodes url i p q)
               (find_calls strtod (nodes ! idx) url pos ps)))"
  by pat_completeness auto
termination
  by (relation "measure (\<lambda>(_, _, url, _, pos, _).
        if pos = length url then 0 else Suc (length url - pos))")
    (auto dest!: find_calls_advance)

declare find_at.simps [simp del]

lemma find_at_end [simp]:
  "find_at strtod nodes url idx (length url) ps = (rule_index (nodes ! idx), ps)"
  by (subst find_at.simps) simp

lemma find_at_step:
  "pos \<noteq> length url \<Longrightarrow>
     find_at strtod nodes url idx pos ps =
       foldl update_found (0, no_params)
         (map (\<lambda>(i, p, q). find_at strtod nodes url i p q)
           (find_calls strtod (nodes ! idx) url pos ps))"
  by (subst find_at.simps) simp

definition trie_find :: "'d strtod_fn \<Rightarrow> trie_node list \<Rightarrow> string \<Rightarrow> nat \<times> 'd routing_params" where
  "trie_find strtod nodes url = find_at strtod nodes url 0 0 no_params"

section \<open>add\<close>

definition new_node :: "trie_node list \<Rightarrow> trie_node list \<times> nat" where
  "new_node nodes = (nodes @ [empty_node], length nodes)"

definition paramTraits :: "(ParamType \<times> string) list" where
  "paramTraits =
     [(P_INT, ''<int>''), (P_UINT, ''<uint>''), (P_DOUBLE, ''<float>''), (P_DOUBLE, ''<double>''),
      (P_STRING, ''<str>''), (P_STRING, ''<string>''), (P_PATH, ''<path>'')]"

text \<open>The first entry of the table that stands at position \<open>i\<close>.\<close>

definition tag_at :: "string \<Rightarrow> nat \<Rightarrow> (ParamType \<times> string) option" where
  "tag_at url i = find (\<lambda>(t, name). take (length name) (drop i url) = name) paramTraits"

definition enter_param :: "trie_node list \<Rightarrow> nat \<Rightarrow> ParamType \<Rightarrow> trie_node list \<times> nat" where
  "enter_param nodes idx t =
     (if param_child (nodes ! idx) t = 0 then
        let (nodes1, k) = new_node nodes; n = nodes1 ! idx
        in (nodes1[idx := n\<lparr>param_childrens := (param_childrens n)[param_ix t := k]\<rparr>], k)
      else (nodes, param_child (nodes ! idx) t))"

definition enter_piece :: "trie_node list \<Rightarrow> nat \<Rightarrow> char \<Rightarrow> trie_node list \<times> nat" where
  "enter_piece nodes idx c =
     (case map_of (children (nodes ! idx)) [c] of
        None \<Rightarrow> let (nodes1, k) = new_node nodes; n = nodes1 ! idx
                in (nodes1[idx := n\<lparr>children := children n @ [([c], k)]\<rparr>], k)
      | Some k \<Rightarrow> (nodes, k))"

text \<open>
  The loop of \<^verbatim>\<open>add\<close>. On a \<^verbatim>\<open><\<close> that starts no entry of the table the loop variable is decremented
  and incremented again, so the loop stays where it is; not returning is the value \<open>None\<close>.
\<close>

partial_function (option) add_loop ::
  "trie_node list \<Rightarrow> string \<Rightarrow> nat \<Rightarrow> nat \<Rightarrow> (trie_node list \<times> nat) option" where
  [code]: "add_loop nodes url idx i =
     (if length url \<le> i then Some (nodes, idx)
      else if url ! i = CHR ''<'' then
        (case tag_at url i of
           Some (t, name) \<Rightarrow>
             let (nodes1, idx1) = enter_param nodes idx t
             in add_loop nodes1 url idx1 (i + length name)
         | None \<Rightarrow> add_loop nodes url idx i)
      else
        let (nodes1, idx1) = enter_piece nodes idx (url ! i)
        in add_loop nodes1 url idx1 (i + 1))"

text \<open>
  \<^verbatim>\<open>add\<close>: the nodes afterwards (the loop's insertions stay when the exception is thrown) and the
  message of the exception.
\<close>

definition trie_add :: "trie_node list \<Rightarrow> string \<Rightarrow> nat \<Rightarrow> (trie_node list \<times> string option) option" where
  "trie_add nodes url r =
     (case add_loop nodes url 0 0 of
        None \<Rightarrow> None
      | Some (nodes1, idx) \<Rightarrow>
          if rule_index (nodes1 ! idx) \<noteq> 0
          then Some (nodes1, Some (''handler already exists for '' @ url))
          else Some (nodes1[idx := (nodes1 ! idx)\<lparr>rule_index := r\<rparr>], None))"

end
