(* ===== verification/Crow_Trie_Spec.thy ===== *)
theory Crow_Trie_Spec
  imports Crow_Trie
begin

text \<open>
  The abstract view of the URL trie: a finite map from patterns to rule numbers. A pattern is the
  list of tokens (literal characters and typed placeholders) that \<^verbatim>\<open>Trie::add\<close> reads off a rule.
  The theory has the invariant of the tries that \<^verbatim>\<open>add\<close> builds, the refinement theorem of \<^verbatim>\<open>add\<close>
  and that of \<^verbatim>\<open>find\<close>.
\<close>

section \<open>Patterns\<close>

datatype tok = Lit char | Par ParamType

lemma tag_at_len: "tag_at url i = Some (t, name) \<Longrightarrow> 0 < length name"
  by (auto simp: tag_at_def paramTraits_def split: if_splits)

text \<open>The pattern of a rule from position \<open>i\<close> on; \<open>None\<close> if it has an unknown placeholder.\<close>

function pattern_from :: "string \<Rightarrow> nat \<Rightarrow> tok list option" where
  "pattern_from url i =
     (if length url \<le> i then Some []
      else if url ! i = CHR ''<'' then
        (case tag_at url i of
           Some (t, name) \<Rightarrow> map_option (Cons (Par t)) (pattern_from url (i + length name))
         | None \<Rightarrow> None)
      else map_option (Cons (Lit (url ! i))) (pattern_from url (i + 1)))"
  by pat_completeness auto
termination
  by (relation "measure (\<lambda>(url, i). length url - i)") (auto dest!: tag_at_len intro!: diff_less_mono2)

declare pattern_from.simps [simp del]

fun tok_match ::
  "'d strtod_fn \<Rightarrow> tok \<Rightarrow> string \<Rightarrow> nat \<Rightarrow> 'd routing_params \<Rightarrow> (nat \<times> 'd routing_params) option" where
  "tok_match strtod (Lit c) url pos ps =
     (if pos < length url \<and> url ! pos = c then Some (pos + 1, ps) else None)"
| "tok_match strtod (Par t) url pos ps = scan_param strtod t url pos ps"

text \<open>The parameters with which a pattern matches the whole rest of the URL.\<close>

fun pat_match ::
  "'d strtod_fn \<Rightarrow> tok list \<Rightarrow> string \<Rightarrow> nat \<Rightarrow> 'd routing_params \<Rightarrow> 'd routing_params option" where
  "pat_match strtod [] url pos ps = (if pos = length url then Some ps else None)"
| "pat_match strtod (u # us) url pos ps =
     (case tok_match strtod u url pos ps of
        None \<Rightarrow> None
      | Some (p, q) \<Rightarrow> pat_match strtod us url p q)"

section \<open>Walking a trie along a pattern\<close>

fun tok_step :: "trie_node list \<Rightarrow> nat \<Rightarrow> tok \<Rightarrow> nat option" where
  "tok_step nodes i (Lit c) = map_of (children (nodes ! i)) [c]"
| "tok_step nodes i (Par t) =
     (if param_child (nodes ! i) t = 0 then None else Some (param_child (nodes ! i) t))"

fun walk :: "trie_node list \<Rightarrow> nat \<Rightarrow> tok list \<Rightarrow> nat option" where
  "walk nodes i [] = Some i"
| "walk nodes i (u # us) = (case tok_step nodes i u of None \<Rightarrow> None | Some j \<Rightarrow> walk nodes j us)"

definition rules_of :: "trie_node list \<Rightarrow> tok list \<Rightarrow> nat" where
  "rules_of nodes p = (case walk nodes 0 p of None \<Rightarrow> 0 | Some i \<Rightarrow> rule_index (nodes ! i))"

definition node_wf :: "nat \<Rightarrow> nat \<Rightarrow> trie_node \<Rightarrow> bool" where
  "node_wf N i n \<longleftrightarrow>
     length (param_childrens n) = 5 \<and>
     (\<forall>x \<in> set (param_childrens n). x = 0 \<or> i < x \<and> x < N) \<and>
     distinct (map fst (children n)) \<and>
     (\<forall>(k, j) \<in> set (children n). length k = 1 \<and> i < j \<and> j < N)"

definition trie_inv :: "trie_node list \<Rightarrow> bool" where
  "trie_inv nodes \<longleftrightarrow>
     nodes \<noteq> [] \<and> (\<forall>i < length nodes. node_wf (length nodes) i (nodes ! i)) \<and>
     (\<forall>p q i. walk nodes 0 p = Some i \<longrightarrow> walk nodes 0 q = Some i \<longrightarrow> p = q)"

lemma param_ix_less [simp]: "param_ix t < 5"
  by (cases t) simp_all

lemma param_ix_inject [simp]: "param_ix t = param_ix u \<longleftrightarrow> t = u"
  by (cases t; cases u) simp_all

lemma tok_step_range:
  assumes "trie_inv nodes" and "i < length nodes" and "tok_step nodes i u = Some j"
  shows "i < j \<and> j < length nodes"
proof -
  have wf: "node_wf (length nodes) i (nodes ! i)" using assms by (simp add: trie_inv_def)
  show ?thesis
  proof (cases u)
    case (Lit c)
    then have "([c], j) \<in> set (children (nodes ! i))"
      using assms(3) by (simp add: map_of_SomeD)
    then show ?thesis using wf by (fastforce simp: node_wf_def)
  next
    case (Par t)
    then have "j \<in> set (param_childrens (nodes ! i))" and "j \<noteq> 0"
      using assms(3) wf by (auto simp: param_child_def node_wf_def split: if_splits)
    then show ?thesis using wf by (auto simp: node_wf_def)
  qed
qed

lemma walk_append:
  "walk nodes i (p @ q) = (case walk nodes i p of None \<Rightarrow> None | Some j \<Rightarrow> walk nodes j q)"
  by (induction p arbitrary: i) (auto split: option.splits)

lemma walk_range:
  "trie_inv nodes \<Longrightarrow> i < length nodes \<Longrightarrow> walk nodes i p = Some j \<Longrightarrow> j < length nodes"
  by (induction p arbitrary: i) (auto split: option.splits dest: tok_step_range)

lemma trie_inv_nonempty [simp]: "trie_inv nodes \<Longrightarrow> 0 < length nodes"
  by (simp add: trie_inv_def)

section \<open>Growing a trie by one node\<close>

text \<open>
  Both ways of growing a trie hang one empty node below node \<open>i\<close>, at a token that had none.
\<close>

definition grown :: "trie_node list \<Rightarrow> nat \<Rightarrow> tok \<Rightarrow> trie_node list \<Rightarrow> bool" where
  "grown nodes i u nodes' \<longleftrightarrow>
     length nodes' = Suc (length nodes) \<and>
     tok_step nodes i u = None \<and>
     (\<forall>j < length nodes. rule_index (nodes' ! j) = rule_index (nodes ! j) \<and>
        (\<forall>v. tok_step nodes' j v = (if j = i \<and> v = u then Some (length nodes) else tok_step nodes j v))) \<and>
     nodes' ! length nodes = empty_node \<and>
     (\<forall>j < length nodes. node_wf (Suc (length nodes)) j (nodes' ! j))"

lemma tok_step_empty_node [simp]: "nodes ! i = empty_node \<Longrightarrow> tok_step nodes i v = None"
  by (cases v) (simp_all add: empty_node_def param_child_def)

lemma node_wf_empty [simp]: "node_wf N i empty_node"
  by (simp add: node_wf_def empty_node_def)

lemma grown_walk:
  assumes inv: "trie_inv nodes" and g: "grown nodes i u nodes'" and p0: "walk nodes 0 p0 = Some i"
  shows "walk nodes' 0 p = (if p = p0 @ [u] then Some (length nodes) else walk nodes 0 p)"
proof (induction p rule: rev_induct)
  case Nil
  then show ?case by simp
next
  case (snoc v p)
  have new: "tok_step nodes' (length nodes) v = None" and no: "tok_step nodes i u = None"
    using g by (simp_all add: grown_def)
  have uniq: "p = p0 \<longleftrightarrow> walk nodes 0 p = Some i"
    using inv p0 unfolding trie_inv_def by blast
  show ?case
  proof (cases "p = p0 @ [u]")
    case True
    then have "walk nodes' 0 p = Some (length nodes)" and "walk nodes 0 p = None"
      using snoc.IH no p0 by (simp_all add: walk_append)
    then have "walk nodes' 0 (p @ [v]) = None" and "walk nodes 0 (p @ [v]) = None"
      using new by (simp_all add: walk_append)
    then show ?thesis using True by simp
  next
    case False
    then have eq: "walk nodes' 0 p = walk nodes 0 p" using snoc.IH by simp
    show ?thesis
    proof (cases "walk nodes 0 p")
      case None
      then show ?thesis using eq uniq by (simp add: walk_append)
    next
      case (Some j)
      then have "j < length nodes"
        using inv by (meson walk_range trie_inv_nonempty)
      then have "tok_step nodes' j v = (if j = i \<and> v = u then Some (length nodes) else tok_step nodes j v)"
        using g by (simp add: grown_def)
      then show ?thesis
        using eq uniq Some by (auto simp: walk_append split: option.splits)
    qed
  qed
qed

lemma grown_inv:
  assumes inv: "trie_inv nodes" and g: "grown nodes i u nodes'" and p0: "walk nodes 0 p0 = Some i"
  shows "trie_inv nodes' \<and> walk nodes' 0 (p0 @ [u]) = Some (length nodes) \<and>
         rules_of nodes' = rules_of nodes"
proof -
  note W = grown_walk [OF inv g p0]
  have len: "length nodes' = Suc (length nodes)" and new: "nodes' ! length nodes = empty_node"
    using g by (simp_all add: grown_def)
  have old: "walk nodes 0 p = Some j \<Longrightarrow> j < length nodes" for p j
    using inv by (meson walk_range trie_inv_nonempty)
  have no: "walk nodes 0 (p0 @ [u]) = None"
    using g p0 by (simp add: walk_append grown_def)
  have "node_wf (length nodes') j (nodes' ! j)" if "j < length nodes'" for j
    using that g new by (cases "j = length nodes") (auto simp: grown_def)
  moreover have "p = q" if "walk nodes' 0 p = Some j" "walk nodes' 0 q = Some j" for p q j
    using that inv old [of _ j] unfolding W trie_inv_def
    by (metis less_irrefl option.inject)
  ultimately have "trie_inv nodes'"
    using len unfolding trie_inv_def by (metis list.size(3) nat.distinct(1))
  moreover have "rules_of nodes' p = rules_of nodes p" for p
    using W [of p] new no old [of p] g
    by (auto simp: rules_of_def empty_node_def grown_def split: option.splits)
  ultimately show ?thesis using W by auto
qed


definition entered :: "trie_node list \<Rightarrow> nat \<Rightarrow> tok \<Rightarrow> trie_node list \<Rightarrow> nat \<Rightarrow> bool" where
  "entered nodes i u nodes' k \<longleftrightarrow>
     nodes' = nodes \<and> tok_step nodes i u = Some k \<or> grown nodes i u nodes' \<and> k = length nodes"

lemma node_wf_mono: "node_wf N i n \<Longrightarrow> N \<le> M \<Longrightarrow> node_wf M i n"
  by (fastforce simp: node_wf_def)

lemma tok_step_cong: "nodes' ! j = nodes ! i \<Longrightarrow> tok_step nodes' j v = tok_step nodes i v"
  by (cases v) simp_all

lemma grownI:
  assumes inv: "trie_inv nodes" and i: "i < length nodes" and no: "tok_step nodes i u = None"
    and nodes': "nodes' = (nodes @ [empty_node])[i := n']"
    and n': "rule_index n' = rule_index (nodes ! i)" "node_wf (Suc (length nodes)) i n'"
    and step: "\<And>v. tok_step nodes' i v = (if v = u then Some (length nodes) else tok_step nodes i v)"
  shows "grown nodes i u nodes'"
proof -
  have nth: "nodes' ! j = (if j = i then n' else nodes ! j)" if "j < length nodes" for j
    using that i by (simp add: nodes' nth_append nth_list_update)
  have "node_wf (Suc (length nodes)) j (nodes' ! j)" if "j < length nodes" for j
    using that n' inv by (auto simp: nth trie_inv_def intro: node_wf_mono)
  moreover have "tok_step nodes' j v = (if j = i \<and> v = u then Some (length nodes) else tok_step nodes j v)"
    if "j < length nodes" for j v
    using that step nth [OF that] by (cases "j = i") (auto intro: tok_step_cong)
  moreover have "rule_index (nodes' ! j) = rule_index (nodes ! j)" if "j < length nodes" for j
    using that n' by (simp add: nth)
  moreover have "length nodes' = Suc (length nodes)" and "nodes' ! length nodes = empty_node"
    using i by (simp_all add: nodes' nth_append)
  ultimately show ?thesis using no by (simp add: grown_def)
qed

lemma enter_param_entered:
  assumes inv: "trie_inv nodes" and i: "i < length nodes" and e: "enter_param nodes i t = (nodes', k)"
  shows "entered nodes i (Par t) nodes' k"
proof (cases "param_child (nodes ! i) t = 0")
  case True
  let ?n = "nodes ! i"
  let ?n' = "?n\<lparr>param_childrens := (param_childrens ?n)[param_ix t := length nodes]\<rparr>"
  have nodes': "nodes' = (nodes @ [empty_node])[i := ?n']" and k: "k = length nodes"
    using e True i by (auto simp: enter_param_def new_node_def nth_append Let_def)
  have wf: "node_wf (length nodes) i ?n" using inv i by (simp add: trie_inv_def)
  then have "node_wf (Suc (length nodes)) i ?n'"
    using i by (fastforce simp: node_wf_def dest: set_update_subset_insert [THEN subsetD])
  moreover have "param_child ?n' u = (if u = t then length nodes else param_child ?n u)" for u
    using wf by (simp add: param_child_def nth_list_update node_wf_def)
  then have "tok_step nodes' i v = (if v = Par t then Some (length nodes) else tok_step nodes i v)" for v
    using i by (cases v) (auto simp: nodes')
  ultimately have "grown nodes i (Par t) nodes'"
    by (intro grownI [OF inv i _ nodes']) (simp_all add: True)
  then show ?thesis using k by (simp add: entered_def)
next
  case False
  then show ?thesis using e by (auto simp: enter_param_def entered_def)
qed

lemma enter_piece_entered:
  assumes inv: "trie_inv nodes" and i: "i < length nodes" and e: "enter_piece nodes i c = (nodes', k)"
  shows "entered nodes i (Lit c) nodes' k"
proof (cases "map_of (children (nodes ! i)) [c]")
  case None
  let ?n = "nodes ! i"
  let ?n' = "?n\<lparr>children := children ?n @ [([c], length nodes)]\<rparr>"
  have nodes': "nodes' = (nodes @ [empty_node])[i := ?n']" and k: "k = length nodes"
    using e None i by (auto simp: enter_piece_def new_node_def nth_append Let_def)
  have "node_wf (length nodes) i ?n" using inv i by (simp add: trie_inv_def)
  moreover have "[c] \<notin> fst ` set (children ?n)" using None by (simp add: map_of_eq_None_iff)
  ultimately have "node_wf (Suc (length nodes)) i ?n'"
    using i by (fastforce simp: node_wf_def)
  moreover have "tok_step nodes' i v = (if v = Lit c then Some (length nodes) else tok_step nodes i v)" for v
    using i None by (cases v) (auto simp: nodes' map_add_def param_child_def split: option.splits)
  ultimately have "grown nodes i (Lit c) nodes'"
    by (intro grownI [OF inv i _ nodes']) (simp_all add: None)
  then show ?thesis using k by (simp add: entered_def)
next
  case (Some j)
  then show ?thesis using e by (simp add: enter_piece_def entered_def)
qed

lemma entered_inv:
  assumes "trie_inv nodes" and "walk nodes 0 p0 = Some i" and "entered nodes i u nodes' k"
  shows "trie_inv nodes' \<and> walk nodes' 0 (p0 @ [u]) = Some k \<and> rules_of nodes' = rules_of nodes \<and>
         (\<forall>q. walk nodes' 0 q \<noteq> None \<longrightarrow> walk nodes 0 q \<noteq> None \<or> q = p0 @ [u])"
  using assms grown_inv [OF assms(1) _ assms(2)] grown_walk [OF assms(1) _ assms(2)]
  by (auto simp: entered_def walk_append)

section \<open>add\<close>

lemma pattern_from_tag:
  "i < length url \<Longrightarrow> url ! i = CHR ''<'' \<Longrightarrow> tag_at url i = Some (t, name) \<Longrightarrow>
     pattern_from url i = map_option (Cons (Par t)) (pattern_from url (i + length name))"
  by (subst pattern_from.simps) simp

lemma pattern_from_char:
  "i < length url \<Longrightarrow> url ! i \<noteq> CHR ''<'' \<Longrightarrow>
     pattern_from url i = map_option (Cons (Lit (url ! i))) (pattern_from url (Suc i))"
  by (subst pattern_from.simps) simp

lemma add_loop_pattern:
  assumes "pattern_from url i = Some p" and "trie_inv nodes" and "walk nodes 0 p0 = Some idx"
  shows "\<exists>nodes' idx'. add_loop nodes url idx i = Some (nodes', idx') \<and> trie_inv nodes' \<and>
           walk nodes' 0 (p0 @ p) = Some idx' \<and> rules_of nodes' = rules_of nodes \<and>
           (\<forall>q. walk nodes' 0 q \<noteq> None \<longrightarrow> walk nodes 0 q \<noteq> None \<or> (\<exists>z. p0 @ p = q @ z))"
  using assms
proof (induction url i arbitrary: p nodes p0 idx rule: pattern_from.induct)
  case (1 url i)
  have idx: "idx < length nodes"
    using 1 by (meson walk_range trie_inv_nonempty)
  have step: "\<exists>nodes' idx'. add_loop nodes1 url idx1 i' = Some (nodes', idx') \<and> trie_inv nodes' \<and>
         walk nodes' 0 (p0 @ u # p') = Some idx' \<and> rules_of nodes' = rules_of nodes \<and>
         (\<forall>q. walk nodes' 0 q \<noteq> None \<longrightarrow> walk nodes 0 q \<noteq> None \<or> (\<exists>z. p0 @ u # p' = q @ z))"
    if IH: "\<And>nodes p0 idx. trie_inv nodes \<Longrightarrow> walk nodes 0 p0 = Some idx \<Longrightarrow>
         \<exists>nodes' idx'. add_loop nodes url idx i' = Some (nodes', idx') \<and> trie_inv nodes' \<and>
           walk nodes' 0 (p0 @ p') = Some idx' \<and> rules_of nodes' = rules_of nodes \<and>
           (\<forall>q. walk nodes' 0 q \<noteq> None \<longrightarrow> walk nodes 0 q \<noteq> None \<or> (\<exists>z. p0 @ p' = q @ z))"
      and e: "entered nodes idx u nodes1 idx1" for u nodes1 idx1 p' i'
  proof -
    note E = entered_inv [OF "1.prems"(2,3) e]
    obtain nodes' idx' where N: "add_loop nodes1 url idx1 i' = Some (nodes', idx')" "trie_inv nodes'"
        "walk nodes' 0 ((p0 @ [u]) @ p') = Some idx'" "rules_of nodes' = rules_of nodes1"
      and W: "\<And>q. walk nodes' 0 q \<noteq> None \<Longrightarrow> walk nodes1 0 q \<noteq> None \<or> (\<exists>z. (p0 @ [u]) @ p' = q @ z)"
      using IH [of nodes1 "p0 @ [u]" idx1] E by blast
    have "walk nodes 0 q \<noteq> None \<or> (\<exists>z. p0 @ u # p' = q @ z)" if "walk nodes' 0 q \<noteq> None" for q
      using W [OF that] E by auto
    then show ?thesis using N E by (intro exI [of _ nodes'] exI [of _ idx']) simp
  qed
  consider (stop) "length url \<le> i" | (tag) "i < length url" "url ! i = CHR ''<''"
    | (char) "i < length url" "url ! i \<noteq> CHR ''<''" by linarith
  then show ?case
  proof cases
    case stop
    then show ?thesis
      using "1.prems" by (subst add_loop.simps) (simp add: pattern_from.simps [of url i])
  next
    case tag
    obtain t name where t: "tag_at url i = Some (t, name)"
      using "1.prems"(1) tag by (subst (asm) pattern_from.simps) (auto split: option.splits)
    obtain p' where p': "pattern_from url (i + length name) = Some p'" and p: "p = Par t # p'"
      using "1.prems"(1) pattern_from_tag [OF tag t] by auto
    obtain nodes1 idx1 where e: "enter_param nodes idx t = (nodes1, idx1)" by fastforce
    have "add_loop nodes url idx i = add_loop nodes1 url idx1 (i + length name)"
      using tag t e by (subst add_loop.simps) simp
    then show ?thesis
      using step [OF "1.IH"(1) enter_param_entered] tag t p' p e idx "1.prems"(2) by fastforce
  next
    case char
    obtain p' where p': "pattern_from url (Suc i) = Some p'" and p: "p = Lit (url ! i) # p'"
      using "1.prems"(1) pattern_from_char [OF char] by auto
    obtain nodes1 idx1 where e: "enter_piece nodes idx (url ! i) = (nodes1, idx1)" by fastforce
    have "add_loop nodes url idx i = add_loop nodes1 url idx1 (Suc i)"
      using char e by (subst add_loop.simps) simp
    then show ?thesis
      using step [OF "1.IH"(2) enter_piece_entered] char p' p e idx "1.prems"(2) by fastforce
  qed
qed

lemma add_loop_returns:
  assumes "add_loop nodes url idx i = Some y"
  shows "pattern_from url i \<noteq> None"
proof (rule add_loop.raw_induct [where P = "\<lambda>_ url _ i _. pattern_from url i \<noteq> None", OF _ assms])
  fix loop :: "trie_node list \<Rightarrow> string \<Rightarrow> nat \<Rightarrow> nat \<Rightarrow> (trie_node list \<times> nat) option"
  fix nodes url idx i y
  assume IH: "\<And>nodes url idx i y. loop nodes url idx i = Some y \<Longrightarrow> pattern_from url i \<noteq> None"
    and body: "(if length url \<le> i then Some (nodes, idx)
      else if url ! i = CHR ''<'' then
        (case tag_at url i of
           Some (t, name) \<Rightarrow>
             let (nodes1, idx1) = enter_param nodes idx t
             in loop nodes1 url idx1 (i + length name)
         | None \<Rightarrow> loop nodes url idx i)
      else
        let (nodes1, idx1) = enter_piece nodes idx (url ! i)
        in loop nodes1 url idx1 (i + 1)) = Some y"
  show "pattern_from url i \<noteq> None"
  proof (cases "tag_at url i")
    case None
    then show ?thesis
      using body IH [of nodes url idx i] IH [of _ url _ "i + 1"] pattern_from_char [of i url]
      by (auto simp: case_prod_unfold Let_def pattern_from.simps [of url i] split: if_splits)
  next
    case (Some tn)
    then show ?thesis
      using body IH [of _ url _ "i + length (snd tn)"] IH [of _ url _ "i + 1"]
      by (auto simp: case_prod_unfold Let_def pattern_from.simps [of url i] split: if_splits)
  qed
qed


lemma set_rule_inv:
  assumes inv: "trie_inv nodes" and p: "walk nodes 0 p = Some i"
    and nodes'_def: "nodes' = nodes[i := (nodes ! i)\<lparr>rule_index := r\<rparr>]"
  shows "trie_inv nodes' \<and> rules_of nodes' = (rules_of nodes)(p := r) \<and> walk nodes' 0 = walk nodes 0"
proof -
  have i: "i < length nodes" using inv p by (meson walk_range trie_inv_nonempty)
  have nth: "nodes' ! j = (if j = i then (nodes ! i)\<lparr>rule_index := r\<rparr> else nodes ! j)" for j
    using i by (simp add: nodes'_def nth_list_update)
  have "tok_step nodes' j v = tok_step nodes j v" for j v
    by (cases v) (simp_all add: nth param_child_def)
  then have W: "walk nodes' j q = walk nodes j q" for j q
    by (induction q arbitrary: j) (simp_all split: option.splits)
  have "node_wf (length nodes) j (nodes' ! j)" if "j < length nodes" for j
    using inv that by (auto simp: nth trie_inv_def node_wf_def)
  then have "trie_inv nodes'"
    using inv unfolding trie_inv_def W by (auto simp: nodes'_def)
  moreover have "q = p \<longleftrightarrow> walk nodes 0 q = Some i" for q
    using inv p unfolding trie_inv_def by blast
  then have "rules_of nodes' q = ((rules_of nodes)(p := r)) q" for q
    by (auto simp: rules_of_def W nth split: option.splits)
  ultimately show ?thesis using W by blast
qed

lemma trie_inv_init: "trie_inv Trie_init" and rules_of_init: "rules_of Trie_init p = 0"
proof -
  have "walk Trie_init 0 q = (if q = [] then Some 0 else None)" for q
    by (cases q) (simp_all add: Trie_init_def)
  then show "trie_inv Trie_init" and "rules_of Trie_init p = 0"
    by (auto simp: trie_inv_def rules_of_def Trie_init_def empty_node_def node_wf_def split: if_splits)
qed

lemma trie_add_hangs: "pattern_from url 0 = None \<Longrightarrow> trie_add nodes url r = None"
  using add_loop_returns [of nodes url 0 0]
  by (cases "add_loop nodes url 0 0") (simp_all add: trie_add_def)

lemma trie_add_pattern:
  assumes "trie_inv nodes" and "pattern_from url 0 = Some p"
  shows "\<exists>nodes'. trie_inv nodes' \<and>
           (if rules_of nodes p = 0
            then trie_add nodes url r = Some (nodes', None) \<and> rules_of nodes' = (rules_of nodes)(p := r)
            else trie_add nodes url r = Some (nodes', Some (''handler already exists for '' @ url)) \<and>
                 rules_of nodes' = rules_of nodes) \<and>
           (\<forall>q. walk nodes' 0 q \<noteq> None \<longrightarrow> walk nodes 0 q \<noteq> None \<or> (\<exists>z. p = q @ z))"
proof -
  obtain nodes1 idx where loop: "add_loop nodes url 0 0 = Some (nodes1, idx)"
    and inv: "trie_inv nodes1" and idx: "walk nodes1 0 p = Some idx"
    and same: "rules_of nodes1 = rules_of nodes"
    and W: "\<And>q. walk nodes1 0 q \<noteq> None \<Longrightarrow> walk nodes 0 q \<noteq> None \<or> (\<exists>z. p = q @ z)"
    using add_loop_pattern [of url 0 p nodes "[]" 0] assms by auto
  let ?nodes' = "nodes1[idx := (nodes1 ! idx)\<lparr>rule_index := r\<rparr>]"
  have "rule_index (nodes1 ! idx) = rules_of nodes p"
    using idx same [symmetric] by (simp add: rules_of_def)
  then show ?thesis
    using loop inv same W set_rule_inv [OF inv idx refl, of r]
    by (cases "rules_of nodes p = 0") (auto simp: trie_add_def simp del: not_None_eq)
qed

text \<open>
  C15. \<^verbatim>\<open>Trie::add\<close> implements the update of a map from patterns to rule numbers. On a trie that satisfies the
  invariant, adding a rule whose placeholders are all known either sets the number of its pattern, and
  changes no other pattern, or, when the pattern has a number already, throws \<^verbatim>\<open>handler already exists\<close>
  and changes nothing; both keep the invariant. On a rule with an unknown placeholder, or a \<^verbatim>\<open><\<close> that starts
  none, the call never returns.
\<close>

theorem trie_add_refines:
  assumes "trie_inv nodes"
  shows "case pattern_from url 0 of
           None \<Rightarrow> trie_add nodes url r = None
         | Some p \<Rightarrow> \<exists>nodes'. trie_inv nodes' \<and>
             (if rules_of nodes p = 0
              then trie_add nodes url r = Some (nodes', None) \<and>
                   rules_of nodes' = (rules_of nodes)(p := r)
              else trie_add nodes url r = Some (nodes', Some (''handler already exists for '' @ url)) \<and>
                   rules_of nodes' = rules_of nodes)"
proof (cases "pattern_from url 0")
  case None
  then show ?thesis by (simp add: trie_add_hangs)
next
  case (Some p)
  then show ?thesis unfolding Some option.case using trie_add_pattern [OF assms Some, of r] by blast
qed

theorem trie_add_refines_witness:
  "pattern_from ''/<str>'' 0 = Some [Lit CHR ''/'', Par P_STRING] \<and>
   (\<exists>nodes. trie_inv nodes \<and> trie_add Trie_init ''/<str>'' 2 = Some (nodes, None) \<and>
      rules_of nodes = (\<lambda>_. 0)([Lit CHR ''/'', Par P_STRING] := 2)) \<and>
   trie_add Trie_init ''/<id>'' 2 = None"
proof -
  have p: "pattern_from ''/<str>'' 0 = Some [Lit CHR ''/'', Par P_STRING]"
    by (simp add: pattern_from.simps tag_at_def paramTraits_def)
  have "pattern_from ''/<id>'' 0 = None"
    by (simp add: pattern_from.simps tag_at_def paramTraits_def)
  moreover have "rules_of Trie_init = (\<lambda>_. 0)" by (simp add: fun_eq_iff rules_of_init)
  ultimately show ?thesis
    using trie_add_refines [OF trie_inv_init, of "''/<str>''" 2]
      trie_add_refines [OF trie_inv_init, of "''/<id>''" 2] p
    by simp
qed

section \<open>find\<close>

lemma foldl_update_found:
  "foldl update_found acc rs = r \<Longrightarrow>
     (r = acc \<or> r \<in> set rs) \<and>
     (\<forall>x \<in> set (acc # rs). fst x \<noteq> 0 \<longrightarrow> fst r \<noteq> 0 \<and> fst r \<le> fst x)"
proof (induction rs arbitrary: acc)
  case Nil
  then show ?case by simp
next
  case (Cons x rs)
  have IH: "(r = update_found acc x \<or> r \<in> set rs) \<and>
     (\<forall>y \<in> set (update_found acc x # rs). fst y \<noteq> 0 \<longrightarrow> fst r \<noteq> 0 \<and> fst r \<le> fst y)"
    using Cons.IH [of "update_found acc x"] Cons.prems by simp
  have "update_found acc x = acc \<or> update_found acc x = x" by (simp add: update_found_def)
  moreover have "fst acc \<noteq> 0 \<longrightarrow> fst r \<noteq> 0 \<and> fst r \<le> fst acc" "fst x \<noteq> 0 \<longrightarrow> fst r \<noteq> 0 \<and> fst r \<le> fst x"
    using IH by (fastforce simp: update_found_def split: if_splits)+
  ultimately show ?case using IH unfolding list.set by blast
qed

lemma find_calls_tok:
  assumes inv: "trie_inv nodes" and idx: "idx < length nodes"
  shows "(i, p, q) \<in> set (find_calls strtod (nodes ! idx) url pos ps) \<longleftrightarrow>
     (\<exists>u. tok_step nodes idx u = Some i \<and> tok_match strtod u url pos ps = Some (p, q))"
proof -
  have wf: "node_wf (length nodes) idx (nodes ! idx)" using inv idx by (simp add: trie_inv_def)
  have one: "fragment_matches url pos [c] \<longleftrightarrow> pos < length url \<and> url ! pos = c" for c
    by (cases "pos < length url")
      (simp_all add: fragment_matches_def take_Suc_conv_app_nth hd_drop_conv_nth take_Suc)
  have "(f, i) \<in> set (children (nodes ! idx)) \<longleftrightarrow> (\<exists>c. f = [c] \<and> tok_step nodes idx (Lit c) = Some i)" for f
    using wf by (fastforce simp: node_wf_def length_Suc_conv)
  then have "(\<exists>f. (f, i) \<in> set (children (nodes ! idx)) \<and> fragment_matches url pos f \<and>
         p = pos + length f \<and> q = ps) \<longleftrightarrow>
       (\<exists>c. tok_step nodes idx (Lit c) = Some i \<and> tok_match strtod (Lit c) url pos ps = Some (p, q))"
    using one by fastforce
  moreover have "(\<exists>u. P u) \<longleftrightarrow> (\<exists>t. P (Par t)) \<or> (\<exists>c. P (Lit c))" for P
    by (metis tok.exhaust)
  ultimately show ?thesis
    unfolding find_calls_iff by (auto split: if_splits)
qed

lemma pat_match_end: "pat_match strtod p url (length url) ps = Some q \<Longrightarrow> p = [] \<and> q = ps"
proof (cases p)
  case (Cons u us)
  assume "pat_match strtod p url (length url) ps = Some q"
  then have "tok_match strtod u url (length url) ps \<noteq> None" using Cons by (auto split: option.splits)
  then show ?thesis using scan_param_advance [of strtod _ url "length url" ps] by (cases u) fastforce+
qed (auto split: if_splits)

lemma find_at_sound:
  assumes "trie_inv nodes" and "find_at strtod nodes url idx pos ps = (r, q)" and "r \<noteq> 0"
    and "idx < length nodes"
  shows "\<exists>p i. walk nodes idx p = Some i \<and> rule_index (nodes ! i) = r \<and>
           pat_match strtod p url pos ps = Some q"
  using assms
proof (induction strtod nodes url idx pos ps arbitrary: r q rule: find_at.induct)
  case (1 strtod nodes url idx pos ps)
  show ?case
  proof (cases "pos = length url")
    case True
    then have "walk nodes idx [] = Some idx \<and> rule_index (nodes ! idx) = r \<and>
           pat_match strtod [] url pos ps = Some q"
      using "1.prems"(2) by simp
    then show ?thesis by blast
  next
    case False
    let ?calls = "find_calls strtod (nodes ! idx) url pos ps"
    let ?f = "\<lambda>(i, p, q). find_at strtod nodes url i p q"
    have "foldl update_found (0, no_params) (map ?f ?calls) = (r, q)"
      using "1.prems"(2) unfolding find_at_step [OF False] .
    from foldl_update_found [OF this] have "(r, q) \<in> set (map ?f ?calls)"
      using "1.prems"(3) by (metis fst_conv)
    then obtain i p1 q1 where c: "(i, p1, q1) \<in> set ?calls"
      and r: "find_at strtod nodes url i p1 q1 = (r, q)" by auto
    obtain u where u: "tok_step nodes idx u = Some i" "tok_match strtod u url pos ps = Some (p1, q1)"
      using c find_calls_tok [OF "1.prems"(1,4)] by blast
    have "i < length nodes" using u "1.prems" by (meson tok_step_range)
    then obtain us j where "walk nodes i us = Some j" "rule_index (nodes ! j) = r"
        "pat_match strtod us url p1 q1 = Some q"
      using "1.IH" [OF False c refl refl "1.prems"(1) r "1.prems"(3)] by blast
    then have "walk nodes idx (u # us) = Some j \<and> rule_index (nodes ! j) = r \<and>
        pat_match strtod (u # us) url pos ps = Some q"
      using u by simp
    then show ?thesis by blast
  qed
qed

lemma find_at_least:
  assumes "trie_inv nodes" and "idx < length nodes"
    and "walk nodes idx p = Some i" and "rule_index (nodes ! i) \<noteq> 0"
    and "pat_match strtod p url pos ps = Some q"
  shows "fst (find_at strtod nodes url idx pos ps) \<noteq> 0 \<and>
         fst (find_at strtod nodes url idx pos ps) \<le> rule_index (nodes ! i)"
  using assms
proof (induction p arbitrary: idx pos ps)
  case Nil
  then show ?case by (auto split: if_splits)
next
  case (Cons u us)
  obtain j p1 q1 where u: "tok_step nodes idx u = Some j" "tok_match strtod u url pos ps = Some (p1, q1)"
    and rest: "walk nodes j us = Some i" "pat_match strtod us url p1 q1 = Some q"
    using Cons.prems by (auto split: option.splits)
  have pos: "pos \<noteq> length url" using Cons.prems(5) pat_match_end by fastforce
  let ?calls = "find_calls strtod (nodes ! idx) url pos ps"
  let ?f = "\<lambda>(i, p, q). find_at strtod nodes url i p q"
  have "(j, p1, q1) \<in> set ?calls"
    using u find_calls_tok [OF Cons.prems(1,2)] by blast
  then have mem: "find_at strtod nodes url j p1 q1 \<in> set (map ?f ?calls)" by force
  have "j < length nodes" using u Cons.prems by (meson tok_step_range)
  then have "fst (find_at strtod nodes url j p1 q1) \<noteq> 0 \<and>
      fst (find_at strtod nodes url j p1 q1) \<le> rule_index (nodes ! i)"
    using Cons.IH Cons.prems(1,4) rest by blast
  moreover have "find_at strtod nodes url idx pos ps = foldl update_found (0, no_params) (map ?f ?calls)"
    using pos by (rule find_at_step)
  moreover have "fst x \<noteq> 0 \<Longrightarrow> fst (find_at strtod nodes url idx pos ps) \<noteq> 0 \<and>
      fst (find_at strtod nodes url idx pos ps) \<le> fst x" if "x \<in> set (map ?f ?calls)" for x
    using foldl_update_found [OF calculation(2) [symmetric]] that by (simp only: list.set insert_iff) blast
  ultimately show ?case
    using mem le_trans by blast
qed

lemma trie_find_bound:
  assumes "trie_inv nodes" and nz: "rules_of nodes p \<noteq> 0"
    and m: "pat_match strtod p url 0 no_params = Some q"
  shows "fst (trie_find strtod nodes url) \<noteq> 0 \<and> fst (trie_find strtod nodes url) \<le> rules_of nodes p"
proof -
  obtain i where "walk nodes 0 p = Some i" "rules_of nodes p = rule_index (nodes ! i)"
    using nz by (cases "walk nodes 0 p") (auto simp: rules_of_def)
  then show ?thesis
    using find_at_least [OF assms(1) trie_inv_nonempty [OF assms(1)], of p i strtod url 0 no_params q] nz m
    by (simp add: trie_find_def)
qed

lemma trie_find_sound:
  assumes "trie_inv nodes" and "trie_find strtod nodes url = (r, ps)" and "r \<noteq> 0"
  shows "\<exists>p. rules_of nodes p = r \<and> pat_match strtod p url 0 no_params = Some ps"
  using find_at_sound [OF assms(1) _ assms(3) trie_inv_nonempty [OF assms(1)], of strtod url 0 no_params ps]
    assms(2)
  by (force simp: trie_find_def rules_of_def)

text \<open>
  C8. \<^verbatim>\<open>Trie::find\<close> answers the least rule number whose pattern matches the whole URL, with the
  parameters that pattern reads off it, and 0 exactly when no pattern of the trie matches.
\<close>

theorem trie_find_least:
  assumes "trie_inv nodes"
  shows "case trie_find strtod nodes url of
           (r, ps) \<Rightarrow>
             (if r = 0 then \<forall>p. rules_of nodes p \<noteq> 0 \<longrightarrow> pat_match strtod p url 0 no_params = None
              else (\<exists>p. rules_of nodes p = r \<and> pat_match strtod p url 0 no_params = Some ps) \<and>
                   (\<forall>p. rules_of nodes p \<noteq> 0 \<longrightarrow> pat_match strtod p url 0 no_params \<noteq> None \<longrightarrow>
                        r \<le> rules_of nodes p))"
proof -
  obtain r ps where f: "trie_find strtod nodes url = (r, ps)" by fastforce
  have "r \<noteq> 0 \<and> r \<le> rules_of nodes p"
    if "rules_of nodes p \<noteq> 0" "pat_match strtod p url 0 no_params \<noteq> None" for p
    using trie_find_bound [OF assms that(1)] that(2) f by fastforce
  then show ?thesis
    using f trie_find_sound [OF assms f] by (auto simp del: not_None_eq)
qed

theorem trie_find_least_witness:
  "\<exists>nodes. trie_add Trie_init ''/<str>'' 2 = Some (nodes, None) \<and> trie_inv nodes \<and>
     trie_find (\<lambda>_. (0 :: int, 0, False)) nodes ''/x'' = (2, no_params\<lparr>string_params := [''x'']\<rparr>)"
proof -
  let ?strtod = "\<lambda>_. (0 :: int, 0, False)"
  let ?p = "[Lit CHR ''/'', Par P_STRING]"
  have p: "pattern_from ''/<str>'' 0 = Some ?p"
    by (simp add: pattern_from.simps tag_at_def paramTraits_def)
  obtain nodes where nodes: "trie_inv nodes" "trie_add Trie_init ''/<str>'' 2 = Some (nodes, None)"
      "rules_of nodes = (rules_of Trie_init)(?p := 2)"
    using trie_add_pattern [OF trie_inv_init p, of 2] by (auto simp: rules_of_init)
  have m: "pat_match ?strtod ?p ''/x'' 0 no_params = Some (no_params\<lparr>string_params := [''x'']\<rparr>)"
    by (simp add: scan_string_def no_params_def)
  obtain r ps where f: "trie_find ?strtod nodes ''/x'' = (r, ps)" by fastforce
  have "r = 2 \<and> ps = no_params\<lparr>string_params := [''x'']\<rparr>"
    using trie_find_least [OF nodes(1), of ?strtod "''/x''"] m f nodes(3)
    by (auto simp: rules_of_init split: if_splits)
  then show ?thesis using nodes f by blast
qed

end
