(* ===== verification/Crow_Trie_Opt.thy ===== *)
theory Crow_Trie_Opt
  imports Crow_Trie_Spec "HOL-Library.AList" "HOL-Library.Sublist"
begin

text \<open>
  The path compression of the URL trie (\<^verbatim>\<open>Trie::optimizeNode\<close>, \<^verbatim>\<open>optimize\<close> and \<^verbatim>\<open>validate\<close>): a node
  whose children all are simple takes over its grandchildren under the joined fragments. The
  recursion is on the trie that it rewrites, so the model carries fuel; the theorem shows that the
  fuel \<^verbatim>\<open>optimize\<close> is given always suffices and that every URL is looked up as before.
\<close>

section \<open>Operations\<close>

text \<open>\<^verbatim>\<open>merged[kv.first + child_kv.first] = child_kv.second\<close>, for every child and grandchild.\<close>

definition merge_children :: "trie_node list \<Rightarrow> (string \<times> nat) list \<Rightarrow> (string \<times> nat) list" where
  "merge_children nodes kids =
     fold (\<lambda>(k, c). fold (\<lambda>(k2, c2). AList.update (k @ k2) c2) (children (nodes ! c))) kids []"

fun opt_fold ::
  "(trie_node list \<Rightarrow> nat \<Rightarrow> trie_node list option) \<Rightarrow> trie_node list \<Rightarrow> nat list \<Rightarrow> trie_node list option"
  where
  "opt_fold g nodes [] = Some nodes"
| "opt_fold g nodes (x # xs) =
     (case g nodes x of None \<Rightarrow> None | Some nodes1 \<Rightarrow> opt_fold g nodes1 xs)"

primrec optimizeNode :: "nat \<Rightarrow> trie_node list \<Rightarrow> nat \<Rightarrow> trie_node list option" where
  "optimizeNode 0 nodes idx = None"
| "optimizeNode (Suc fuel) nodes idx =
     (case opt_fold (optimizeNode fuel) nodes (filter (\<lambda>x. x \<noteq> 0) (param_childrens (nodes ! idx))) of
        None \<Rightarrow> None
      | Some nodes1 \<Rightarrow>
          let node = nodes1 ! idx; kids = children node in
          if kids = [] then Some nodes1
          else if list_all (\<lambda>(k, c). IsSimpleNode (nodes1 ! c)) kids
          then optimizeNode fuel (nodes1[idx := node\<lparr>children := merge_children nodes1 kids\<rparr>]) idx
          else opt_fold (optimizeNode fuel) nodes1 (map snd kids))"

definition optimize :: "trie_node list \<Rightarrow> trie_node list option" where
  "optimize nodes = optimizeNode ((length nodes + 1) * (length nodes + 1)) nodes 0"

text \<open>\<^verbatim>\<open>validate\<close>: the message of the exception on the left.\<close>

definition trie_validate :: "trie_node list \<Rightarrow> (string + trie_node list) option" where
  "trie_validate nodes =
     (if \<not> IsSimpleNode (nodes ! 0)
      then Some (Inl ''Internal error: Trie header should be simple!'')
      else map_option Inr (optimize nodes))"

section \<open>The invariant of a partly compressed trie\<close>

definition onode_wf :: "nat \<Rightarrow> nat \<Rightarrow> trie_node \<Rightarrow> bool" where
  "onode_wf N i n \<longleftrightarrow>
     length (param_childrens n) = 5 \<and>
     (\<forall>x \<in> set (param_childrens n). x = 0 \<or> i < x \<and> x < N) \<and>
     sorted_wrt (\<lambda>x y. parallel (fst x) (fst y)) (children n) \<and>
     (\<forall>(k, j) \<in> set (children n). k \<noteq> [] \<and> i < j \<and> j < N)"

definition trie_wf :: "trie_node list \<Rightarrow> bool" where
  "trie_wf nodes \<longleftrightarrow> (\<forall>i < length nodes. onode_wf (length nodes) i (nodes ! i))"

lemma trie_inv_wf:
  assumes "trie_inv nodes"
  shows "trie_wf nodes"
proof -
  have "sorted_wrt (\<lambda>x y. parallel (fst x) (fst y)) kids"
    if "distinct (map fst kids)" "\<forall>(k, j) \<in> set kids. length k = 1" for kids :: "(string \<times> nat) list"
    using that
  proof (induction kids)
    case (Cons x kids)
    have "parallel (fst x) (fst y)" if "y \<in> set kids" for y
    proof -
      have "length (fst x) = 1" and "length (fst y) = 1" and "fst x \<noteq> fst y"
        using Cons.prems that by (auto simp: case_prod_unfold)
      then show ?thesis by (simp add: not_equal_is_parallel)
    qed
    then show ?case using Cons by simp
  qed simp
  then show ?thesis
    using assms by (fastforce simp: trie_inv_def trie_wf_def node_wf_def onode_wf_def)
qed

lemma trie_wf_child:
  "trie_wf nodes \<Longrightarrow> i < length nodes \<Longrightarrow> (k, c) \<in> set (children (nodes ! i)) \<Longrightarrow>
     k \<noteq> [] \<and> i < c \<and> c < length nodes"
  unfolding trie_wf_def onode_wf_def by blast

lemma trie_wf_param:
  "trie_wf nodes \<Longrightarrow> i < length nodes \<Longrightarrow> x \<in> set (param_childrens (nodes ! i)) \<Longrightarrow>
     x = 0 \<or> i < x \<and> x < length nodes"
  unfolding trie_wf_def onode_wf_def by blast

lemma trie_wf_five:
  "trie_wf nodes \<Longrightarrow> i < length nodes \<Longrightarrow> length (param_childrens (nodes ! i)) = 5"
  by (simp add: trie_wf_def onode_wf_def)

lemma AList_update_fresh: "k \<notin> fst ` set m \<Longrightarrow> AList.update k v m = m @ [(k, v)]"
  by (induction m) auto

lemma fold_update_fresh:
  "distinct (map fst (m @ xs)) \<Longrightarrow> fold (\<lambda>(k, v). AList.update k v) xs m = m @ xs"
  by (induction xs arbitrary: m) (auto simp: AList_update_fresh)

definition joined :: "trie_node list \<Rightarrow> (string \<times> nat) list \<Rightarrow> (string \<times> nat) list" where
  "joined nodes kids =
     concat (map (\<lambda>(k, c). map (\<lambda>(k2, c2). (k @ k2, c2)) (children (nodes ! c))) kids)"

lemma parallel_sorted_distinct:
  "sorted_wrt (\<lambda>x y. parallel (fst x) (fst y)) xs \<Longrightarrow> distinct (map fst xs)"
  by (induction xs) (auto simp: parallel_def)

lemma fold_concat_lists: "fold f (concat xss) s = fold (fold f) xss s"
  by (induction xss arbitrary: s) simp_all

lemma joined_sorted:
  assumes "sorted_wrt (\<lambda>x y. parallel (fst x) (fst y)) kids"
    and "\<forall>(k, c) \<in> set kids. sorted_wrt (\<lambda>x y. parallel (fst x) (fst y)) (children (nodes ! c))"
  shows "sorted_wrt (\<lambda>x y. parallel (fst x) (fst y)) (joined nodes kids)"
  using assms
proof (induction kids)
  case Nil
  then show ?case by (simp add: joined_def)
next
  case (Cons x kids)
  obtain k c where x: "x = (k, c)" by fastforce
  have "sorted_wrt (\<lambda>x y. parallel (fst x) (fst y)) (map (\<lambda>(k2, c2). (k @ k2, c2)) (children (nodes ! c)))"
    using Cons.prems(2) x by (simp add: sorted_wrt_map case_prod_unfold parallel_def)
  moreover have "parallel (fst y) (fst z)"
    if "y \<in> set (map (\<lambda>(k2, c2). (k @ k2, c2)) (children (nodes ! c)))" "z \<in> set (joined nodes kids)" for y z
    using that Cons.prems(1) x by (fastforce simp: joined_def intro: parallel_append)
  ultimately show ?case
    using Cons x by (simp add: joined_def sorted_wrt_append)
qed

lemma merge_children_joined:
  assumes "sorted_wrt (\<lambda>x y. parallel (fst x) (fst y)) (joined nodes kids)"
  shows "merge_children nodes kids = joined nodes kids"
proof -
  have "merge_children nodes kids = fold (\<lambda>(k, v). AList.update k v) (joined nodes kids) []"
    unfolding merge_children_def joined_def fold_concat_lists
    by (simp add: fold_map comp_def case_prod_unfold)
  also have "\<dots> = joined nodes kids"
    using parallel_sorted_distinct [OF assms] by (simp add: fold_update_fresh)
  finally show ?thesis .
qed


section \<open>One merge keeps the invariant and every look-up\<close>

definition merge_at :: "trie_node list \<Rightarrow> nat \<Rightarrow> trie_node list" where
  "merge_at nodes idx =
     nodes[idx := (nodes ! idx)\<lparr>children := merge_children nodes (children (nodes ! idx))\<rparr>]"

lemma merge_children_wf:
  assumes wf: "trie_wf nodes" and idx: "idx < length nodes"
  shows "merge_children nodes (children (nodes ! idx)) = joined nodes (children (nodes ! idx))"
    and "sorted_wrt (\<lambda>x y. parallel (fst x) (fst y)) (joined nodes (children (nodes ! idx)))"
proof -
  have "\<forall>(k, c) \<in> set (children (nodes ! idx)). c < length nodes"
    using assms by (fastforce simp: trie_wf_def onode_wf_def)
  then have "\<forall>(k, c) \<in> set (children (nodes ! idx)).
      sorted_wrt (\<lambda>x y. parallel (fst x) (fst y)) (children (nodes ! c))"
    using wf by (fastforce simp: trie_wf_def onode_wf_def)
  then show s: "sorted_wrt (\<lambda>x y. parallel (fst x) (fst y)) (joined nodes (children (nodes ! idx)))"
    using assms by (intro joined_sorted) (simp_all add: trie_wf_def onode_wf_def)
  show "merge_children nodes (children (nodes ! idx)) = joined nodes (children (nodes ! idx))"
    by (rule merge_children_joined [OF s])
qed

lemma joined_range:
  assumes wf: "trie_wf nodes" and idx: "idx < length nodes"
    and mem: "(k, j) \<in> set (joined nodes (children (nodes ! idx)))"
  shows "k \<noteq> [] \<and> (\<exists>k0 c. (k0, c) \<in> set (children (nodes ! idx)) \<and> c < j) \<and> idx < j \<and> j < length nodes"
proof -
  obtain k0 c k2 where c: "(k0, c) \<in> set (children (nodes ! idx))"
    and j: "(k2, j) \<in> set (children (nodes ! c))" and k: "k = k0 @ k2"
    using mem by (auto simp: joined_def)
  have 1: "k0 \<noteq> [] \<and> idx < c \<and> c < length nodes"
    using wf idx c by (fastforce simp: trie_wf_def onode_wf_def)
  then have "c < j \<and> j < length nodes"
    using wf j by (fastforce simp: trie_wf_def onode_wf_def)
  then show ?thesis using 1 c k by auto
qed

lemma merge_at_wf:
  assumes wf: "trie_wf nodes" and idx: "idx < length nodes"
  shows "trie_wf (merge_at nodes idx)"
proof -
  let ?n = "(nodes ! idx)\<lparr>children := joined nodes (children (nodes ! idx))\<rparr>"
  have "onode_wf (length nodes) idx ?n"
    using wf idx joined_range [OF assms] merge_children_wf(2) [OF assms]
    by (simp add: trie_wf_def onode_wf_def) blast
  then show ?thesis
    using wf idx merge_children_wf(1) [OF assms] by (auto simp: trie_wf_def merge_at_def nth_list_update)
qed

lemma update_found_zero [simp]: "update_found acc (0, q) = acc"
  by (simp add: update_found_def)

lemma update_found_foldl:
  "update_found acc (foldl update_found z rs) = foldl update_found (update_found acc z) rs"
proof (induction rs arbitrary: z)
  case (Cons r rs)
  have "update_found acc (update_found z r) = update_found (update_found acc z) r"
    by (auto simp: update_found_def)
  then show ?case using Cons by simp
qed simp

lemma fragment_matches_prefix: "fragment_matches url pos f \<longleftrightarrow> f \<noteq> [] \<and> prefix f (drop pos url)"
  unfolding fragment_matches_def by (metis append_eq_conv_conj prefix_def take_is_prefix)

lemma fragment_matches_append:
  assumes "k \<noteq> []" and "k2 \<noteq> []"
  shows "fragment_matches url pos (k @ k2) \<longleftrightarrow>
           fragment_matches url pos k \<and> fragment_matches url (pos + length k) k2"
proof -
  have "prefix (k @ k2) xs \<longleftrightarrow> prefix k xs \<and> prefix k2 (drop (length k) xs)" for xs
    by (auto simp: prefix_def)
  then show ?thesis
    using assms by (simp add: fragment_matches_prefix add.commute)
qed

lemma param_child_children [simp]: "param_child (n\<lparr>children := kids\<rparr>) t = param_child n t"
  by (simp add: param_child_def)

lemma simple_calls:
  assumes "IsSimpleNode node" and "length (param_childrens node) = 5"
  shows "find_calls strtod node url pos ps = try_children node url pos ps"
proof -
  have "param_child node t = 0" for t
    using assms nth_mem [of "param_ix t" "param_childrens node"]
    by (simp add: IsSimpleNode_def param_child_def list_all_iff)
  then have "try_param strtod node url pos ps = (\<lambda>t. [])"
    by (simp add: try_param_def fun_eq_iff)
  then show ?thesis by (simp add: find_calls_def)
qed


definition calls_of ::
  "(string \<times> nat) list \<Rightarrow> string \<Rightarrow> nat \<Rightarrow> 'd routing_params \<Rightarrow> 'd find_call list" where
  "calls_of kids url pos ps =
     map (\<lambda>(fragment, child). (child, pos + length fragment, ps))
       (filter (\<lambda>(fragment, child). fragment_matches url pos fragment) kids)"

lemma try_children_calls: "try_children node url pos ps = calls_of (children node) url pos ps"
  by (simp add: try_children_def calls_of_def)

lemma calls_of_append [simp]:
  "calls_of (xs @ ys) url pos ps = calls_of xs url pos ps @ calls_of ys url pos ps"
  by (simp add: calls_of_def)

lemma calls_of_Nil [simp]: "calls_of [] url pos ps = []"
  by (simp add: calls_of_def)

lemma calls_of_joined_kid:
  assumes "k \<noteq> []" and "\<forall>(k2, c2) \<in> set kids. k2 \<noteq> []"
  shows "calls_of (map (\<lambda>(k2, c2). (k @ k2, c2)) kids) url pos ps =
           (if fragment_matches url pos k then calls_of kids url (pos + length k) ps else [])"
  using assms(2)
proof (induction kids)
  case (Cons x kids)
  then show ?case
    using assms(1) fragment_matches_append [of k "fst x" url pos]
    by (cases x) (auto simp: calls_of_def)
qed simp

lemma calls_of_end [simp]: "calls_of kids url (length url) ps = []"
  by (induction kids) (auto simp: calls_of_def dest: fragment_matches_bound)

lemma simple_kid_find:
  assumes "IsSimpleNode (nodes ! c)" and "length (param_childrens (nodes ! c)) = 5"
  shows "update_found acc (find_at strtod nodes url c pos ps) =
         foldl update_found acc (map (\<lambda>(i, p, q). find_at strtod nodes url i p q)
           (calls_of (children (nodes ! c)) url pos ps))"
proof (cases "pos = length url")
  case True
  then show ?thesis using assms(1) by (simp add: IsSimpleNode_def)
next
  case False
  show ?thesis
    unfolding find_at_step [OF False] update_found_foldl simple_calls [OF assms] try_children_calls
    by simp
qed

lemma joined_find:
  assumes "\<forall>(k, c) \<in> set kids. k \<noteq> [] \<and> IsSimpleNode (nodes ! c) \<and>
             length (param_childrens (nodes ! c)) = 5 \<and> (\<forall>(k2, c2) \<in> set (children (nodes ! c)). k2 \<noteq> [])"
  shows "foldl update_found acc (map (\<lambda>(i, p, q). find_at strtod nodes url i p q)
           (calls_of (joined nodes kids) url pos ps)) =
         foldl update_found acc (map (\<lambda>(i, p, q). find_at strtod nodes url i p q)
           (calls_of kids url pos ps))"
  using assms
proof (induction kids arbitrary: acc)
  case Nil
  then show ?case by (simp add: joined_def)
next
  case (Cons x kids)
  obtain k c where x: "x = (k, c)" by fastforce
  have kid: "k \<noteq> []" "IsSimpleNode (nodes ! c)" "length (param_childrens (nodes ! c)) = 5"
      "\<forall>(k2, c2) \<in> set (children (nodes ! c)). k2 \<noteq> []"
    using Cons.prems x by auto
  have j: "joined nodes (x # kids) =
      map (\<lambda>(k2, c2). (k @ k2, c2)) (children (nodes ! c)) @ joined nodes kids"
    by (simp add: joined_def x)
  have "calls_of (x # kids) url pos ps =
      (if fragment_matches url pos k then [(c, pos + length k, ps)] else []) @ calls_of kids url pos ps"
    by (simp add: calls_of_def x)
  then show ?case
    using Cons simple_kid_find [OF kid(2,3), of _ strtod url "pos + length k" ps]
    unfolding j calls_of_append calls_of_joined_kid [OF kid(1,4)] map_append foldl_append
    by simp
qed

text \<open>Look-ups in two tries agree at every node and position.\<close>

definition find_eq :: "'d strtod_fn \<Rightarrow> trie_node list \<Rightarrow> trie_node list \<Rightarrow> bool" where
  "find_eq strtod nodes nodes' \<longleftrightarrow>
     (\<forall>url i pos ps. i < length nodes \<longrightarrow> pos \<le> length url \<longrightarrow>
        find_at strtod nodes' url i pos ps = find_at strtod nodes url i pos ps)"

lemma find_calls_range:
  assumes "trie_wf nodes" and "i < length nodes"
    and "(j, p, q) \<in> set (find_calls strtod (nodes ! i) url pos ps)"
  shows "j < length nodes"
proof -
  have "param_child (nodes ! i) t \<in> set (param_childrens (nodes ! i))" for t
    using trie_wf_five [OF assms(1,2)] by (simp add: param_child_def)
  then show ?thesis
    using assms(3) trie_wf_param [OF assms(1,2)] trie_wf_child [OF assms(1,2)]
    unfolding find_calls_iff by (metis nat_neq_iff not_less0)
qed

lemma find_at_cong:
  assumes wf: "trie_wf nodes" and i: "i < length nodes" and pos: "pos < length url"
    and IH: "\<And>j p q. j < length nodes \<Longrightarrow> pos < p \<Longrightarrow> p \<le> length url \<Longrightarrow>
               find_at strtod nodes' url j p q = find_at strtod nodes url j p q"
    and calls: "calls = find_calls strtod (nodes ! i) url pos ps"
  shows "map (\<lambda>(j, p, q). find_at strtod nodes' url j p q) calls =
         map (\<lambda>(j, p, q). find_at strtod nodes url j p q) calls"
proof (rule map_cong [OF refl])
  fix x
  assume "x \<in> set calls"
  moreover obtain j p q where x: "x = (j, p, q)" by (cases x) auto
  ultimately have "(j, p, q) \<in> set (find_calls strtod (nodes ! i) url pos ps)" using calls by simp
  from find_calls_range [OF wf i this] find_calls_advance [OF this]
  have "find_at strtod nodes' url j p q = find_at strtod nodes url j p q"
    using pos by (intro IH) auto
  then show "(\<lambda>(j, p, q). find_at strtod nodes' url j p q) x = (\<lambda>(j, p, q). find_at strtod nodes url j p q) x"
    by (simp only: x split_conv)
qed

lemma merge_at_find:
  assumes wf: "trie_wf nodes" and idx: "idx < length nodes"
    and simple: "list_all (\<lambda>(k, c). IsSimpleNode (nodes ! c)) (children (nodes ! idx))"
  shows "find_eq strtod nodes (merge_at nodes idx)"
proof -
  let ?nodes = "merge_at nodes idx"
  let ?n = "(nodes ! idx)\<lparr>children := joined nodes (children (nodes ! idx))\<rparr>"
  have new: "?nodes ! i = (if i = idx then ?n else nodes ! i)" if "i < length nodes" for i
    using that idx merge_children_wf(1) [OF wf idx] by (simp add: merge_at_def nth_list_update)
  have wf': "trie_wf ?nodes" and len: "length ?nodes = length nodes"
    using merge_at_wf [OF wf idx] by (simp_all add: merge_at_def)
  have "k \<noteq> [] \<and> IsSimpleNode (nodes ! c) \<and> length (param_childrens (nodes ! c)) = 5 \<and>
      (\<forall>(k2, c2) \<in> set (children (nodes ! c)). k2 \<noteq> [])"
    if kc: "(k, c) \<in> set (children (nodes ! idx))" for k c
  proof -
    have c: "k \<noteq> []" "c < length nodes" using trie_wf_child [OF wf idx kc] by auto
    have "IsSimpleNode (nodes ! c)" using simple kc by (auto simp: list_all_iff)
    then show ?thesis using c trie_wf_five [OF wf c(2)] trie_wf_child [OF wf c(2)] by blast
  qed
  then have kids: "\<forall>(k, c) \<in> set (children (nodes ! idx)). k \<noteq> [] \<and> IsSimpleNode (nodes ! c) \<and>
      length (param_childrens (nodes ! c)) = 5 \<and> (\<forall>(k2, c2) \<in> set (children (nodes ! c)). k2 \<noteq> [])"
    by blast
  have "find_at strtod ?nodes url i pos ps = find_at strtod nodes url i pos ps"
    if "i < length nodes" "pos \<le> length url" for url i pos ps
    using that
  proof (induction "length url - pos" arbitrary: i pos ps rule: less_induct)
    case less
    show ?case
    proof (cases "pos = length url")
      case True
      then show ?thesis using new less.prems by simp
    next
      case False
      then have pos: "pos < length url" using less.prems by simp
      let ?F = "\<lambda>(j, p, q). find_at strtod nodes url j p q"
      have IH: "find_at strtod ?nodes url j p q = find_at strtod nodes url j p q"
        if "j < length nodes" "pos < p" "p \<le> length url" for j p q
        using less.hyps [of p j q] that pos by simp
      have "map (\<lambda>(j, p, q). find_at strtod ?nodes url j p q) (find_calls strtod (?nodes ! i) url pos ps) =
          map ?F (find_calls strtod (?nodes ! i) url pos ps)"
        by (rule find_at_cong [OF wf' _ pos _ refl, symmetric]) (simp_all add: len less.prems(1) IH)
      then have "find_at strtod ?nodes url i pos ps =
          foldl update_found (0, no_params) (map ?F (find_calls strtod (?nodes ! i) url pos ps))"
        unfolding find_at_step [OF False] by (rule arg_cong)
      also have "\<dots> = foldl update_found (0, no_params) (map ?F (find_calls strtod (nodes ! i) url pos ps))"
      proof (cases "i = idx")
        case True
        have "try_param strtod ?n url pos ps = try_param strtod (nodes ! idx) url pos ps"
          by (simp add: fun_eq_iff try_param_def split: option.split)
        then show ?thesis
          using True joined_find [OF kids] new [OF idx]
          by (simp add: find_calls_def try_children_calls)
      next
        case False
        then show ?thesis using new less.prems by simp
      qed
      also have "\<dots> = find_at strtod nodes url i pos ps"
        by (rule find_at_step [OF False, symmetric])
      finally show ?thesis .
    qed
  qed
  then show ?thesis by (simp add: find_eq_def)
qed


section \<open>The whole compression\<close>

text \<open>
  What a run of \<^verbatim>\<open>optimizeNode\<close> at node \<open>idx\<close> keeps: the invariant, every node below \<open>idx\<close>, and every
  look-up.
\<close>

definition opt_rel :: "'d strtod_fn \<Rightarrow> nat \<Rightarrow> trie_node list \<Rightarrow> trie_node list \<Rightarrow> bool" where
  "opt_rel strtod idx nodes nodes' \<longleftrightarrow>
     trie_wf nodes' \<and> length nodes' = length nodes \<and> (\<forall>j < idx. nodes' ! j = nodes ! j) \<and>
     find_eq strtod nodes nodes'"

lemma opt_rel_refl: "trie_wf nodes \<Longrightarrow> opt_rel strtod idx nodes nodes"
  by (simp add: opt_rel_def find_eq_def)

lemma opt_rel_trans:
  "opt_rel strtod idx a b \<Longrightarrow> opt_rel strtod idx b c \<Longrightarrow> opt_rel strtod idx a c"
  by (simp add: opt_rel_def find_eq_def)

lemma opt_rel_mono: "opt_rel strtod idx a b \<Longrightarrow> j \<le> idx \<Longrightarrow> opt_rel strtod j a b"
  by (simp add: opt_rel_def)

lemma opt_fold_rel:
  assumes "\<And>nodes x. trie_wf nodes \<Longrightarrow> length nodes = N \<Longrightarrow> x \<in> set xs \<Longrightarrow>
             \<exists>nodes'. g nodes x = Some nodes' \<and> opt_rel strtod j nodes nodes'"
    and "trie_wf nodes" and "length nodes = N"
  shows "\<exists>nodes'. opt_fold g nodes xs = Some nodes' \<and> opt_rel strtod j nodes nodes'"
  using assms
proof (induction xs arbitrary: nodes)
  case Nil
  then show ?case by (simp add: opt_rel_refl)
next
  case (Cons x xs)
  obtain nodes1 where 1: "g nodes x = Some nodes1" "opt_rel strtod j nodes nodes1"
    using Cons.prems(1) [OF Cons.prems(2,3) list.set_intros(1)] by blast
  then have "trie_wf nodes1" "length nodes1 = N"
    using Cons.prems(3) by (simp_all add: opt_rel_def)
  then have "\<exists>nodes2. opt_fold g nodes1 xs = Some nodes2 \<and> opt_rel strtod j nodes1 nodes2"
    using Cons.prems(1) by (intro Cons.IH) auto
  then show ?case using 1 opt_rel_trans by fastforce
qed

text \<open>The least index of a child; every merge raises it.\<close>

definition low_child :: "trie_node list \<Rightarrow> nat \<Rightarrow> nat" where
  "low_child nodes idx = Min (insert (length nodes) (snd ` set (children (nodes ! idx))))"

definition opt_measure :: "trie_node list \<Rightarrow> nat \<Rightarrow> nat" where
  "opt_measure nodes idx =
     (length nodes - idx) * (length nodes + 1) + (length nodes - low_child nodes idx)"

lemma opt_measure_sub:
  assumes "idx < x" and "x < length nodes" and "length nodes' = length nodes"
  shows "opt_measure nodes' x < (length nodes - idx) * (length nodes + 1)"
proof -
  have "opt_measure nodes' x \<le> (length nodes - x) * (length nodes + 1) + length nodes"
    using assms(3) by (simp add: opt_measure_def)
  also have "\<dots> < Suc (length nodes - x) * (length nodes + 1)" by simp
  also have "\<dots> \<le> (length nodes - idx) * (length nodes + 1)"
    using assms by (intro mult_le_mono1) simp
  finally show ?thesis .
qed

lemma low_child_merge:
  assumes wf: "trie_wf nodes" and idx: "idx < length nodes" and kids: "children (nodes ! idx) \<noteq> []"
  shows "low_child nodes idx < low_child (merge_at nodes idx) idx"
proof -
  let ?low = "low_child nodes idx"
  have le: "?low \<le> c" if "(k, c) \<in> set (children (nodes ! idx))" for k c
    unfolding low_child_def by (rule Min_le) (use that in force)+
  obtain k c where kc: "(k, c) \<in> set (children (nodes ! idx))" using kids by (cases "children (nodes ! idx)") auto
  then have low: "?low < length nodes" using le trie_wf_child [OF wf idx kc] by fastforce
  have "?low < j" if "(k, j) \<in> set (joined nodes (children (nodes ! idx)))" for k j
    using joined_range [OF wf idx that] le le_less_trans by blast
  then have "\<forall>x \<in> insert (length nodes) (snd ` set (joined nodes (children (nodes ! idx)))). ?low < x"
    using low by auto
  then show ?thesis
    unfolding low_child_def [of "merge_at nodes idx"]
    using idx by (simp add: merge_at_def merge_children_wf(1) [OF wf idx])
qed

lemma opt_measure_merge:
  assumes "trie_wf nodes" and "idx < length nodes" and "children (nodes ! idx) \<noteq> []"
  shows "opt_measure (merge_at nodes idx) idx < opt_measure nodes idx"
proof -
  have "low_child (merge_at nodes idx) idx \<le> length nodes"
    by (simp add: low_child_def merge_at_def)
  then show ?thesis
    using low_child_merge [OF assms] by (simp add: opt_measure_def merge_at_def)
qed


lemma optimizeNode_rel:
  assumes "trie_wf nodes" and "idx < length nodes" and "opt_measure nodes idx < fuel"
  shows "\<exists>nodes'. optimizeNode fuel nodes idx = Some nodes' \<and> opt_rel strtod idx nodes nodes'"
  using assms
proof (induction fuel arbitrary: nodes idx)
  case (Suc fuel)
  let ?N = "length nodes"
  have below: "\<exists>nodes2. optimizeNode fuel nodes1 x = Some nodes2 \<and> opt_rel strtod (Suc idx) nodes1 nodes2"
    if "trie_wf nodes1" "length nodes1 = ?N" "idx < x" "x < ?N" for nodes1 x
  proof -
    have "(?N - idx) * (?N + 1) \<le> opt_measure nodes idx" by (simp add: opt_measure_def)
    then have "opt_measure nodes1 x < fuel"
      using opt_measure_sub [of idx x nodes nodes1] that Suc.prems(3) by linarith
    then show ?thesis using Suc.IH [of nodes1 x] that opt_rel_mono by (metis Suc_leI)
  qed
  let ?ps = "filter (\<lambda>x. x \<noteq> 0) (param_childrens (nodes ! idx))"
  have "idx < x \<and> x < ?N" if "x \<in> set ?ps" for x
    using that trie_wf_param [OF Suc.prems(1,2)] by auto
  then obtain nodes1 where 1: "opt_fold (optimizeNode fuel) nodes ?ps = Some nodes1"
    and r1: "opt_rel strtod (Suc idx) nodes nodes1"
    using opt_fold_rel [where N = ?N and xs = ?ps and j = "Suc idx"] below Suc.prems(1) by metis
  have wf1: "trie_wf nodes1" and len: "length nodes1 = ?N" and same: "nodes1 ! idx = nodes ! idx"
    using r1 by (simp_all add: opt_rel_def)
  have idx1: "idx < length nodes1" using len Suc.prems(2) by simp
  have r1': "opt_rel strtod idx nodes nodes1" using r1 by (rule opt_rel_mono) simp
  let ?kids = "children (nodes1 ! idx)"
  consider "?kids = []" | (merge) "?kids \<noteq> []" "list_all (\<lambda>(k, c). IsSimpleNode (nodes1 ! c)) ?kids"
    | (sub) "?kids \<noteq> []" "\<not> list_all (\<lambda>(k, c). IsSimpleNode (nodes1 ! c)) ?kids" by blast
  then show ?case
  proof cases
    case 1
    then show ?thesis using \<open>opt_fold _ _ _ = _\<close> r1' by simp
  next
    case merge
    let ?m = "merge_at nodes1 idx"
    have "opt_measure ?m idx < opt_measure nodes idx"
      using opt_measure_merge [OF wf1 idx1 merge(1)] len same by (simp add: opt_measure_def low_child_def)
    then obtain nodes2 where "optimizeNode fuel ?m idx = Some nodes2" "opt_rel strtod idx ?m nodes2"
      using Suc.IH [of ?m idx] merge_at_wf [OF wf1 idx1] idx1 Suc.prems(3) by (auto simp: merge_at_def)
    moreover have "opt_rel strtod idx nodes1 ?m"
      using merge_at_wf [OF wf1 idx1] merge_at_find [OF wf1 idx1 merge(2)]
      by (simp add: opt_rel_def merge_at_def)
    moreover have "optimizeNode (Suc fuel) nodes idx = optimizeNode fuel ?m idx"
      using 1 merge by (simp add: merge_at_def Let_def)
    ultimately show ?thesis using r1' opt_rel_trans by metis
  next
    case sub
    have "idx < x \<and> x < ?N" if "x \<in> set (map snd ?kids)" for x
      using that trie_wf_child [OF wf1 idx1] len by auto
    then obtain nodes2 where "opt_fold (optimizeNode fuel) nodes1 (map snd ?kids) = Some nodes2"
      and r2: "opt_rel strtod (Suc idx) nodes1 nodes2"
      using opt_fold_rel [where N = ?N and xs = "map snd ?kids" and j = "Suc idx"] below wf1 len by metis
    moreover have "opt_rel strtod idx nodes1 nodes2" using r2 by (rule opt_rel_mono) simp
    ultimately show ?thesis
      using 1 sub opt_rel_trans [OF r1'] by (auto simp: Let_def)
  qed
qed simp

lemma optimize_rel:
  assumes "trie_wf nodes" and "nodes \<noteq> []"
  shows "\<exists>nodes'. optimize nodes = Some nodes' \<and> opt_rel strtod 0 nodes nodes'"
proof -
  let ?N = "length nodes"
  have "opt_measure nodes 0 \<le> ?N * (?N + 1) + ?N" by (simp add: opt_measure_def)
  also have "\<dots> < (?N + 1) * (?N + 1)" by simp
  finally have "opt_measure nodes 0 < (?N + 1) * (?N + 1)" .
  then show ?thesis
    using optimizeNode_rel [OF assms(1), of 0] assms(2) unfolding optimize_def by blast
qed

lemma opt_rel_find:
  "opt_rel strtod 0 nodes nodes' \<Longrightarrow> nodes \<noteq> [] \<Longrightarrow> trie_find strtod nodes' url = trie_find strtod nodes url"
  by (simp add: opt_rel_def find_eq_def trie_find_def)

text \<open>
  C10. The path compression of a well-formed trie ends, keeps it well-formed, and every URL is looked
  up in the compressed trie with the result it had before: same rule, same parameters.
\<close>

theorem optimize_equiv:
  assumes "trie_wf nodes" and "nodes \<noteq> []"
  shows "\<exists>nodes'. optimize nodes = Some nodes' \<and> trie_wf nodes' \<and>
           (\<forall>url. trie_find strtod nodes' url = trie_find strtod nodes url)"
  using optimize_rel [OF assms] opt_rel_find [OF _ assms(2)] by (metis opt_rel_def)

theorem optimize_equiv_witness:
  "\<exists>nodes nodes'. trie_add Trie_init ''/<str>'' 2 = Some (nodes, None) \<and> trie_wf nodes \<and>
     optimize nodes = Some nodes' \<and>
     trie_find (\<lambda>_. (0 :: int, 0, False)) nodes' ''/x'' = (2, no_params\<lparr>string_params := [''x'']\<rparr>)"
proof -
  let ?strtod = "\<lambda>_. (0 :: int, 0, False)"
  let ?p = "[Lit CHR ''/'', Par P_STRING]"
  have "pattern_from ''/<str>'' 0 = Some ?p"
    by (simp add: pattern_from.simps tag_at_def paramTraits_def)
  from trie_add_pattern [OF trie_inv_init this, of 2] obtain nodes where nodes: "trie_inv nodes"
      "trie_add Trie_init ''/<str>'' 2 = Some (nodes, None)" "rules_of nodes = (rules_of Trie_init)(?p := 2)"
    by (auto simp: rules_of_init)
  have m: "pat_match ?strtod ?p ''/x'' 0 no_params = Some (no_params\<lparr>string_params := [''x'']\<rparr>)"
    by (simp add: scan_string_def no_params_def)
  obtain r ps where f: "trie_find ?strtod nodes ''/x'' = (r, ps)" by fastforce
  have nz: "r \<noteq> 0" using trie_find_bound [OF nodes(1), of ?p ?strtod "''/x''"] m f nodes(3) by simp
  have "r = 2 \<and> ps = no_params\<lparr>string_params := [''x'']\<rparr>"
    using trie_find_sound [OF nodes(1) f nz] nz m nodes(3)
    by (auto simp: rules_of_init split: if_splits)
  moreover have "trie_wf nodes" "nodes \<noteq> []"
    using nodes(1) trie_inv_wf by (auto simp: trie_inv_def)
  ultimately show ?thesis
    using optimize_equiv [of nodes ?strtod] nodes(2) f by auto
qed

end
