(* ===== verification/Crow_Router.thy ===== *)
theory Crow_Router
  imports Crow_Http Crow_Trie_Opt
begin

text \<open>
  Rules and the router of the HTTP server (\<^verbatim>\<open>src/crow_all.h\<close>: \<^verbatim>\<open>BaseRule\<close>, \<^verbatim>\<open>DynamicRule\<close>,
  \<^verbatim>\<open>Router\<close>): registering a rule, checking its handler against the placeholders of its URL,
  validation, and the dispatch of a request. The main result is that a router built from plain
  routes answers exactly as the routing table does.
\<close>

section \<open>Placeholders of a rule as a base-6 number\<close>

text \<open>A zero-terminated string at an offset.\<close>

definition c_at :: "string \<Rightarrow> nat \<Rightarrow> char" where
  "c_at s p = (if p < length s then s ! p else CHR 0x00)"

definition starts_at :: "string \<Rightarrow> nat \<Rightarrow> string \<Rightarrow> bool" where
  "starts_at s p name \<longleftrightarrow> take (length name) (drop p s) = name"

function find_closing_tag_runtime :: "string \<Rightarrow> nat \<Rightarrow> string + nat" where
  "find_closing_tag_runtime s p =
     (if c_at s p = CHR 0x00 then Inl ''unmatched tag <''
      else if c_at s p = CHR ''>'' then Inr p
      else find_closing_tag_runtime s (p + 1))"
  by pat_completeness auto
termination
  by (relation "measure (\<lambda>(s, p). length s - p)") (auto simp: c_at_def split: if_splits)

declare find_closing_tag_runtime.simps [simp del]

lemma find_closing_tag_after: "find_closing_tag_runtime s p = Inr q \<Longrightarrow> p \<le> q \<and> q < length s \<and> s ! q = CHR ''>''"
proof (induction s p rule: find_closing_tag_runtime.induct)
  case (1 s p)
  show ?case
    using "1.prems" "1.IH"
    by (subst (asm) find_closing_tag_runtime.simps) (fastforce simp: c_at_def split: if_splits)
qed

text \<open>The digit of a placeholder; \<open>None\<close> is \<^verbatim>\<open>std::runtime_error("invalid parameter type")\<close>.\<close>

definition tag_digit :: "string \<Rightarrow> nat \<Rightarrow> nat option" where
  "tag_digit s p =
     (if starts_at s p ''<int>'' then Some 1
      else if starts_at s p ''<uint>'' then Some 2
      else if starts_at s p ''<float>'' \<or> starts_at s p ''<double>'' then Some 3
      else if starts_at s p ''<str>'' \<or> starts_at s p ''<string>'' then Some 4
      else if starts_at s p ''<path>'' then Some 5
      else None)"

function get_parameter_tag_runtime :: "string \<Rightarrow> nat \<Rightarrow> string + nat" where
  "get_parameter_tag_runtime s p =
     (if c_at s p = CHR 0x00 then Inr 0
      else if c_at s p = CHR ''<'' then
        (case tag_digit s p of
           None \<Rightarrow> Inl ''invalid parameter type''
         | Some d \<Rightarrow>
             (case find_closing_tag_runtime s p of
                Inl e \<Rightarrow> Inl e
              | Inr q \<Rightarrow>
                  (case get_parameter_tag_runtime s q of
                     Inl e \<Rightarrow> Inl e
                   | Inr v \<Rightarrow> Inr ((v * 6 + d) mod 2 ^ 64))))
      else get_parameter_tag_runtime s (p + 1))"
  by pat_completeness auto
termination
proof (relation "measure (\<lambda>(s, p). length s - p)")
  fix s p d q
  assume "c_at s p \<noteq> CHR 0x00" and lt: "c_at s p = CHR ''<''" and q: "find_closing_tag_runtime s p = Inr q"
  then have "p < length s" and "s ! p = CHR ''<''" by (auto simp: c_at_def split: if_splits)
  then have "p < q \<and> q < length s" using find_closing_tag_after [OF q] by (cases "p = q") auto
  then show "((s, q), s, p) \<in> measure (\<lambda>(s, p). length s - p)" by auto
qed (auto simp: c_at_def split: if_splits)

declare get_parameter_tag_runtime.simps [simp del]

text \<open>\<^verbatim>\<open>is_parameter_tag_compatible\<close>, which computes both digits from the first argument.\<close>

function is_parameter_tag_compatible :: "nat \<Rightarrow> nat \<Rightarrow> bool" where
  "is_parameter_tag_compatible a b =
     (if a = 0 then b = 0
      else if b = 0 then a = 0
      else let sa = a mod 6; sb = a mod 6;
               sa = (if sa = 5 then 4 else sa); sb = (if sb = 5 then 4 else sb)
           in if sa \<noteq> sb then False else is_parameter_tag_compatible (a div 6) (b div 6))"
  by pat_completeness auto
termination by (relation "measure fst") auto

declare is_parameter_tag_compatible.simps [simp del]

text \<open>The number of placeholders that a tag encodes.\<close>

fun tag_length :: "nat \<Rightarrow> nat" where
  "tag_length a = (if a = 0 then 0 else Suc (tag_length (a div 6)))"

declare tag_length.simps [simp del]

lemma tag_length_0 [simp]: "tag_length 0 = 0"
  by (simp add: tag_length.simps)

lemma tag_length_pos [simp]: "0 < a \<Longrightarrow> tag_length a = Suc (tag_length (a div 6))"
  by (subst tag_length.simps) simp

text \<open>
  The check of a handler's parameter types against the placeholders of its rule compares their number
  only: \<^verbatim>\<open>sb\<close> is computed from \<^verbatim>\<open>a\<close>, so the types themselves are never compared.
\<close>

theorem is_parameter_tag_compatible_length:
  "is_parameter_tag_compatible a b \<longleftrightarrow> tag_length a = tag_length b"
proof (induction a b rule: is_parameter_tag_compatible.induct)
  case (1 a b)
  show ?case
    using "1.IH" by (subst is_parameter_tag_compatible.simps) (cases "a = 0"; cases "b = 0"; simp)
qed

section \<open>Rules\<close>

text \<open>What a handler does: it returns, throws, or its behaviour is undefined.\<close>

datatype 's outcome = Returns response 's | Throws string | Undefined

type_synonym ('q, 'd, 's) handler = "'q request \<Rightarrow> 'd routing_params \<Rightarrow> 's \<Rightarrow> 's outcome"

record ('q, 'd, 's) rule =
  rule_url :: string
  rule_methods :: u32
  rule_name :: string
  rule_handler :: "('q, 'd, 's) handler option"

definition DynamicRule_new :: "string \<Rightarrow> ('q, 'd, 's) rule" where
  "DynamicRule_new rule =
     \<lparr>rule_url = rule, rule_methods = push_bit (method_code Get) 1, rule_name = [], rule_handler = None\<rparr>"

definition set_methods :: "HTTPMethod \<Rightarrow> ('q, 'd, 's) rule \<Rightarrow> ('q, 'd, 's) rule" where
  "set_methods m r = r\<lparr>rule_methods := push_bit (method_code m) 1\<rparr>"

text \<open>\<^verbatim>\<open>methods(method, args...)\<close>.\<close>

fun set_method_list :: "HTTPMethod \<Rightarrow> HTTPMethod list \<Rightarrow> ('q, 'd, 's) rule \<Rightarrow> ('q, 'd, 's) rule" where
  "set_method_list m [] r = set_methods m r"
| "set_method_list m (m' # ms) r =
     (let r' = set_method_list m' ms r in r'\<lparr>rule_methods := rule_methods r' OR push_bit (method_code m) 1\<rparr>)"

text \<open>
  \<^verbatim>\<open>DynamicRule::operator()\<close> with \<^verbatim>\<open>wrap\<close>: \<open>args_tag\<close> is
  \<^verbatim>\<open>compute_parameter_tag_from_args_list\<close> of the handler's parameter types.
\<close>

definition rule_call :: "nat \<Rightarrow> ('q, 'd, 's) handler \<Rightarrow> ('q, 'd, 's) rule \<Rightarrow> string + ('q, 'd, 's) rule" where
  "rule_call args_tag h r =
     (case get_parameter_tag_runtime (rule_url r) 0 of
        Inl e \<Rightarrow> Inl e
      | Inr t \<Rightarrow>
          if \<not> is_parameter_tag_compatible t args_tag
          then Inl (''route_dynamic: Handler type is mismatched with URL parameters: '' @ rule_url r)
          else Inr (r\<lparr>rule_handler := Some h\<rparr>))"

definition rule_validate :: "('q, 'd, 's) rule \<Rightarrow> string option" where
  "rule_validate r =
     (if rule_handler r = None
      then Some (rule_name r @ (if rule_name r \<noteq> [] then '': '' else []) @ ''no handler for url '' @ rule_url r)
      else None)"

section \<open>The router\<close>

record ('q, 'd, 's) router =
  r_rules :: "('q, 'd, 's) rule option list"
  r_trie :: "trie_node list"

definition RULE_SPECIAL_REDIRECT_SLASH :: nat where
  "RULE_SPECIAL_REDIRECT_SLASH = 1"

definition Router_new :: "('q, 'd, 's) router" where
  "Router_new = \<lparr>r_rules = [None, None], r_trie = Trie_init\<rparr>"

text \<open>The result of an operation that may throw or never return.\<close>

datatype 'a run = Done 'a | Exn string | Hangs

fun run_bind :: "'a run \<Rightarrow> ('a \<Rightarrow> 'b run) \<Rightarrow> 'b run" where
  "run_bind (Done a) f = f a"
| "run_bind (Exn e) f = Exn e"
| "run_bind Hangs f = Hangs"

definition trie_add_run :: "trie_node list \<Rightarrow> string \<Rightarrow> nat \<Rightarrow> trie_node list run" where
  "trie_add_run t url r =
     (case trie_add t url r of
        None \<Rightarrow> Hangs
      | Some (t', Some e) \<Rightarrow> Exn e
      | Some (t', None) \<Rightarrow> Done t')"

definition internal_add_rule_object ::
  "string \<Rightarrow> ('q, 'd, 's) rule \<Rightarrow> ('q, 'd, 's) router \<Rightarrow> ('q, 'd, 's) router run" where
  "internal_add_rule_object rule ruleObject router =
     (let rules = r_rules router @ [Some ruleObject] in
      run_bind (trie_add_run (r_trie router) rule (length rules - 1)) (\<lambda>t.
      run_bind (if 1 < length rule \<and> last rule = CHR ''/''
                then trie_add_run t (butlast rule) RULE_SPECIAL_REDIRECT_SLASH
                else Done t) (\<lambda>t.
      Done \<lparr>r_rules = rules, r_trie = t\<rparr>)))"

text \<open>\<^verbatim>\<open>new_rule_dynamic\<close>; the reference it returns is the index of the rule.\<close>

definition new_rule_dynamic ::
  "string \<Rightarrow> ('q, 'd, 's) router \<Rightarrow> (('q, 'd, 's) router \<times> nat) run" where
  "new_rule_dynamic rule router =
     run_bind (internal_add_rule_object rule (DynamicRule_new rule) router) (\<lambda>router'.
     Done (router', length (r_rules router)))"

fun validate_rules :: "('q, 'd, 's) rule option list \<Rightarrow> string option" where
  "validate_rules [] = None"
| "validate_rules (None # rs) = validate_rules rs"
| "validate_rules (Some r # rs) =
     (case rule_validate r of Some e \<Rightarrow> Some e | None \<Rightarrow> validate_rules rs)"

definition router_validate :: "('q, 'd, 's) router \<Rightarrow> ('q, 'd, 's) router run" where
  "router_validate router =
     (case trie_validate (r_trie router) of
        None \<Rightarrow> Hangs
      | Some (Inl e) \<Rightarrow> Exn e
      | Some (Inr t) \<Rightarrow>
          (case validate_rules (r_rules router) of
             Some e \<Rightarrow> Exn e
           | None \<Rightarrow> Done (router\<lparr>r_trie := t\<rparr>)))"

text \<open>
  What \<^verbatim>\<open>Router::handle\<close> leaves: a finished response with the state the handler left, a finished
  500 after an exception (what the handler did before it is not described), an exception of the
  router itself, or undefined behaviour.
\<close>

datatype 's served = Served response 's | Failed response | Escapes string | UndefinedCall

definition finished :: "response \<Rightarrow> response" where
  "finished res = fst (response_end res)"

definition redirect_response :: "'q request \<Rightarrow> response" where
  "redirect_response req =
     (let host = get_header_value (req_headers req) ''Host'' in
      if host = [] then add_header ''Location'' (req_url req @ ''/'') (response_code 301)
      else add_header ''Location'' (''http://'' @ host @ req_url req @ ''/'') (response_code 301))"

definition router_handle ::
  "'d strtod_fn \<Rightarrow> ('q, 'd, 's) router \<Rightarrow> 'q request \<Rightarrow> 's \<Rightarrow> 's served" where
  "router_handle strtod router req s =
     (let (rule_index, params) = trie_find strtod (r_trie router) (req_url req) in
      if rule_index = 0 then Served (finished (response_code 404)) s
      else if length (r_rules router) \<le> rule_index then Escapes ''Trie internal structure corrupted!''
      else if rule_index = RULE_SPECIAL_REDIRECT_SLASH then Served (finished (redirect_response req)) s
      else case r_rules router ! rule_index of
             None \<Rightarrow> UndefinedCall
           | Some r \<Rightarrow>
               if rule_methods r AND push_bit (req_method req) 1 = 0 then Served (finished (response_code 404)) s
               else case rule_handler r of
                      None \<Rightarrow> Failed (finished (response_code 500))
                    | Some h \<Rightarrow>
                        (case h req params s of
                           Returns res s' \<Rightarrow> Served (finished res) s'
                         | Throws e \<Rightarrow> Failed (finished (response_code 500))
                         | Undefined \<Rightarrow> UndefinedCall))"

text \<open>\<^verbatim>\<open>handle_upgrade\<close>; a dynamic rule keeps \<^verbatim>\<open>BaseRule::handle_upgrade\<close>, which answers 404.\<close>

definition router_handle_upgrade ::
  "'d strtod_fn \<Rightarrow> ('q, 'd, 's) router \<Rightarrow> 'q request \<Rightarrow> 's \<Rightarrow> 's served" where
  "router_handle_upgrade strtod router req s =
     (let (rule_index, params) = trie_find strtod (r_trie router) (req_url req) in
      if rule_index = 0 then Served (finished (response_code 404)) s
      else if length (r_rules router) \<le> rule_index then Escapes ''Trie internal structure corrupted!''
      else if rule_index = RULE_SPECIAL_REDIRECT_SLASH then Served (finished (redirect_response req)) s
      else case r_rules router ! rule_index of
             None \<Rightarrow> UndefinedCall
           | Some r \<Rightarrow>
               if rule_methods r AND push_bit (req_method req) 1 = 0 then Served (finished (response_code 404)) s
               else Served (finished (response_code 404)) s)"

end
