(* ===== verification/Crow_Router_Props.thy ===== *)
theory Crow_Router_Props
  imports Crow_Router
begin

text \<open>
  Properties of the router: whatever rules were registered, a validated router never runs into a
  missing rule or a corrupted trie; and a router built from plain routes implements its routing
  table.
\<close>

section \<open>Registered routers\<close>

definition put_rule :: "nat \<Rightarrow> ('q, 'd, 's) rule \<Rightarrow> ('q, 'd, 's) router \<Rightarrow> ('q, 'd, 's) router" where
  "put_rule i r router = router\<lparr>r_rules := (r_rules router)[i := Some r]\<rparr>"

inductive registered :: "('q, 'd, 's) router \<Rightarrow> bool" where
  reg_new: "registered Router_new"
| reg_rule: "registered router \<Longrightarrow> new_rule_dynamic rule router = Done (router', i) \<Longrightarrow> registered router'"
| reg_methods: "registered router \<Longrightarrow> i < length (r_rules router) \<Longrightarrow> r_rules router ! i = Some r \<Longrightarrow>
    registered (put_rule i (set_method_list m ms r) router)"
| reg_handler: "registered router \<Longrightarrow> i < length (r_rules router) \<Longrightarrow> r_rules router ! i = Some r \<Longrightarrow>
    rule_call t h r = Inr r' \<Longrightarrow> registered (put_rule i r' router)"

definition router_inv :: "('q, 'd, 's) router \<Rightarrow> bool" where
  "router_inv router \<longleftrightarrow>
     trie_inv (r_trie router) \<and> 2 \<le> length (r_rules router) \<and>
     (\<forall>i < length (r_rules router). r_rules router ! i = None \<longleftrightarrow> i < 2) \<and>
     (\<forall>p. rules_of (r_trie router) p < length (r_rules router))"

lemma run_bind_Done: "run_bind m f = Done b \<longleftrightarrow> (\<exists>a. m = Done a \<and> f a = Done b)"
  by (cases m) simp_all

lemma trie_add_run_Done:
  assumes "trie_inv t" and "trie_add_run t url r = Done t'"
  shows "\<exists>p. pattern_from url 0 = Some p \<and> rules_of t p = 0 \<and> trie_inv t' \<and>
             rules_of t' = (rules_of t)(p := r) \<and>
             (\<forall>q. walk t' 0 q \<noteq> None \<longrightarrow> walk t 0 q \<noteq> None \<or> (\<exists>z. p = q @ z))"
proof -
  have add: "trie_add t url r = Some (t', None)"
    using assms(2) by (auto simp: trie_add_run_def split: option.splits prod.splits)
  then obtain p where p: "pattern_from url 0 = Some p"
    using trie_add_hangs [of url t r] by fastforce
  then show ?thesis
    using trie_add_pattern [OF assms(1) p, of r] add by (cases "rules_of t p = 0") auto
qed

lemma internal_add_inv:
  assumes inv: "router_inv router" and add: "internal_add_rule_object rule obj router = Done router'"
  shows "router_inv router' \<and> r_rules router' = r_rules router @ [Some obj]"
proof -
  let ?n = "length (r_rules router)"
  obtain t1 t2 where t1: "trie_add_run (r_trie router) rule ?n = Done t1"
    and t2: "(if 1 < length rule \<and> last rule = CHR ''/''
              then trie_add_run t1 (butlast rule) RULE_SPECIAL_REDIRECT_SLASH else Done t1) = Done t2"
    and router': "router' = \<lparr>r_rules = r_rules router @ [Some obj], r_trie = t2\<rparr>"
    using add by (auto simp: internal_add_rule_object_def run_bind_Done)
  have "trie_inv (r_trie router)" using inv by (simp add: router_inv_def)
  from trie_add_run_Done [OF this t1] obtain p
    where 1: "trie_inv t1" "rules_of t1 = (rules_of (r_trie router))(p := ?n)" by blast
  have "trie_inv t2 \<and> (\<exists>q. rules_of t2 = (rules_of t1)(q := 1) \<or> rules_of t2 = rules_of t1)"
    using t2 trie_add_run_Done [OF 1(1)] 1(1)
    by (fastforce simp: RULE_SPECIAL_REDIRECT_SLASH_def split: if_splits)
  then have "trie_inv t2" and le: "rules_of t2 q \<le> max 1 (rules_of t1 q)" for q by auto
  moreover have "max 1 (rules_of t1 q) < Suc ?n" for q
    using inv 1(2) by (auto simp: router_inv_def less_Suc_eq)
  then have "rules_of t2 q < Suc ?n" for q using le le_less_trans by blast
  moreover have "(r_rules router @ [Some obj]) ! i = None \<longleftrightarrow> i < 2" if "i < Suc ?n" for i
    using inv that by (auto simp: router_inv_def nth_append less_Suc_eq)
  ultimately show ?thesis
    using inv router' by (simp add: router_inv_def)
qed

lemma put_rule_inv:
  "router_inv router \<Longrightarrow> i < length (r_rules router) \<Longrightarrow> r_rules router ! i \<noteq> None \<Longrightarrow>
     router_inv (put_rule i r router)"
  by (auto simp: router_inv_def put_rule_def nth_list_update)

lemma Router_new_inv: "router_inv Router_new"
  using trie_inv_init rules_of_init
  by (auto simp: router_inv_def Router_new_def nth_Cons split: nat.splits)

lemma registered_inv: "registered router \<Longrightarrow> router_inv router"
proof (induction rule: registered.induct)
  case reg_new
  show ?case by (rule Router_new_inv)
next
  case (reg_rule router rule router' i)
  then show ?case
    using internal_add_inv by (fastforce simp: new_rule_dynamic_def run_bind_Done)
qed (simp_all add: put_rule_inv)

lemma router_validate_find:
  assumes inv: "router_inv router" and v: "router_validate router = Done router'"
  shows "r_rules router' = r_rules router \<and>
         trie_find strtod (r_trie router') url = trie_find strtod (r_trie router) url"
proof -
  obtain t where t: "optimize (r_trie router) = Some t" and r': "router' = router\<lparr>r_trie := t\<rparr>"
    using v by (auto simp: router_validate_def trie_validate_def split: option.splits sum.splits if_splits)
  have "trie_inv (r_trie router)" using inv by (simp add: router_inv_def)
  then have "trie_wf (r_trie router)" "r_trie router \<noteq> []"
    using trie_inv_wf by (auto simp: trie_inv_def)
  then have "trie_find strtod t url = trie_find strtod (r_trie router) url"
    using optimize_rel [of "r_trie router" strtod] opt_rel_find t by fastforce
  then show ?thesis using r' by simp
qed

lemma router_found:
  assumes inv: "router_inv router" and k: "trie_find strtod (r_trie router) url = (k, ps)"
  shows "k < length (r_rules router)"
    and "k \<noteq> 0 \<Longrightarrow> k \<noteq> 1 \<Longrightarrow> \<exists>r. r_rules router ! k = Some r \<and> Some r \<in> set (r_rules router)"
proof -
  show len: "k < length (r_rules router)"
    using trie_find_sound [OF _ k] inv by (cases "k = 0") (auto simp: router_inv_def)
  show "\<exists>r. r_rules router ! k = Some r \<and> Some r \<in> set (r_rules router)" if "k \<noteq> 0" "k \<noteq> 1"
  proof -
    have "r_rules router ! k \<noteq> None" using that inv len by (auto simp: router_inv_def)
    then show ?thesis using len nth_mem by fastforce
  qed
qed

text \<open>
  C16. However its rules were registered, a router that passed \<^verbatim>\<open>validate\<close> answers every request with a
  completed response: it never runs into a missing rule or the exception for a corrupted trie, an
  exception of a handler becomes a completed 500, and undefined behaviour can only come from a handler.
\<close>

theorem router_handle_safe:
  assumes "registered router" and "router_validate router = Done router'"
  shows "case router_handle strtod router' req s of
           Served res s' \<Rightarrow> res_completed res
         | Failed res \<Rightarrow> res_completed res \<and> res_code res = 500
         | Escapes e \<Rightarrow> False
         | UndefinedCall \<Rightarrow>
             (\<exists>r h ps. Some r \<in> set (r_rules router) \<and> rule_handler r = Some h \<and> h req ps s = Undefined)"
proof -
  have inv: "router_inv router" using assms(1) by (rule registered_inv)
  note v = router_validate_find [OF inv assms(2), of strtod "req_url req"]
  obtain k ps where k: "trie_find strtod (r_trie router) (req_url req) = (k, ps)" by fastforce
  note defs = router_handle_def RULE_SPECIAL_REDIRECT_SLASH_def finished_def response_end_def
    response_code_def response_new_def
  consider "k = 0" | "k = 1" | r where "k \<noteq> 0" "k \<noteq> 1" "r_rules router ! k = Some r" "Some r \<in> set (r_rules router)"
    using router_found(2) [OF inv k] by blast
  then show ?thesis
  proof cases
    case (3 r)
    then have "\<exists>r h ps. Some r \<in> set (r_rules router) \<and> rule_handler r = Some h \<and> h req ps s = Undefined"
      if "rule_handler r = Some h" "h req ps s = Undefined" for h using that by blast
    with 3 show ?thesis
      using v k router_found(1) [OF inv k]
      by (cases "rule_handler r") (simp_all add: defs split: outcome.splits)
  qed (use v k router_found(1) [OF inv k] in \<open>simp_all add: defs\<close>)
qed

section \<open>Plain routes\<close>

text \<open>
  \<^verbatim>\<open>app.route_dynamic(url).methods(m)(f)\<close> for a handler that takes the request only, whose list of
  parameter types has the tag 0.
\<close>

type_synonym ('q, 'd, 's) route = "string \<times> HTTPMethod \<times> ('q, 'd, 's) handler"

definition add_route :: "('q, 'd, 's) route \<Rightarrow> ('q, 'd, 's) router \<Rightarrow> ('q, 'd, 's) router run" where
  "add_route route router =
     (case route of (url, m, h) \<Rightarrow>
      run_bind (new_rule_dynamic url router) (\<lambda>(router', i).
      case r_rules router' ! i of
        None \<Rightarrow> Done router'
      | Some r \<Rightarrow>
          (case rule_call 0 h (set_methods m r) of
             Inl e \<Rightarrow> Exn e
           | Inr r' \<Rightarrow> Done (put_rule i r' router'))))"

fun add_routes :: "('q, 'd, 's) route list \<Rightarrow> ('q, 'd, 's) router \<Rightarrow> ('q, 'd, 's) router run" where
  "add_routes [] router = Done router"
| "add_routes (x # xs) router = run_bind (add_route x router) (add_routes xs)"

text \<open>A URL without placeholders that needs no redirection rule.\<close>

definition plain_url :: "string \<Rightarrow> bool" where
  "plain_url url \<longleftrightarrow> url \<noteq> [] \<and> CHR ''<'' \<notin> set url \<and> \<not> (1 < length url \<and> last url = CHR ''/'')"

definition route_rule :: "('q, 'd, 's) route \<Rightarrow> ('q, 'd, 's) rule" where
  "route_rule route =
     (case route of (url, m, h) \<Rightarrow>
        \<lparr>rule_url = url, rule_methods = push_bit (method_code m) 1, rule_name = [], rule_handler = Some h\<rparr>)"

lemma pattern_plain:
  "CHR ''<'' \<notin> set (drop i url) \<Longrightarrow> pattern_from url i = Some (map Lit (drop i url))"
proof (induction "length url - i" arbitrary: i)
  case 0
  then show ?case by (subst pattern_from.simps) simp
next
  case (Suc n)
  then have i: "i < length url" by simp
  then have d: "drop i url = url ! i # drop (Suc i) url" by (simp add: Cons_nth_drop_Suc)
  then show ?case
    using Suc.hyps(1) [of "Suc i"] Suc.hyps(2) Suc.prems i by (auto simp: pattern_from_char)
qed

lemma parameter_tag_plain: "CHR ''<'' \<notin> set s \<Longrightarrow> get_parameter_tag_runtime s p = Inr 0"
proof (induction "length s - p" arbitrary: p)
  case 0
  then show ?case by (subst get_parameter_tag_runtime.simps) (simp add: c_at_def)
next
  case (Suc n)
  then have "s ! p \<noteq> CHR ''<''" by (metis nth_mem zero_less_Suc zero_less_diff)
  then show ?case
    using Suc.hyps(1) [of "Suc p"] Suc.hyps(2) Suc.prems
    by (subst get_parameter_tag_runtime.simps) (simp add: c_at_def)
qed

lemma pat_match_plain:
  "pos \<le> length url \<Longrightarrow> pat_match strtod (map Lit u) url pos ps = (if drop pos url = u then Some ps else None)"
proof (induction u arbitrary: pos)
  case (Cons c u)
  then show ?case
    by (cases "pos < length url") (auto simp: Cons_nth_drop_Suc [symmetric])
qed auto

text \<open>The trie and the rules that a list of plain routes leaves.\<close>

definition table_inv :: "('q, 'd, 's) route list \<Rightarrow> ('q, 'd, 's) router \<Rightarrow> bool" where
  "table_inv routes router \<longleftrightarrow>
     trie_inv (r_trie router) \<and>
     r_rules router = None # None # map (\<lambda>x. Some (route_rule x)) routes \<and>
     (\<forall>i < length routes. rules_of (r_trie router) (map Lit (fst (routes ! i))) = i + 2) \<and>
     (\<forall>p. rules_of (r_trie router) p \<noteq> 0 \<longrightarrow> (\<exists>i < length routes. p = map Lit (fst (routes ! i)))) \<and>
     (\<forall>q. walk (r_trie router) 0 q \<noteq> None \<longrightarrow> q \<in> range (map Lit))"

lemma map_Lit_inject [simp]: "map Lit a = map Lit b \<longleftrightarrow> a = b"
  by (metis list.inj_map_strong tok.inject(1))

lemma add_route_table:
  assumes t: "table_inv routes router" and p: "plain_url url" and fresh: "url \<notin> fst ` set routes"
  shows "\<exists>router'. add_route (url, m, h) router = Done router' \<and> table_inv (routes @ [(url, m, h)]) router'"
proof -
  let ?p = "map Lit url" and ?n = "length routes + 2"
  have inv: "trie_inv (r_trie router)" and rules: "r_rules router = None # None # map (\<lambda>x. Some (route_rule x)) routes"
    using t by (simp_all add: table_inv_def)
  have pat: "pattern_from url 0 = Some ?p"
    using p pattern_plain [of 0 url] by (simp add: plain_url_def)
  have "rules_of (r_trie router) ?p = 0"
    using t fresh unfolding table_inv_def by (metis (no_types, opaque_lifting) image_eqI map_Lit_inject nth_mem)
  then obtain t1 where t1: "trie_add (r_trie router) url ?n = Some (t1, None)" "trie_inv t1"
      "rules_of t1 = (rules_of (r_trie router))(?p := ?n)"
    and W: "\<And>q. walk t1 0 q \<noteq> None \<Longrightarrow> walk (r_trie router) 0 q \<noteq> None \<or> (\<exists>z. ?p = q @ z)"
    using trie_add_pattern [OF inv pat, of ?n] by auto
  let ?router = "\<lparr>r_rules = None # None # map (\<lambda>x. Some (route_rule x)) (routes @ [(url, m, h)]), r_trie = t1\<rparr>"
  have "\<not> (1 < length url \<and> last url = CHR ''/'')" using p by (simp add: plain_url_def)
  then have new: "new_rule_dynamic url router =
      Done (\<lparr>r_rules = r_rules router @ [Some (DynamicRule_new url)], r_trie = t1\<rparr>, ?n)"
    using rules t1(1) by (auto simp: new_rule_dynamic_def internal_add_rule_object_def trie_add_run_def)
  have call: "rule_call 0 h (set_methods m (DynamicRule_new url)) = Inr (route_rule (url, m, h))"
    using p parameter_tag_plain [of url 0]
    by (simp add: rule_call_def set_methods_def DynamicRule_new_def route_rule_def plain_url_def
        is_parameter_tag_compatible.simps)
  have "add_route (url, m, h) router = Done ?router"
    by (simp add: add_route_def new call rules put_rule_def nth_append nth_Cons' list_update_append)
  moreover have "q \<in> range (map Lit)" if q: "walk t1 0 q \<noteq> None" for q
  proof (cases "walk (r_trie router) 0 q = None")
    case True
    then obtain z where "?p = q @ z" using W [OF q] by blast
    then have "q = map Lit (take (length q) url)" by (metis append_eq_conv_conj take_map)
    then show ?thesis by blast
  next
    case False
    then show ?thesis using t by (simp add: table_inv_def)
  qed
  moreover have "rules_of t1 (map Lit (fst ((routes @ [(url, m, h)]) ! i))) = i + 2"
    if "i < Suc (length routes)" for i
    using that t fresh nth_mem [of i routes] t1(3)
    by (cases "i = length routes") (auto simp: table_inv_def nth_append)
  moreover have "\<exists>i < Suc (length routes). q = map Lit (fst ((routes @ [(url, m, h)]) ! i))"
    if q: "rules_of t1 q \<noteq> 0" for q
  proof (cases "q = ?p")
    case True
    then show ?thesis by (intro exI [of _ "length routes"]) simp
  next
    case False
    then obtain i where "i < length routes" "q = map Lit (fst (routes ! i))"
      using q t t1(3) by (auto simp: table_inv_def)
    then show ?thesis by (intro exI [of _ i]) (simp add: nth_append)
  qed
  ultimately show ?thesis
    using t1(2) by (intro exI [of _ ?router]) (simp add: table_inv_def)
qed


lemma add_routes_table:
  assumes "table_inv routes router" and "\<forall>x \<in> set xs. plain_url (fst x)" and "distinct (map fst (routes @ xs))"
  shows "\<exists>router'. add_routes xs router = Done router' \<and> table_inv (routes @ xs) router'"
  using assms
proof (induction xs arbitrary: routes router)
  case (Cons x xs)
  obtain url m h where x: "x = (url, m, h)" by (cases x) auto
  obtain router1 where 1: "add_route x router = Done router1" "table_inv (routes @ [x]) router1"
    using add_route_table [OF Cons.prems(1), of url m h] Cons.prems(2,3) x by auto
  then show ?case
    using Cons.IH [OF 1(2)] Cons.prems(2,3) by simp
qed simp

lemma Router_new_table: "table_inv [] Router_new"
proof -
  have "walk Trie_init 0 q = (if q = [] then Some 0 else None)" for q
    by (cases q) (simp_all add: Trie_init_def)
  then show ?thesis
    using trie_inv_init rules_of_init by (auto simp: table_inv_def Router_new_def split: if_splits)
qed

lemma table_simple_head:
  assumes t: "table_inv routes router" and plain: "\<forall>x \<in> set routes. plain_url (fst x)"
  shows "IsSimpleNode (r_trie router ! 0)"
proof -
  let ?t = "r_trie router"
  have inv: "trie_inv ?t" using t by (simp add: table_inv_def)
  have "rules_of ?t [] = 0"
    using t plain nth_mem unfolding table_inv_def plain_url_def by fastforce
  moreover have "param_child (?t ! 0) u = 0" for u
  proof (rule ccontr)
    assume "param_child (?t ! 0) u \<noteq> 0"
    then have "walk ?t 0 [Par u] \<noteq> None" by simp
    then have "[Par u] \<in> range (map Lit)" using t unfolding table_inv_def by blast
    then show False by auto
  qed
  moreover have "\<exists>u. k = param_ix u" if k: "k < 5" for k
  proof -
    consider "k = param_ix P_INT" | "k = param_ix P_UINT" | "k = param_ix P_DOUBLE"
      | "k = param_ix P_STRING" | "k = param_ix P_PATH" using k by fastforce
    then show ?thesis by cases blast+
  qed
  moreover have "length (param_childrens (?t ! 0)) = 5"
    using inv trie_inv_nonempty [OF inv] by (simp add: trie_inv_def node_wf_def)
  ultimately show ?thesis
    by (auto simp: IsSimpleNode_def rules_of_def list_all_length param_child_def) metis
qed

lemma validate_rules_handlers:
  "(\<forall>x \<in> set rs. case x of None \<Rightarrow> True | Some r \<Rightarrow> rule_handler r \<noteq> None) \<Longrightarrow> validate_rules rs = None"
  by (induction rs rule: validate_rules.induct) (auto simp: rule_validate_def)

lemma table_validate:
  assumes t: "table_inv routes router" and plain: "\<forall>x \<in> set routes. plain_url (fst x)"
  shows "\<exists>router'. router_validate router = Done router'"
proof -
  have inv: "trie_inv (r_trie router)" using t by (simp add: table_inv_def)
  obtain t' where "optimize (r_trie router) = Some t'"
    using optimize_rel [OF trie_inv_wf [OF inv], of undefined] trie_inv_nonempty [OF inv] by auto
  moreover have "validate_rules (r_rules router) = None"
    using t by (intro validate_rules_handlers) (auto simp: table_inv_def route_rule_def)
  ultimately show ?thesis
    using table_simple_head [OF assms] by (simp add: router_validate_def trie_validate_def)
qed

lemma table_router_inv:
  assumes "table_inv routes router"
  shows "router_inv router"
proof -
  have "rules_of (r_trie router) p < length (r_rules router)" for p
  proof (cases "rules_of (r_trie router) p = 0")
    case True
    then show ?thesis using assms by (simp add: table_inv_def)
  next
    case False
    then obtain i where "i < length routes" "p = map Lit (fst (routes ! i))"
      using assms unfolding table_inv_def by blast
    then show ?thesis using assms by (simp add: table_inv_def)
  qed
  then show ?thesis
    using assms by (auto simp: router_inv_def table_inv_def nth_Cons' nth_append)
qed

lemma table_find:
  assumes t: "table_inv routes router"
  shows "i < length routes \<Longrightarrow> fst (routes ! i) = url \<Longrightarrow>
           trie_find strtod (r_trie router) url = (i + 2, no_params)"
    and "url \<notin> fst ` set routes \<Longrightarrow> fst (trie_find strtod (r_trie router) url) = 0"
proof -
  have inv: "trie_inv (r_trie router)" using t by (simp add: table_inv_def)
  have rule: "rules_of (r_trie router) (map Lit (fst (routes ! i))) = i + 2" if "i < length routes" for i
    using t that by (simp add: table_inv_def)
  obtain r ps where r: "trie_find strtod (r_trie router) url = (r, ps)" by fastforce
  have found: "\<exists>i < length routes. r = i + 2 \<and> fst (routes ! i) = url \<and> ps = no_params" if nz: "r \<noteq> 0"
  proof -
    obtain p where p: "rules_of (r_trie router) p = r" "pat_match strtod p url 0 no_params = Some ps"
      using trie_find_sound [OF inv r nz] by blast
    moreover obtain i where i: "i < length routes" "p = map Lit (fst (routes ! i))"
      using t p(1) nz unfolding table_inv_def by blast
    ultimately show ?thesis
      using rule [OF i(1)] by (auto simp: pat_match_plain split: if_splits)
  qed
  show "trie_find strtod (r_trie router) url = (i + 2, no_params)"
    if i: "i < length routes" "fst (routes ! i) = url"
  proof -
    have "r \<noteq> 0"
      using trie_find_bound [OF inv, of "map Lit url" strtod url no_params] rule [OF i(1)] i(2) r
      by (simp add: pat_match_plain)
    then obtain j where j: "j < length routes" "r = j + 2" "fst (routes ! j) = url" "ps = no_params"
      using found by blast
    then have "j + 2 = i + 2" using rule [OF i(1)] rule [OF j(1)] i(2) by simp
    then show ?thesis using r j by simp
  qed
  show "fst (trie_find strtod (r_trie router) url) = 0" if "url \<notin> fst ` set routes"
    using found that r nth_mem by fastforce
qed

text \<open>The answer of a routing table.\<close>

definition table_answer :: "('q, 'd, 's) route list \<Rightarrow> 'q request \<Rightarrow> 's \<Rightarrow> 's served" where
  "table_answer routes req s =
     (case map_of routes (req_url req) of
        None \<Rightarrow> Served (finished (response_code 404)) s
      | Some (m, h) \<Rightarrow>
          if req_method req \<noteq> method_code m then Served (finished (response_code 404)) s
          else (case h req no_params s of
                  Returns res s' \<Rightarrow> Served (finished res) s'
                | Throws e \<Rightarrow> Failed (finished (response_code 500))
                | Undefined \<Rightarrow> UndefinedCall))"

lemma method_mask:
  "push_bit (method_code m) 1 AND push_bit k (1 :: u32) = 0 \<longleftrightarrow> k \<noteq> method_code m"
proof -
  have m: "method_code m < 32" by (cases m) simp_all
  let ?x = "push_bit (method_code m) 1 AND push_bit k (1 :: u32)"
  have B: "bit ?x n \<longleftrightarrow> n < 32 \<and> n = method_code m \<and> n = k" for n
    by (auto simp: bit_and_iff bit_exp_iff)
  have "?x = 0 \<longleftrightarrow> (\<forall>n. \<not> bit ?x n)" 
    unfolding bit_eq_iff bit_0_eq bot_apply bot_bool_def simp_thms using bit_imp_possible_bit by blast
  then show ?thesis unfolding B using m by auto
qed

lemma table_handle:
  assumes t: "table_inv routes router" and d: "distinct (map fst routes)"
    and v: "router_validate router = Done router'"
  shows "router_handle strtod router' req s = table_answer routes req s"
proof (cases "map_of routes (req_url req)")
  case None
  then have "fst (trie_find strtod (r_trie router) (req_url req)) = 0"
    by (intro table_find(2) [OF t]) (simp add: map_of_eq_None_iff)
  then show ?thesis
    using router_validate_find [OF table_router_inv [OF t] v, of strtod "req_url req"] None
    by (simp add: router_handle_def table_answer_def case_prod_unfold Let_def)
next
  case (Some mh)
  then obtain i where i: "i < length routes" "routes ! i = (req_url req, mh)"
    by (metis in_set_conv_nth map_of_SomeD)
  obtain m h where mh: "mh = (m, h)" by fastforce
  have "trie_find strtod (r_trie router) (req_url req) = (i + 2, no_params)"
    using i by (intro table_find(1) [OF t]) simp_all
  moreover have "r_rules router ! (i + 2) = Some (route_rule (req_url req, m, h))"
    using t i mh by (simp add: table_inv_def)
  moreover have "length (r_rules router) = length routes + 2" using t by (simp add: table_inv_def)
  ultimately show ?thesis
    using router_validate_find [OF table_router_inv [OF t] v, of strtod "req_url req"] Some mh i(1) method_mask [of m "req_method req"]
    by (simp add: router_handle_def table_answer_def RULE_SPECIAL_REDIRECT_SLASH_def route_rule_def)
qed

text \<open>
  C7. For routes with distinct URLs without placeholders and trailing slashes, registration and validation
  succeed, and \<^verbatim>\<open>Router::handle\<close> then behaves as the table of the routes: the handler of the route with the
  URL of the request runs if the method is the one registered, and everything else is a 404.
\<close>

theorem router_table:
  assumes "\<forall>x \<in> set routes. plain_url (fst x)" and "distinct (map fst routes)"
  shows "\<exists>router router'. add_routes routes Router_new = Done router \<and>
           router_validate router = Done router' \<and>
           (\<forall>strtod req s. router_handle strtod router' req s = table_answer routes req s)"
proof -
  obtain router where r: "add_routes routes Router_new = Done router" "table_inv routes router"
    using add_routes_table [OF Router_new_table] assms by fastforce
  then obtain router' where "router_validate router = Done router'"
    using table_validate assms(1) by blast
  then show ?thesis using r table_handle [OF r(2) assms(2)] by blast
qed

lemma add_routes_registered:
  "registered router \<Longrightarrow> add_routes routes router = Done router' \<Longrightarrow> registered router'"
proof (induction routes arbitrary: router)
  case (Cons x xs)
  obtain router1 where 1: "add_route x router = Done router1" "add_routes xs router1 = Done router'"
    using Cons.prems(2) by (auto simp: run_bind_Done)
  obtain url m h where x: "x = (url, m, h)" by (cases x) auto
  obtain router0 i where 0: "new_rule_dynamic url router = Done (router0, i)"
    and then1: "(case r_rules router0 ! i of None \<Rightarrow> Done router0
        | Some r \<Rightarrow> (case rule_call 0 h (set_methods m r) of
             Inl e \<Rightarrow> Exn e | Inr r' \<Rightarrow> Done (put_rule i r' router0))) = Done router1"
    using 1(1) x by (auto simp: add_route_def run_bind_Done)
  have reg0: "registered router0" using reg_rule [OF Cons.prems(1) 0] .
  have "registered router1"
  proof (cases "r_rules router0 ! i")
    case None
    then show ?thesis using then1 reg0 by simp
  next
    case (Some r)
    obtain r' where r': "rule_call 0 h (set_methods m r) = Inr r'" "router1 = put_rule i r' router0"
      using then1 Some by (auto split: sum.splits)
    have i: "i < length (r_rules router0)"
      using 0 by (auto simp: new_rule_dynamic_def internal_add_rule_object_def run_bind_Done Let_def)
    have "registered (put_rule i (set_methods m r) router0)"
      using reg_methods [OF reg0 i Some, of m "[]"] by simp
    moreover have "put_rule i r' (put_rule i (set_methods m r) router0) = router1"
      using r'(2) by (simp add: put_rule_def)
    ultimately show ?thesis
      using reg_handler [of "put_rule i (set_methods m r) router0" i "set_methods m r" 0 h r'] r'(1) i
      by (simp add: put_rule_def)
  qed
  then show ?case using Cons.IH 1(2) by blast
qed simp

section \<open>Sample routes\<close>

definition sample_routes :: "(unit, int, nat) route list" where
  "sample_routes =
     [(''/add'', Post, \<lambda>req ps n. Returns (response_text ''added'') (Suc n)),
      (''/a'', Get, \<lambda>req ps n. Throws ''full'')]"

definition sample_get :: "string \<Rightarrow> HTTPMethod \<Rightarrow> unit request" where
  "sample_get url m =
     \<lparr>req_method = method_code m, req_raw_url = url, req_url = url, req_url_params = (), req_headers = [],
      req_body = []\<rparr>"

lemma sample_routes_plain:
  "\<forall>x \<in> set sample_routes. plain_url (fst x)" "distinct (map fst sample_routes)"
  by (simp_all add: sample_routes_def plain_url_def)

theorem router_table_witness:
  "\<exists>router router'. add_routes sample_routes Router_new = Done router \<and>
     router_validate router = Done router' \<and>
     router_handle (\<lambda>_. (0, 0, False)) router' (sample_get ''/add'' Post) 4 =
       Served (finished (response_text ''added'')) 5 \<and>
     router_handle (\<lambda>_. (0, 0, False)) router' (sample_get ''/a'' Get) 4 = Failed (finished (response_code 500)) \<and>
     router_handle (\<lambda>_. (0, 0, False)) router' (sample_get ''/ad'' Get) 4 =
       Served (finished (response_code 404)) 4"
proof -
  have "table_answer sample_routes (sample_get ''/add'' Post) 4 = Served (finished (response_text ''added'')) 5"
    "table_answer sample_routes (sample_get ''/a'' Get) 4 = Failed (finished (response_code 500))"
    "table_answer sample_routes (sample_get ''/ad'' Get) 4 = Served (finished (response_code 404)) 4"
    by (simp_all add: table_answer_def sample_routes_def sample_get_def)
  then show ?thesis using router_table [OF sample_routes_plain] by metis
qed

theorem router_handle_safe_witness:
  "\<exists>router router'. add_routes sample_routes Router_new = Done router \<and> registered router \<and>
     router_validate router = Done router' \<and>
     (\<exists>res s. router_handle (\<lambda>_. (0, 0, False)) router' (sample_get ''/add'' Post) 4 \<in> {Served res s, Failed res} \<and>
        res_completed res)"
proof -
  obtain router where r: "add_routes sample_routes Router_new = Done router" "table_inv sample_routes router"
    using add_routes_table [OF Router_new_table, of sample_routes] sample_routes_plain by auto
  then obtain router' where v: "router_validate router = Done router'"
    using table_validate sample_routes_plain(1) by blast
  have reg: "registered router" using add_routes_registered [OF reg_new r(1)] .
  have "r_rules router = None # None # map (\<lambda>x. Some (route_rule x)) sample_routes"
    using r(2) by (simp add: table_inv_def)
  then have "\<not> (\<exists>x h ps. Some x \<in> set (r_rules router) \<and> rule_handler x = Some h \<and>
      h (sample_get ''/add'' Post) ps 4 = Undefined)"
    by (auto simp: sample_routes_def route_rule_def)
  then show ?thesis
    using router_handle_safe [OF reg v, where strtod = "\<lambda>_. (0, 0, False)" and req = "sample_get ''/add'' Post" and s = 4] r(1) v reg
    by (auto split: served.splits)
qed

end
