(* ===== verification/Crow_Query.thy ===== *)
theory Crow_Query
  imports Prelude
begin

text \<open>
  The query string of a URL (\<^verbatim>\<open>src/crow_all.h\<close>: the \<^verbatim>\<open>qs_*\<close> functions and class \<^verbatim>\<open>query_string\<close>).
  The C code works in place on the zero-terminated buffer of the URL and keeps pointers into it; the
  model keeps the buffer, terminator included, and offsets. An access outside the buffer or outside
  the array of pointers is \<open>None\<close>.
\<close>

section \<open>Characters and buffers\<close>

definition NUL :: char where
  "NUL = CHR 0x00"

definition QS_ISHEX :: "char \<Rightarrow> bool" where
  "QS_ISHEX x \<longleftrightarrow>
     (let n = of_char x :: nat in 48 \<le> n \<and> n \<le> 57 \<or> 65 \<le> n \<and> n \<le> 70 \<or> 97 \<le> n \<and> n \<le> 102)"

definition QS_HEX2DEC :: "char \<Rightarrow> nat" where
  "QS_HEX2DEC x =
     (let n = of_char x :: nat in
      if 48 \<le> n \<and> n \<le> 57 then n - 48
      else if 65 \<le> n \<and> n \<le> 70 then n - 55
      else if 97 \<le> n \<and> n \<le> 102 then n - 87
      else 0)"

definition QS_ISQSCHR :: "char \<Rightarrow> bool" where
  "QS_ISQSCHR x \<longleftrightarrow> \<not> (x = CHR ''='' \<or> x = CHR ''#'' \<or> x = CHR ''&'' \<or> x = NUL)"

definition hex_char :: "char \<Rightarrow> char \<Rightarrow> char" where
  "hex_char u l = char_of (QS_HEX2DEC u * 16 + QS_HEX2DEC l)"

type_synonym buffer = string

definition c_buf :: "string \<Rightarrow> buffer" where
  "c_buf s = s @ [NUL]"

definition rd :: "buffer \<Rightarrow> nat \<Rightarrow> char option" where
  "rd b i = (if i < length b then Some (b ! i) else None)"

definition wr :: "buffer \<Rightarrow> nat \<Rightarrow> char \<Rightarrow> buffer option" where
  "wr b i c = (if i < length b then Some (b[i := c]) else None)"

text \<open>\<^verbatim>\<open>strcspn(b + i, reject)\<close>.\<close>

definition strcspn :: "buffer \<Rightarrow> nat \<Rightarrow> string \<Rightarrow> nat" where
  "strcspn b i reject = length (takeWhile (\<lambda>c. c \<noteq> NUL \<and> c \<notin> set reject) (drop i b))"

text \<open>The string that starts at an offset.\<close>

definition str_at :: "buffer \<Rightarrow> nat \<Rightarrow> string" where
  "str_at b i = takeWhile (\<lambda>c. c \<noteq> NUL) (drop i b)"

section \<open>qs_strncmp\<close>

text \<open>
  One character of a key, decoded, and the offset behind it: the two characters after a \<^verbatim>\<open>%\<close> are
  read whatever they are.
\<close>

definition qs_next :: "buffer \<Rightarrow> nat \<Rightarrow> (char \<times> nat) option" where
  "qs_next b i =
     (case rd b i of
        None \<Rightarrow> None
      | Some c \<Rightarrow>
          let u = (if QS_ISQSCHR c then c else NUL); u = (if u = CHR ''+'' then CHR '' '' else u) in
          if u = CHR ''%'' then
            (case (rd b (i + 1), rd b (i + 2)) of
               (Some unyb, Some lnyb) \<Rightarrow>
                 Some (if QS_ISHEX unyb \<and> QS_ISHEX lnyb then hex_char unyb lnyb else NUL, i + 3)
             | _ \<Rightarrow> None)
          else Some (u, i + 1))"

fun qs_strncmp :: "buffer \<Rightarrow> nat \<Rightarrow> buffer \<Rightarrow> nat \<Rightarrow> nat \<Rightarrow> int option" where
  "qs_strncmp s i qs j 0 =
     (case rd qs j of None \<Rightarrow> None | Some c \<Rightarrow> Some (if QS_ISQSCHR c then - 1 else 0))"
| "qs_strncmp s i qs j (Suc n) =
     (case (qs_next s i, qs_next qs j) of
        (Some (u1, i'), Some (u2, j')) \<Rightarrow>
          if u1 \<noteq> u2 then Some (int (of_char u1) - int (of_char u2))
          else if u1 = NUL then Some 0
          else qs_strncmp s i' qs j' n
      | _ \<Rightarrow> None)"

section \<open>qs_decode\<close>

text \<open>
  The loop of \<^verbatim>\<open>qs_decode\<close> at \<open>b + off\<close> with the indices \<open>i\<close> and \<open>j\<close>. It ends at the
  terminator at the latest, so the length of the buffer bounds it.
\<close>

function qs_decode_loop :: "buffer \<Rightarrow> nat \<Rightarrow> nat \<Rightarrow> nat \<Rightarrow> (buffer \<times> nat) option" where
  "qs_decode_loop b off i j =
     (if length b \<le> off + j then None
      else if \<not> QS_ISQSCHR (b ! (off + j)) then
        (case wr b (off + i) NUL of None \<Rightarrow> None | Some b' \<Rightarrow> Some (b', i))
      else if b ! (off + j) = CHR ''+'' then
        (case wr b (off + i) (CHR '' '') of
           None \<Rightarrow> None | Some b' \<Rightarrow> qs_decode_loop b' off (i + 1) (j + 1))
      else if b ! (off + j) = CHR ''%'' then
        (case rd b (off + j + 1) of
           None \<Rightarrow> None
         | Some u \<Rightarrow>
             if \<not> QS_ISHEX u then
               (case wr b (off + i) NUL of None \<Rightarrow> None | Some b' \<Rightarrow> Some (b', i))
             else
               (case rd b (off + j + 2) of
                  None \<Rightarrow> None
                | Some l \<Rightarrow>
                    if \<not> QS_ISHEX l then
                      (case wr b (off + i) NUL of None \<Rightarrow> None | Some b' \<Rightarrow> Some (b', i))
                    else
                      (case wr b (off + i) (hex_char u l) of
                         None \<Rightarrow> None | Some b' \<Rightarrow> qs_decode_loop b' off (i + 1) (j + 3))))
      else
        (case wr b (off + i) (b ! (off + j)) of
           None \<Rightarrow> None | Some b' \<Rightarrow> qs_decode_loop b' off (i + 1) (j + 1)))"
  by pat_completeness auto
termination
  by (relation "measure (\<lambda>(b, off, i, j). length b - (off + j))")
    (auto simp: wr_def split: if_splits)

declare qs_decode_loop.simps [simp del]

definition qs_decode :: "buffer \<Rightarrow> nat \<Rightarrow> (buffer \<times> nat) option" where
  "qs_decode b off = qs_decode_loop b off 0 0"

section \<open>qs_parse\<close>

text \<open>
  The first loop: it fills the array from index \<open>i\<close> on and answers the filled entries with the value
  of \<open>i\<close> at its end; \<open>left\<close> is \<^verbatim>\<open>qs_kv_size - i\<close>.
\<close>

fun qs_split :: "buffer \<Rightarrow> nat \<Rightarrow> nat \<Rightarrow> nat list \<times> bool" where
  "qs_split b ptr 0 = ([], False)"
| "qs_split b ptr (Suc left) =
     (let j = strcspn b ptr ''&'' in
      if \<not> (ptr + j < length b \<and> b ! (ptr + j) \<noteq> NUL) then ([ptr], True)
      else let (ps, broke) = qs_split b (ptr + j + 1) left in (ptr # ps, broke))"

text \<open>The second loop, on the entries of the array that it visits.\<close>

fun qs_values :: "buffer \<Rightarrow> nat list \<Rightarrow> buffer option" where
  "qs_values b [] = Some b"
| "qs_values b (p # ps) =
     (let q = p + strcspn b p ''=&#'' in
      case rd b q of
        None \<Rightarrow> None
      | Some c \<Rightarrow>
          (case (if c = CHR ''&'' \<or> c = NUL then wr b q NUL
                 else map_option fst (qs_decode b (q + 1))) of
             None \<Rightarrow> None
           | Some b' \<Rightarrow> qs_values b' ps))"

text \<open>
  \<^verbatim>\<open>qs_parse\<close>: the new buffer, the entries of the array and the returned count. When the first loop
  ends because the array is full, \<open>i\<close> is incremented once more and the second loop reads
  \<^verbatim>\<open>qs_kv[qs_kv_size]\<close>, which does not exist.
\<close>

definition qs_parse :: "buffer \<Rightarrow> nat \<Rightarrow> (buffer \<times> nat list) option" where
  "qs_parse b qs_kv_size =
     (let p = strcspn b 0 ''?#'' in
      if \<not> (p < length b \<and> b ! p \<noteq> NUL) then Some (b, [])
      else let (ps, broke) = qs_split b (p + 1) qs_kv_size in
           if \<not> broke then None
           else map_option (\<lambda>b'. (b', ps)) (qs_values b ps))"

section \<open>query_string\<close>

record query_string =
  qs_url :: buffer
  key_value_pairs :: "nat list"

definition query_string_empty :: query_string where
  "query_string_empty = \<lparr>qs_url = c_buf [], key_value_pairs = []\<rparr>"

definition MAX_KEY_VALUE_PAIRS_COUNT :: nat where
  "MAX_KEY_VALUE_PAIRS_COUNT = 256"

definition query_string_of :: "string \<Rightarrow> query_string option" where
  "query_string_of url =
     (if url = [] then Some query_string_empty
      else map_option (\<lambda>(b, ps). \<lparr>qs_url = b, key_value_pairs = ps\<rparr>)
             (qs_parse (c_buf url) MAX_KEY_VALUE_PAIRS_COUNT))"

text \<open>\<^verbatim>\<open>qs_k2v\<close>: outer \<open>None\<close> an access out of bounds, inner \<open>None\<close> the null pointer.\<close>

fun qs_k2v :: "string \<Rightarrow> buffer \<Rightarrow> nat list \<Rightarrow> nat \<Rightarrow> nat option option" where
  "qs_k2v key b [] skips = Some None"
| "qs_k2v key b (p # ps) skips =
     (case qs_strncmp (c_buf key) 0 b p (length key) of
        None \<Rightarrow> None
      | Some r \<Rightarrow>
          if r = 0 then
            let skip = strcspn b p ''='';
                skip = (if p + skip < length b \<and> b ! (p + skip) = CHR ''='' then skip + 1 else skip)
            in if skips = 0 then Some (Some (p + skip)) else qs_k2v key b ps (skips - 1)
          else qs_k2v key b ps skips)"

definition query_get :: "string \<Rightarrow> query_string \<Rightarrow> string option option" where
  "query_get name q =
     map_option (map_option (str_at (qs_url q))) (qs_k2v name (qs_url q) (key_value_pairs q) 0)"

text \<open>\<^verbatim>\<open>get_list\<close>: every count from 0 on until the null pointer; there are at most as many as pairs.\<close>

fun query_get_from :: "nat \<Rightarrow> string \<Rightarrow> query_string \<Rightarrow> nat \<Rightarrow> string list option" where
  "query_get_from 0 key q k = Some []"
| "query_get_from (Suc left) key q k =
     (case qs_k2v key (qs_url q) (key_value_pairs q) k of
        None \<Rightarrow> None
      | Some None \<Rightarrow> Some []
      | Some (Some p) \<Rightarrow> map_option (Cons (str_at (qs_url q) p)) (query_get_from left key q (k + 1)))"

definition query_get_list :: "string \<Rightarrow> query_string \<Rightarrow> string list option" where
  "query_get_list name q = query_get_from (length (key_value_pairs q)) (name @ ''[]'') q 0"

end
