(* ===== verification/Crow_Conn.thy ===== *)
theory Crow_Conn
  imports Crow_Router_Props Crow_Query
begin

text \<open>
  One connection of the HTTP server (\<^verbatim>\<open>src/crow_all.h\<close>: \<^verbatim>\<open>HTTPParser\<close> and \<^verbatim>\<open>Connection\<close>): the
  callbacks that assemble a request from the pieces the tokenizer finds, the checks of
  \<^verbatim>\<open>Connection::handle\<close>, and \<^verbatim>\<open>complete_request\<close>, which writes the response. The tokenizer
  \<^verbatim>\<open>http_parser_execute\<close> is not modelled: its callbacks, in the order it makes them, are the input.
\<close>

section \<open>Assembling a request\<close>

record parser =
  p_raw_url :: string
  p_url :: string
  p_header_state :: nat
  p_header_field :: string
  p_header_value :: string
  p_headers :: ci_map
  p_url_params :: query_string
  p_body :: string

definition parser_clear :: parser where
  "parser_clear =
     \<lparr>p_raw_url = [], p_url = [], p_header_state = 0, p_header_field = [], p_header_value = [],
      p_headers = [], p_url_params = query_string_empty, p_body = []\<rparr>"

definition on_message_begin :: "parser \<Rightarrow> parser" where
  "on_message_begin self = parser_clear"

definition on_url :: "string \<Rightarrow> parser \<Rightarrow> parser" where
  "on_url piece self = self\<lparr>p_raw_url := p_raw_url self @ piece\<rparr>"

text \<open>A string that has been moved from is empty, as in libstdc++.\<close>

definition on_header_field :: "string \<Rightarrow> parser \<Rightarrow> parser" where
  "on_header_field piece self =
     (if p_header_state self = 0 then
        let self = (if p_header_value self \<noteq> []
                    then self\<lparr>p_headers := hdr_emplace (p_header_field self) (p_header_value self) (p_headers self),
                              p_header_field := [], p_header_value := []\<rparr>
                    else self)
        in self\<lparr>p_header_field := piece, p_header_state := 1\<rparr>
      else if p_header_state self = 1 then self\<lparr>p_header_field := p_header_field self @ piece\<rparr>
      else self)"

definition on_header_value :: "string \<Rightarrow> parser \<Rightarrow> parser" where
  "on_header_value piece self =
     (if p_header_state self = 0 then self\<lparr>p_header_value := p_header_value self @ piece\<rparr>
      else if p_header_state self = 1
      then self\<lparr>p_header_state := 0, p_header_value := piece\<rparr>
      else self)"

definition on_headers_complete :: "parser \<Rightarrow> parser" where
  "on_headers_complete self =
     (if p_header_field self \<noteq> []
      then self\<lparr>p_headers := hdr_emplace (p_header_field self) (p_header_value self) (p_headers self),
                p_header_field := [], p_header_value := []\<rparr>
      else self)"

definition on_body :: "string \<Rightarrow> parser \<Rightarrow> parser" where
  "on_body piece self = self\<lparr>p_body := p_body self @ piece\<rparr>"

text \<open>\<^verbatim>\<open>raw_url.substr(0, raw_url.find("?"))\<close>.\<close>

definition strip_query :: "string \<Rightarrow> string" where
  "strip_query raw = takeWhile (\<lambda>c. c \<noteq> CHR ''?'') raw"

text \<open>\<^verbatim>\<open>on_message_complete\<close> up to \<^verbatim>\<open>process_message\<close>; \<open>None\<close> when \<^verbatim>\<open>query_string\<close> leaves its array.\<close>

definition on_message_complete :: "parser \<Rightarrow> parser option" where
  "on_message_complete self =
     (case query_string_of (p_raw_url self) of
        None \<Rightarrow> None
      | Some q \<Rightarrow> Some (self\<lparr>p_url := strip_query (p_raw_url self), p_url_params := q\<rparr>))"

datatype parse_event =
    EvUrl string | EvField string | EvValue string | EvHeadersComplete | EvBody string

fun parse_step :: "parse_event \<Rightarrow> parser \<Rightarrow> parser" where
  "parse_step (EvUrl s) = on_url s"
| "parse_step (EvField s) = on_header_field s"
| "parse_step (EvValue s) = on_header_value s"
| "parse_step EvHeadersComplete = on_headers_complete"
| "parse_step (EvBody s) = on_body s"

text \<open>A whole message: the callbacks between \<^verbatim>\<open>on_message_begin\<close> and \<^verbatim>\<open>on_message_complete\<close>.\<close>

definition parse_message :: "parse_event list \<Rightarrow> parser \<Rightarrow> parser option" where
  "parse_message evs self = on_message_complete (fold parse_step evs (on_message_begin self))"

definition to_request :: "nat \<Rightarrow> parser \<Rightarrow> query_string request" where
  "to_request meth self =
     \<lparr>req_method = meth, req_raw_url = p_raw_url self, req_url = p_url self,
      req_url_params = p_url_params self, req_headers = p_headers self, req_body = p_body self\<rparr>"

section \<open>Connection::handle\<close>

text \<open>
  What the tokenizer tells about a message besides the callbacks, and the fields of the connection
  that the handling of a message reads or sets. The application has no middlewares, so a response is
  never complete before its handler runs and no after-handler is called.
\<close>

record message =
  m_major :: nat
  m_minor :: nat
  m_method :: nat
  m_upgrade :: bool
  m_parser :: parser

record connection =
  close_connection :: bool
  add_keep_alive :: bool
  conn_res :: response

definition connection_new :: connection where
  "connection_new = \<lparr>close_connection = False, add_keep_alive = False, conn_res = response_new\<rparr>"

text \<open>\<^verbatim>\<open>handle_header\<close>: whether \<^verbatim>\<open>100 Continue\<close> is written.\<close>

definition handle_header :: "message \<Rightarrow> bool" where
  "handle_header m \<longleftrightarrow>
     (m_major m, m_minor m) = (1, 1) \<and> hdr_count ''expect'' (p_headers (m_parser m)) \<noteq> 0 \<and>
     get_header_value (p_headers (m_parser m)) ''expect'' = ''100-continue''"

text \<open>
  The decisions of \<^verbatim>\<open>handle\<close> before the handler is called: the connection's flags, whether the request
  is invalid, and whether it is handed over as an upgrade.
\<close>

definition handle_checks :: "message \<Rightarrow> query_string request \<Rightarrow> connection \<Rightarrow> connection \<times> bool \<times> bool" where
  "handle_checks m req c =
     (let c = c\<lparr>add_keep_alive := False\<rparr>; conn = get_header_value (req_headers req) ''connection'' in
      if (m_major m, m_minor m) = (1, 0) then
        (if hdr_count ''connection'' (req_headers req) \<noteq> 0
         then (if iequals conn ''Keep-Alive'' then c\<lparr>add_keep_alive := True\<rparr> else c, False, False)
         else (c\<lparr>close_connection := True\<rparr>, False, False))
      else if (m_major m, m_minor m) = (1, 1) then
        (let c = (if hdr_count ''connection'' (req_headers req) \<noteq> 0
                  then if conn = ''close'' then c\<lparr>close_connection := True\<rparr>
                       else if iequals conn ''Keep-Alive'' then c\<lparr>add_keep_alive := True\<rparr> else c
                  else c);
             invalid = (hdr_count ''host'' (req_headers req) = 0);
             c = (if invalid then c\<lparr>conn_res := response_code 400\<rparr> else c)
         in if m_upgrade m \<and> get_header_value (req_headers req) ''upgrade'' \<noteq> ''h2c''
            then (c\<lparr>close_connection := True\<rparr>, invalid, True)
            else (c, invalid, False))
      else (c, False, False))"

section \<open>complete_request\<close>

definition CRLF_text :: string where
  "CRLF_text = [CHR 0x0D, CHR 0x0A]"

definition statusCodes :: "(int \<times> string) list" where
  "statusCodes =
     [(200, ''HTTP/1.1 200 OK''), (201, ''HTTP/1.1 201 Created''), (202, ''HTTP/1.1 202 Accepted''),
      (204, ''HTTP/1.1 204 No Content''),
      (300, ''HTTP/1.1 300 Multiple Choices''), (301, ''HTTP/1.1 301 Moved Permanently''),
      (302, ''HTTP/1.1 302 Moved Temporarily''), (304, ''HTTP/1.1 304 Not Modified''),
      (400, ''HTTP/1.1 400 Bad Request''), (401, ''HTTP/1.1 401 Unauthorized''),
      (403, ''HTTP/1.1 403 Forbidden''), (404, ''HTTP/1.1 404 Not Found''),
      (422, ''HTTP/1.1 422 Unprocessable Entity''),
      (500, ''HTTP/1.1 500 Internal Server Error''), (501, ''HTTP/1.1 501 Not Implemented''),
      (502, ''HTTP/1.1 502 Bad Gateway''), (503, ''HTTP/1.1 503 Service Unavailable'')]"

definition status_line :: "int \<Rightarrow> string" where
  "status_line code = (case map_of statusCodes code of Some l \<Rightarrow> l @ CRLF_text | None \<Rightarrow> [])"

definition header_line :: "string \<Rightarrow> string \<Rightarrow> string" where
  "header_line k v = k @ '': '' @ v @ CRLF_text"

text \<open>The status and the body that are sent.\<close>

definition final_response :: "response \<Rightarrow> response" where
  "final_response res =
     (let res = (case res_json res of
                   Some dump \<Rightarrow> if res_body res = [] then res\<lparr>res_body := dump\<rparr> else res
                 | None \<Rightarrow> res);
          res = (if map_of statusCodes (res_code res) = None then res\<lparr>res_code := 500\<rparr> else res)
      in if 400 \<le> res_code res \<and> res_body res = []
         then res\<lparr>res_body := drop 9 (status_line (res_code res))\<rparr> else res)"

text \<open>
  The buffers of \<^verbatim>\<open>complete_request\<close>, joined, for an open socket; \<open>server\<close> is \<^verbatim>\<open>server_name_\<close> and
  \<open>date\<close> the cached date.
\<close>

definition response_bytes :: "string \<Rightarrow> string \<Rightarrow> bool \<Rightarrow> response \<Rightarrow> string" where
  "response_bytes server date keep res0 =
     (let res = final_response res0; hs = res_headers res in
      status_line (res_code res)
      @ concat (map (\<lambda>(k, v). header_line k v) hs)
      @ (if hdr_count ''content-length'' hs = 0
         then header_line ''Content-Length'' (to_string (int (length (res_body res)))) else [])
      @ (if hdr_count ''server'' hs = 0 then header_line ''Server'' server else [])
      @ (if hdr_count ''date'' hs = 0 then header_line ''Date'' date else [])
      @ (if keep then ''Connection: Keep-Alive'' @ CRLF_text else [])
      @ CRLF_text @ res_body res)"

section \<open>A message from its pieces to the bytes of the answer\<close>

text \<open>
  What a message leads to: the bytes written (\<open>None\<close> when nothing is written), with the application's
  state and the connection, or undefined behaviour. The response object is cleared when the write is
  done (\<^verbatim>\<open>do_write\<close>).
\<close>

datatype 's reply =
    Replied "string option" "'s option" connection
  | EscapedReply string
  | UndefinedReply

definition finish_write :: "connection \<Rightarrow> connection" where
  "finish_write c = c\<lparr>conn_res := response_clear (conn_res c)\<rparr>"

definition conn_handle ::
  "'d strtod_fn \<Rightarrow> string \<Rightarrow> string \<Rightarrow> (query_string, 'd, 's) router \<Rightarrow> message \<Rightarrow> connection \<Rightarrow> 's \<Rightarrow> 's reply"
  where
  "conn_handle strtod server date router m c0 s =
     (let req = to_request (m_method m) (m_parser m);
          (c, invalid, upgrade) = handle_checks m req c0
      in if upgrade then
           (case router_handle_upgrade strtod router req s of
              Served res s' \<Rightarrow> Replied None (Some s') (c\<lparr>conn_res := res\<rparr>)
            | Failed res \<Rightarrow> Replied None None (c\<lparr>conn_res := res\<rparr>)
            | Escapes e \<Rightarrow> EscapedReply e
            | UndefinedCall \<Rightarrow> UndefinedReply)
         else if invalid then
           Replied (Some (response_bytes server date (add_keep_alive c) (conn_res c))) (Some s) (finish_write c)
         else
           (case router_handle strtod router req s of
              Served res s' \<Rightarrow>
                Replied (Some (response_bytes server date (add_keep_alive c) res)) (Some s') (finish_write c)
            | Failed res \<Rightarrow>
                Replied (Some (response_bytes server date (add_keep_alive c) res)) None (finish_write c)
            | Escapes e \<Rightarrow> EscapedReply e
            | UndefinedCall \<Rightarrow> UndefinedReply))"


section \<open>The request does not depend on how the tokenizer cuts it\<close>

text \<open>
  The callbacks for a header: at least one piece of its name, then at least one piece of its value.
\<close>

definition header_events :: "string list \<times> string list \<Rightarrow> parse_event list" where
  "header_events h = map EvField (fst h) @ map EvValue (snd h)"

definition message_events ::
  "string list \<Rightarrow> (string list \<times> string list) list \<Rightarrow> string list \<Rightarrow> parse_event list" where
  "message_events urls hs bodies =
     map EvUrl urls @ concat (map header_events hs) @ [EvHeadersComplete] @ map EvBody bodies"

definition header_of :: "string list \<times> string list \<Rightarrow> string \<times> string" where
  "header_of h = (concat (fst h), concat (snd h))"

text \<open>Every header but the last is lost when its value is empty.\<close>

definition kept_headers :: "(string \<times> string) list \<Rightarrow> (string \<times> string) list" where
  "kept_headers hs = (if hs = [] then [] else filter (\<lambda>(k, v). v \<noteq> []) (butlast hs) @ [last hs])"

lemma fold_url: "fold parse_step (map EvUrl urls) p = p\<lparr>p_raw_url := p_raw_url p @ concat urls\<rparr>"
  by (induction urls arbitrary: p) (simp_all add: on_url_def)

lemma fold_body: "fold parse_step (map EvBody bodies) p = p\<lparr>p_body := p_body p @ concat bodies\<rparr>"
  by (induction bodies arbitrary: p) (simp_all add: on_body_def)

lemma fold_field_more:
  "p_header_state p = 1 \<Longrightarrow>
     fold parse_step (map EvField fs) p = p\<lparr>p_header_field := p_header_field p @ concat fs\<rparr>"
  by (induction fs arbitrary: p) (simp_all add: on_header_field_def)

lemma fold_value_more:
  "p_header_state p = 0 \<Longrightarrow>
     fold parse_step (map EvValue vs) p = p\<lparr>p_header_value := p_header_value p @ concat vs\<rparr>"
  by (induction vs arbitrary: p) (simp_all add: on_header_value_def)

text \<open>The headers known once the pending one is counted.\<close>

definition flushed :: "parser \<Rightarrow> ci_map" where
  "flushed p = p_headers p @ (if p_header_value p \<noteq> [] then [(p_header_field p, p_header_value p)] else [])"

lemma fold_header:
  assumes "p_header_state p = 0" and "fst h \<noteq> []" and "snd h \<noteq> []"
  shows "fold parse_step (header_events h) p =
           p\<lparr>p_headers := flushed p, p_header_field := concat (fst h), p_header_value := concat (snd h)\<rparr>"
proof -
  obtain f fs v vs where h: "h = (f # fs, v # vs)" using assms(2,3) by (metis list.exhaust prod.collapse)
  let ?p1 = "p\<lparr>p_headers := flushed p, p_header_field := f, p_header_state := 1,
               p_header_value := (if p_header_value p \<noteq> [] then [] else p_header_value p)\<rparr>"
  have "on_header_field f p = ?p1"
    using assms(1) by (simp add: on_header_field_def flushed_def hdr_emplace_def Let_def)
  then show ?thesis
    using assms(1)
    by (simp add: header_events_def h fold_field_more fold_value_more on_header_value_def)
qed

lemma fold_headers:
  assumes "\<forall>h \<in> set hs. fst h \<noteq> [] \<and> snd h \<noteq> []" and "p_header_state p = 0" and "hs \<noteq> []"
  shows "fold parse_step (concat (map header_events hs)) p =
           p\<lparr>p_headers := flushed p @ filter (\<lambda>(k, v). v \<noteq> []) (map header_of (butlast hs)),
             p_header_field := fst (header_of (last hs)), p_header_value := snd (header_of (last hs))\<rparr>"
  using assms
proof (induction hs arbitrary: p)
  case (Cons h hs)
  let ?p1 = "p\<lparr>p_headers := flushed p, p_header_field := concat (fst h), p_header_value := concat (snd h)\<rparr>"
  have 1: "fold parse_step (header_events h) p = ?p1"
    using Cons.prems by (intro fold_header) auto
  show ?case
  proof (cases "hs = []")
    case True
    then show ?thesis using 1 by (simp add: header_of_def)
  next
    case False
    then show ?thesis
      using 1 Cons.IH [of ?p1] Cons.prems by (simp add: flushed_def header_of_def)
  qed
qed simp

lemma parse_message_fields:
  assumes "\<forall>h \<in> set hs. fst h \<noteq> [] \<and> snd h \<noteq> []" and "hs \<noteq> []" and "concat (fst (last hs)) \<noteq> []"
    and "query_string_of (concat urls) = Some q"
  shows "\<exists>p. parse_message (message_events urls hs bodies) self = Some p \<and>
           p_raw_url p = concat urls \<and> p_url p = strip_query (concat urls) \<and> p_url_params p = q \<and>
           p_headers p = kept_headers (map header_of hs) \<and> p_body p = concat bodies"
  using assms
  by (simp add: parse_message_def message_events_def on_message_begin_def fold_url fold_body fold_headers
      parser_clear_def flushed_def on_headers_complete_def on_message_complete_def
      kept_headers_def header_of_def hdr_emplace_def last_map map_butlast)

text \<open>
  C17. The request that the callbacks assemble does not depend on how the tokenizer cuts the URL, the headers
  and the body into pieces: it has the joined pieces. All headers are kept, except that a header with an
  empty value is lost unless it is the last one.
\<close>

theorem parse_message_pieces:
  assumes "\<forall>h \<in> set hs. fst h \<noteq> [] \<and> snd h \<noteq> []" and "hs \<noteq> []" and "concat (fst (last hs)) \<noteq> []"
    and "query_string_of (concat urls) = Some q"
  shows "map_option (to_request meth) (parse_message (message_events urls hs bodies) self) =
           Some \<lparr>req_method = meth, req_raw_url = concat urls, req_url = strip_query (concat urls),
                 req_url_params = q, req_headers = kept_headers (map header_of hs),
                 req_body = concat bodies\<rparr>"
  using parse_message_fields [OF assms] by (auto simp: to_request_def)

theorem parse_message_pieces_witness:
  "\<exists>p. parse_message
      [EvUrl ''/p'', EvUrl ''?x'', EvField ''Ho'', EvField ''st'', EvValue ''a'', EvField ''Via'', EvValue [],
       EvField ''Age'', EvValue ''1'', EvHeadersComplete, EvBody ''b1'', EvBody ''b2''] parser_clear = Some p \<and>
     req_url (to_request 3 p) = ''/p'' \<and>
     req_headers (to_request 3 p) = [(''Host'', ''a''), (''Age'', ''1'')] \<and> req_body (to_request 3 p) = ''b1b2''"
proof -
  let ?hs = "[([''Ho'', ''st''], [''a'']), ([''Via''], [[]]), ([''Age''], [''1''])]"
  have q: "query_string_of (concat [''/p'', ''?x'']) =
      Some \<lparr>qs_url = ''/p?x'' @ [NUL], key_value_pairs = [3]\<rparr>"
    by (simp add: query_string_of_def MAX_KEY_VALUE_PAIRS_COUNT_def qs_parse_def c_buf_def strcspn_def NUL_def
        eval_nat_numeral rd_def wr_def Let_def)
  show ?thesis
    using parse_message_pieces [of ?hs "[''/p'', ''?x'']" _ 3 "[''b1'', ''b2'']" parser_clear, OF _ _ _ q]
    by (auto simp: message_events_def header_events_def header_of_def kept_headers_def strip_query_def)
qed

end
