(* ===== verification/Crow_Reply.thy ===== *)
theory Crow_Reply
  imports Crow_Conn
begin

text \<open>
  The bytes of a response, read back by a client: the status line, the header lines up to the empty
  line, and the rest as the body. Also the answers that \<^verbatim>\<open>Connection::handle\<close> gives itself.
\<close>

section \<open>Reading a response\<close>

fun cut_crlf :: "string \<Rightarrow> string \<times> string" where
  "cut_crlf (c # d # s) =
     (if c = CHR 0x0D \<and> d = CHR 0x0A then ([], s) else let (l, r) = cut_crlf (d # s) in (c # l, r))"
| "cut_crlf s = (s, [])"

lemma cut_crlf_shorter: "s \<noteq> [] \<Longrightarrow> length (snd (cut_crlf s)) < length s"
  by (induction s rule: cut_crlf.induct) (auto simp: case_prod_unfold Let_def)

text \<open>The lines before the first empty line, and the text after it.\<close>

function read_head :: "string \<Rightarrow> string list \<times> string" where
  "read_head s =
     (if s = [] then ([], [])
      else let (l, r) = cut_crlf s in
           if l = [] then ([], r) else let (ls, b) = read_head r in (l # ls, b))"
  by pat_completeness auto
termination
proof (relation "measure length")
  fix s l r x
  assume "s \<noteq> []" and "x = cut_crlf s" and "(l, r) = x"
  then show "(r, s) \<in> measure length" using cut_crlf_shorter [of s] by (metis in_measure snd_conv)
qed simp

declare read_head.simps [simp del]

definition no_cr :: "string \<Rightarrow> bool" where
  "no_cr s \<longleftrightarrow> CHR 0x0D \<notin> set s"

lemma no_cr_append [simp]: "no_cr (s @ t) \<longleftrightarrow> no_cr s \<and> no_cr t"
  by (auto simp: no_cr_def)

lemma no_cr_Cons [simp]: "no_cr (c # s) \<longleftrightarrow> c \<noteq> CHR 0x0D \<and> no_cr s"
  by (auto simp: no_cr_def)

lemma no_cr_Nil [simp]: "no_cr []"
  by (simp add: no_cr_def)

lemma cut_crlf_line: "no_cr l \<Longrightarrow> cut_crlf (l @ CRLF_text @ r) = (l, r)"
proof (induction l)
  case Nil
  then show ?case by (simp add: CRLF_text_def)
next
  case (Cons c l)
  have "\<exists>d s. l @ CRLF_text @ r = d # s" by (cases l) (simp_all add: CRLF_text_def)
  then obtain d s where d: "l @ CRLF_text @ r = d # s" by blast
  then show ?case using Cons by simp
qed

lemma read_head_line:
  assumes "no_cr l" and "l \<noteq> []"
  shows "read_head (l @ CRLF_text @ r) = (l # fst (read_head r), snd (read_head r))"
  using assms by (subst read_head.simps) (simp add: cut_crlf_line case_prod_unfold Let_def)

lemma read_head_end [simp]: "read_head (CRLF_text @ r) = ([], r)"
  using cut_crlf_line [of "[]" r] by (subst read_head.simps) (simp add: no_cr_def CRLF_text_def)

lemma read_head_lines:
  assumes "\<forall>l \<in> set ls. no_cr l \<and> l \<noteq> []"
  shows "read_head (concat (map (\<lambda>l. l @ CRLF_text) ls) @ CRLF_text @ b) = (ls, b)"
  using assms by (induction ls) (simp_all add: read_head_line)

section \<open>The lines of a response\<close>

definition reply_lines :: "string \<Rightarrow> string \<Rightarrow> bool \<Rightarrow> response \<Rightarrow> string list" where
  "reply_lines server date keep res0 =
     (let res = final_response res0; hs = res_headers res in
      [the (map_of statusCodes (res_code res))]
      @ map (\<lambda>(k, v). k @ '': '' @ v) hs
      @ (if hdr_count ''content-length'' hs = 0
         then [''Content-Length: '' @ to_string (int (length (res_body res)))] else [])
      @ (if hdr_count ''server'' hs = 0 then [''Server: '' @ server] else [])
      @ (if hdr_count ''date'' hs = 0 then [''Date: '' @ date] else [])
      @ (if keep then [''Connection: Keep-Alive''] else []))"

lemma final_status: "map_of statusCodes (res_code (final_response res)) \<noteq> None"
proof -
  have "map_of statusCodes 500 \<noteq> None" by (simp add: statusCodes_def)
  then show ?thesis by (simp add: final_response_def Let_def split: option.splits)
qed

lemma final_headers: "res_headers (final_response res) = res_headers res"
  by (simp add: final_response_def Let_def split: option.splits)

lemma response_bytes_lines:
  "response_bytes server date keep res =
     concat (map (\<lambda>l. l @ CRLF_text) (reply_lines server date keep res)) @ CRLF_text @ res_body (final_response res)"
proof -
  obtain st where st: "map_of statusCodes (res_code (final_response res)) = Some st"
    using final_status by blast
  have "concat (map (\<lambda>(k, v). header_line k v) hs) = concat (map (\<lambda>l. l @ CRLF_text) (map (\<lambda>(k, v). k @ '': '' @ v) hs))" for hs
    by (induction hs) (auto simp: header_line_def)
  then show ?thesis
    by (simp add: response_bytes_def reply_lines_def Let_def status_line_def st header_line_def)
qed

lemma digits_no_cr: "no_cr (digits_of n)"
proof -
  have "\<not> is_digit (CHR 0x0D)" by (simp add: is_digit_def)
  then show ?thesis using digits_of_digits [of "CHR 0x0D" n] by (auto simp: no_cr_def)
qed

lemma status_no_cr: "map_of statusCodes code = Some l \<Longrightarrow> no_cr l \<and> l \<noteq> []"
proof -
  assume "map_of statusCodes code = Some l"
  then have "l \<in> snd ` set statusCodes" by (force dest: map_of_SomeD)
  moreover have "\<forall>l \<in> snd ` set statusCodes. no_cr l \<and> l \<noteq> []"
    by (simp add: statusCodes_def no_cr_def)
  ultimately show ?thesis by blast
qed

lemma reply_lines_ok:
  assumes "\<forall>(k, v) \<in> set (res_headers res). no_cr k \<and> no_cr v" and "no_cr server" and "no_cr date"
    and l: "l \<in> set (reply_lines server date keep res)"
  shows "no_cr l \<and> l \<noteq> []"
proof -
  obtain st where st: "map_of statusCodes (res_code (final_response res)) = Some st"
    using final_status by blast
  have "no_cr st \<and> st \<noteq> []" using status_no_cr [OF st] .
  with l show ?thesis
    using assms(1-3) digits_no_cr
    unfolding reply_lines_def Let_def st option.sel final_headers set_append Un_iff
    by (auto simp: to_string_def split: if_splits)
qed

lemma response_read:
  assumes "\<forall>(k, v) \<in> set (res_headers res). no_cr k \<and> no_cr v" and "no_cr server" and "no_cr date"
  shows "read_head (response_bytes server date keep res) =
           (reply_lines server date keep res, res_body (final_response res))"
  unfolding response_bytes_lines using reply_lines_ok [OF assms] by (intro read_head_lines) blast

text \<open>
  C18. A client that reads lines up to the empty one gets from the bytes of a response its status line, its
  headers and the generated ones, and then exactly the body, provided no header contains a carriage return;
  unless the handler set one itself, there is one generated \<^verbatim>\<open>Content-Length\<close>, and it is the length of the body.
\<close>

theorem response_framing:
  assumes "\<forall>(k, v) \<in> set (res_headers res). no_cr k \<and> no_cr v" and "no_cr server" and "no_cr date"
  shows "read_head (response_bytes server date keep res) =
           (reply_lines server date keep res, res_body (final_response res)) \<and>
         (hdr_count ''content-length'' (res_headers res) = 0 \<longrightarrow>
            filter (\<lambda>l. take 16 l = ''Content-Length: '') (drop (Suc (length (res_headers res)))
                (reply_lines server date keep res)) =
              [''Content-Length: '' @ to_string (int (length (res_body (final_response res))))])"
  using response_read [OF assms] by (auto simp: reply_lines_def Let_def final_headers)

theorem response_framing_witness:
  "read_head (response_bytes ''Crow'' ''now'' True (set_header ''Content-Type'' ''text'' (response_text ''ok''))) =
     ([''HTTP/1.1 200 OK'', ''Content-Type: text'', ''Content-Length: 2'', ''Server: Crow'', ''Date: now'',
       ''Connection: Keep-Alive''], ''ok'')"
proof -
  let ?res = "set_header ''Content-Type'' ''text'' (response_text ''ok'')"
  have "\<forall>(k, v) \<in> set (res_headers ?res). no_cr k \<and> no_cr v" and "no_cr ''Crow''" and "no_cr ''now''"
    by (simp_all add: set_header_def response_text_def response_new_def hdr_erase_def hdr_emplace_def no_cr_def)
  from response_framing [OF this, of True] show ?thesis
    by (simp add: reply_lines_def final_response_def set_header_def response_text_def response_new_def
        hdr_erase_def hdr_emplace_def statusCodes_def hdr_count_def Let_def iequals_def toupper_def to_string_def
        digits_of.simps [of 2] digit_char_def char_of_def bit_0)
qed

end
