(* ===== verification/Crow_Query_Props.thy ===== *)
theory Crow_Query_Props
  imports Crow_Query Signature
begin

text \<open>
  Properties of the query string: the in-place decoding against a decoder on strings, the layout of
  the buffer after parsing, look-up of a parameter, and the number of pairs beyond which parsing
  leaves the array.
\<close>

section \<open>Decoding\<close>

fun url_dec :: "string \<Rightarrow> string" where
  "url_dec [] = []"
| "url_dec (c # cs) =
     (if \<not> QS_ISQSCHR c then []
      else if c = CHR ''+'' then CHR '' '' # url_dec cs
      else if c = CHR ''%'' then
        (case cs of
           u # l # cs' \<Rightarrow> if QS_ISHEX u \<and> QS_ISHEX l then hex_char u l # url_dec cs' else []
         | _ \<Rightarrow> [])
      else c # url_dec cs)"

lemma QS_ISHEX_chr: "QS_ISHEX c \<Longrightarrow> QS_ISQSCHR c"
  by (auto simp: QS_ISHEX_def QS_ISQSCHR_def NUL_def Let_def)

lemma url_dec_length: "length (url_dec s) \<le> length s"
proof (induction s rule: length_induct)
  case (1 s)
  show ?case
  proof (cases s)
    case (Cons c cs)
    have "length (url_dec cs) \<le> length cs" using 1 Cons by simp
    moreover have "length (url_dec cs') \<le> length cs'" if "cs = u # l # cs'" for u l cs' using 1 Cons that by simp
    ultimately show ?thesis using Cons by (auto split: list.splits intro: le_SucI)
  qed simp
qed

lemma url_dec_stop: "\<not> QS_ISQSCHR d \<Longrightarrow> url_dec (v @ d # r) = url_dec v"
proof (induction v rule: length_induct)
  case (1 v)
  have d: "\<not> QS_ISHEX d" using 1(2) QS_ISHEX_chr by blast
  consider "v = []" | c where "v = [c]" | c u where "v = [c, u]" | c u l cs where "v = c # u # l # cs"
    by (metis list.exhaust)
  then show ?case
  proof cases
    case (4 c u l cs)
    then have "url_dec (ys @ d # r) = url_dec ys" if "ys \<in> {u # l # cs, cs}" for ys
      using 1(1) [rule_format, OF _ 1(2), of ys] that by auto
    from this [of "u # l # cs"] this [of cs] show ?thesis using 4 by (simp del: url_dec.simps add: url_dec.simps(2) [of c])
  qed (use 1(2) d in \<open>auto split: list.splits\<close>)
qed

definition terminated :: "buffer \<Rightarrow> bool" where
  "terminated b \<longleftrightarrow> b \<noteq> [] \<and> last b = NUL"

lemma QS_ISQSCHR_NUL [simp]: "\<not> QS_ISQSCHR NUL"
  by (simp add: QS_ISQSCHR_def)

lemma terminated_inside: "terminated b \<Longrightarrow> k < length b \<Longrightarrow> QS_ISQSCHR (b ! k) \<Longrightarrow> Suc k < length b"
  by (cases "length b = Suc k") (auto simp: terminated_def last_conv_nth)

text \<open>What \<^verbatim>\<open>qs_decode\<close> leaves in the buffer.\<close>

definition decoded_from :: "buffer \<Rightarrow> nat \<Rightarrow> nat \<Rightarrow> buffer" where
  "decoded_from b k m =
     (let D = url_dec (drop m b) in take k b @ D @ [NUL] @ drop (k + length D + 1) b)"

lemma decoded_from_step:
  assumes "k \<le> m" and "m < length b" and "m < m'" and "url_dec (drop m b) = c # url_dec (drop m' b)"
  shows "decoded_from (b[k := c]) (Suc k) m' = decoded_from b k m"
proof -
  have "drop n (b[k := c]) = drop n b" if "k < n" for n using that by simp
  moreover have "take (Suc k) (b[k := c]) = take k b @ [c]"
    using assms by (simp add: take_Suc_conv_app_nth)
  ultimately show ?thesis
    using assms by (simp add: decoded_from_def Let_def)
qed

lemma decoded_from_end:
  assumes "k \<le> m" and "m < length b" and "url_dec (drop m b) = []"
  shows "b[k := NUL] = decoded_from b k m"
  using assms by (simp add: decoded_from_def upd_conv_take_nth_drop)

lemma qs_decode_loop_spec:
  assumes "terminated b" and "off + j < length b" and "i \<le> j"
  shows "qs_decode_loop b off i j =
           Some (decoded_from b (off + i) (off + j), i + length (url_dec (drop (off + j) b)))"
  using assms
proof (induction b off i j rule: qs_decode_loop.induct)
  case (1 b off i j)
  let ?m = "off + j" and ?k = "off + i"
  have d: "drop ?m b = b ! ?m # drop (Suc ?m) b"
    using "1.prems"(2) by (simp add: Cons_nth_drop_Suc)
  have k: "?k < length b" "?k \<le> ?m" using "1.prems" by simp_all
  have upd: "terminated (b[?k := c])" if "Suc ?m < length b" for c
    using "1.prems"(1,3) that by (auto simp: terminated_def last_conv_nth nth_list_update)
  show ?case
  proof (cases "QS_ISQSCHR (b ! ?m)")
    case False
    then have "url_dec (drop ?m b) = []" using d by simp
    then show ?thesis
      using False "1.prems" k decoded_from_end [OF k(2) "1.prems"(2)]
      by (subst qs_decode_loop.simps) (simp add: wr_def)
  next
    case True
    then have m1: "Suc ?m < length b" using "1.prems" by (intro terminated_inside)
    then have d1: "drop (Suc ?m) b = b ! Suc ?m # drop (Suc (Suc ?m)) b"
      by (simp add: Cons_nth_drop_Suc)
    consider (plus) "b ! ?m = CHR ''+''" | (plain) "b ! ?m \<noteq> CHR ''+''" "b ! ?m \<noteq> CHR ''%''"
      | (bad1) "b ! ?m = CHR ''%''" "\<not> QS_ISHEX (b ! Suc ?m)"
      | (hex1) "b ! ?m = CHR ''%''" "QS_ISHEX (b ! Suc ?m)" by blast
    then show ?thesis
    proof cases
      case plus
      then show ?thesis
        using True "1.prems" k m1 d upd decoded_from_step [OF k(2) "1.prems"(2), of "Suc ?m" "CHR '' ''"]
          "1.IH"(1) [of "b[?k := CHR '' '']"]
        by (subst qs_decode_loop.simps) (simp add: wr_def)
    next
      case plain
      then show ?thesis
        using True "1.prems" k m1 d upd decoded_from_step [OF k(2) "1.prems"(2), of "Suc ?m" "b ! ?m"]
          "1.IH"(3) [of "b[?k := b ! ?m]"]
        by (subst qs_decode_loop.simps) (simp add: wr_def)
    next
      case bad1
      then have "url_dec (drop ?m b) = []" using d d1 by (simp split: list.splits)
      then show ?thesis
        using bad1 True "1.prems" k m1 decoded_from_end [OF k(2) "1.prems"(2)]
        by (subst qs_decode_loop.simps) (simp add: wr_def rd_def)
    next
      case hex1
      then have m2: "Suc (Suc ?m) < length b"
        using terminated_inside [OF "1.prems"(1) m1] QS_ISHEX_chr by blast
      then have d2: "drop (Suc (Suc ?m)) b = b ! Suc (Suc ?m) # drop (Suc (Suc (Suc ?m))) b"
        by (simp add: Cons_nth_drop_Suc)
      show ?thesis
      proof (cases "QS_ISHEX (b ! Suc (Suc ?m))")
        case False
        then have "url_dec (drop ?m b) = []" using hex1 d d1 d2 by simp
        then show ?thesis
          using False hex1 True "1.prems" k m1 m2 decoded_from_end [OF k(2) "1.prems"(2)]
          by (subst qs_decode_loop.simps) (simp add: wr_def rd_def)
      next
        case hex2: True
        have m3: "off + (j + 3) < length b"
          using terminated_inside [OF "1.prems"(1) m2] hex2 QS_ISHEX_chr by (simp add: numeral_3_eq_3)
        let ?c = "hex_char (b ! Suc ?m) (b ! Suc (Suc ?m))"
        have "url_dec (drop ?m b) = ?c # url_dec (drop (?m + 3) b)"
          using hex1 hex2 True d d1 d2 by (simp add: numeral_3_eq_3)
        then show ?thesis
          using hex1 hex2 True "1.prems" k m1 m2 m3 upd [of ?c]
            decoded_from_step [OF k(2) "1.prems"(2), of "?m + 3" ?c]
            "1.IH"(2) [of "b ! Suc ?m" "b ! Suc (Suc ?m)" "b[?k := ?c]"]
          by (subst qs_decode_loop.simps) (simp add: wr_def rd_def add.assoc)
      qed
    qed
  qed
qed


section \<open>The layout of the buffer\<close>

text \<open>The segments of a query with the characters that end them: \<^verbatim>\<open>&\<close>, and the terminator at last.\<close>

fun lay :: "string list \<Rightarrow> buffer" where
  "lay [] = []"
| "lay [s] = s @ [NUL]"
| "lay (s # t # ts) = s @ CHR ''&'' # lay (t # ts)"

fun offsets :: "nat \<Rightarrow> string list \<Rightarrow> nat list" where
  "offsets o1 [] = []"
| "offsets o1 (s # ss) = o1 # offsets (o1 + length s + 1) ss"

definition seg_ok :: "string \<Rightarrow> bool" where
  "seg_ok s \<longleftrightarrow> NUL \<notin> set s \<and> CHR ''&'' \<notin> set s"

text \<open>The characters that \<^verbatim>\<open>qs_parse\<close> skips to the end of a key.\<close>

definition key_chr :: "char \<Rightarrow> bool" where
  "key_chr c \<longleftrightarrow> c \<noteq> NUL \<and> c \<notin> set ''=&#''"

lemma key_chr_simps [simp]:
  "\<not> key_chr NUL" "\<not> key_chr (CHR ''='')" "\<not> key_chr (CHR ''&'')" "\<not> key_chr (CHR ''#'')"
  by (simp_all add: key_chr_def)

text \<open>A segment after the second loop of \<^verbatim>\<open>qs_parse\<close>; \<open>d\<close> is the character that ended it.\<close>

definition proc :: "string \<Rightarrow> char \<Rightarrow> buffer" where
  "proc s d =
     (case dropWhile key_chr s of
        [] \<Rightarrow> s @ [NUL]
      | e # v \<Rightarrow> takeWhile key_chr s @ e # url_dec v @ NUL #
                 drop (length (url_dec v) + 1) (v @ [d]))"

fun lay_done :: "string list \<Rightarrow> buffer" where
  "lay_done [] = []"
| "lay_done [s] = proc s NUL"
| "lay_done (s # t # ts) = proc s (CHR ''&'') @ lay_done (t # ts)"

lemma strcspn_at:
  assumes "\<forall>c \<in> set u. c \<noteq> NUL \<and> c \<notin> set reject" and "d = NUL \<or> d \<in> set reject"
  shows "strcspn (A @ u @ d # R) (length A) reject = length u"
  using assms by (auto simp: strcspn_def takeWhile_append2)

lemma strcspn_key:
  assumes "\<forall>c \<in> set u. key_chr c" and "\<not> key_chr d"
  shows "strcspn (A @ u @ d # R) (length A) ''=&#'' = length u"
  using assms by (intro strcspn_at) (auto simp: key_chr_def)

lemma lay_Cons:
  assumes "ss \<noteq> []"
  shows "lay (s # ss) = s @ CHR ''&'' # lay ss" "lay_done (s # ss) = proc s (CHR ''&'') @ lay_done ss"
  using assms by (cases ss, simp_all)+

lemma qs_split_lay:
  assumes "\<forall>s \<in> set ss. seg_ok s" and "ss \<noteq> []" and "A' = length A"
  shows "qs_split (A @ lay ss) A' n = (offsets A' (take n ss), length ss \<le> n)"
  using assms
proof (induction ss arbitrary: A A' n)
  case (Cons s ss)
  have s: "\<forall>c \<in> set s. c \<noteq> NUL \<and> c \<notin> set ''&''" using Cons.prems(1) by (auto simp: seg_ok_def)
  show ?case
  proof (cases n)
    case (Suc m)
    show ?thesis
    proof (cases "ss = []")
      case True
      have "strcspn (A @ s @ [NUL]) A' ''&'' = length s"
        using strcspn_at [OF s, of NUL A "[]"] Cons.prems(3) by simp
      then show ?thesis
        using Suc Cons.prems(3) True by (simp add: nth_append)
    next
      case False
      then have l: "lay (s # ss) = s @ CHR ''&'' # lay ss" by (rule lay_Cons)
      have j: "strcspn (A @ lay (s # ss)) A' ''&'' = length s"
        using strcspn_at [OF s, of "CHR ''&''" A "lay ss"] Cons.prems(3) by (simp add: l)
      have "qs_split (A @ lay (s # ss)) (A' + length s + 1) m = (offsets (A' + length s + 1) (take m ss), length ss \<le> m)"
        using Cons.IH [of "A' + length s + 1" "A @ s @ [CHR ''&'']" m] Cons.prems False by (simp add: l)
      moreover have "(A @ lay (s # ss)) ! (A' + length s) = CHR ''&''" "A' + length s < length (A @ lay (s # ss))"
        using Cons.prems(3) by (simp_all add: l nth_append)
      ultimately show ?thesis
        unfolding Suc qs_split.simps j Let_def by (simp add: NUL_def)
    qed
  qed simp
qed simp

lemma proc_length: "length (proc s d) = Suc (length s)"
proof (cases "dropWhile key_chr s")
  case Nil
  show ?thesis unfolding proc_def Nil by simp
next
  case (Cons e v)
  have "length s = length (takeWhile key_chr s) + Suc (length v)"
    using Cons by (metis length_Cons length_append takeWhile_dropWhile_id)
  then show ?thesis using Cons url_dec_length [of v] by (simp add: proc_def)
qed

lemma qs_values_one:
  assumes s: "seg_ok s" and d: "d = CHR ''&'' \<or> d = NUL" and t: "terminated (A @ s @ d # R)"
  shows "qs_values (A @ s @ d # R) (length A # ps) = qs_values (A @ proc s d @ R) ps"
proof -
  let ?b = "A @ s @ d # R"
  show ?thesis
  proof (cases "dropWhile key_chr s")
    case Nil
    then have "\<forall>c \<in> set s. key_chr c" by (simp add: dropWhile_eq_Nil_conv)
    then have j: "strcspn ?b (length A) ''=&#'' = length s"
      using d by (intro strcspn_key) auto
    have "proc s d = s @ [NUL]" unfolding proc_def Nil by simp
    moreover have "?b ! (length A + length s) = d" by (simp add: nth_append)
    moreover have "?b[length A + length s := NUL] = A @ s @ NUL # R" by (simp add: list_update_append)
    ultimately show ?thesis
      using d by (auto simp: j Let_def rd_def wr_def)
  next
    case (Cons e v)
    let ?k = "takeWhile key_chr s"
    have sk: "s = ?k @ e # v" using Cons by (metis takeWhile_dropWhile_id)
    have e: "\<not> key_chr e" using Cons by (metis hd_dropWhile list.distinct(1) list.sel(1))
    then have e': "e = CHR ''='' \<or> e = CHR ''#''"
      using s in_set_conv_decomp [of e s] sk by (auto simp: seg_ok_def key_chr_def)
    have b: "?b = A @ ?k @ e # v @ d # R" by (subst sk) simp
    have j: "strcspn ?b (length A) ''=&#'' = length ?k"
      unfolding b using e by (intro strcspn_key) (auto dest: set_takeWhileD)
    let ?q = "length A + length ?k"
    have at: "?b ! ?q = e" "?q < length ?b" unfolding b by (simp_all add: nth_append)
    have dr: "drop (Suc ?q) ?b = v @ d # R" unfolding b by simp
    have dec: "url_dec (v @ d # R) = url_dec v" using d by (intro url_dec_stop) (auto simp: QS_ISQSCHR_def)
    have "take (Suc ?q) ?b = A @ ?k @ [e]" unfolding b by simp
    moreover have "drop (length (url_dec v) + 1) (v @ d # R) = drop (length (url_dec v) + 1) (v @ [d]) @ R"
      using drop_append [of "length (url_dec v) + 1" "v @ [d]" R] url_dec_length [of v] by simp
    then have "drop (length (url_dec v) + 1) (drop (Suc ?q) ?b) = drop (length (url_dec v) + 1) (v @ [d]) @ R"
      unfolding dr .
    then have "drop (Suc ?q + length (url_dec v) + 1) ?b = drop (length (url_dec v) + 1) (v @ [d]) @ R"
      by (simp only: drop_drop ac_simps)
    ultimately have "decoded_from ?b (Suc ?q) (Suc ?q) = A @ proc s d @ R"
      unfolding decoded_from_def dr dec Let_def by (simp add: proc_def Cons)
    moreover have "Suc ?q < length ?b" unfolding b by simp
    ultimately have "map_option fst (qs_decode ?b (Suc ?q)) = Some (A @ proc s d @ R)"
      using qs_decode_loop_spec [OF t, of "Suc ?q" 0 0] by (simp add: qs_decode_def)
    then show ?thesis
      using at j e' by (auto simp: Let_def rd_def NUL_def)
  qed
qed


text \<open>A URL: a path, a question mark and the segments of the query joined by ampersands.\<close>

fun amp_join :: "string list \<Rightarrow> string" where
  "amp_join [] = []"
| "amp_join [s] = s"
| "amp_join (s # t # ts) = s @ CHR ''&'' # amp_join (t # ts)"

lemma lay_amp_join: "ss \<noteq> [] \<Longrightarrow> lay ss = amp_join ss @ [NUL]"
  by (induction ss rule: lay.induct) auto

lemma lay_terminated: "ss \<noteq> [] \<Longrightarrow> terminated (A @ lay ss)"
  by (simp add: terminated_def lay_amp_join)

lemma qs_values_lay:
  assumes "\<forall>s \<in> set ss. seg_ok s"
  shows "qs_values (A @ lay ss) (offsets (length A) ss) = Some (A @ lay_done ss)"
  using assms
proof (induction ss arbitrary: A)
  case (Cons s ss)
  have s: "seg_ok s" using Cons.prems by simp
  show ?case
  proof (cases "ss = []")
    case True
    then show ?thesis
      using qs_values_one [OF s, of NUL A "[]" "[]"] lay_terminated [of "[s]" A] by simp
  next
    case False
    have "terminated (A @ s @ CHR ''&'' # lay ss)"
      using lay_terminated [of "s # ss" A] by (simp add: lay_Cons [OF False])
    then have "qs_values (A @ lay (s # ss)) (offsets (length A) (s # ss)) =
        qs_values ((A @ proc s (CHR ''&'')) @ lay ss) (offsets (length A + length s + 1) ss)"
      using qs_values_one [OF s, of "CHR ''&''" A "lay ss"] by (simp add: lay_Cons [OF False])
    also have "length A + length s + 1 = length (A @ proc s (CHR ''&''))" by (simp add: proc_length)
    finally show ?thesis
      using Cons.IH [of "A @ proc s (CHR ''&'')"] Cons.prems by (simp add: lay_Cons [OF False])
  qed
qed simp

definition path_ok :: "string \<Rightarrow> bool" where
  "path_ok path \<longleftrightarrow> NUL \<notin> set path \<and> CHR ''?'' \<notin> set path \<and> CHR ''#'' \<notin> set path"

lemma qs_parse_lay:
  assumes path: "path_ok path" and segs: "\<forall>s \<in> set segs. seg_ok s" "segs \<noteq> []"
  shows "qs_parse (c_buf (path @ CHR ''?'' # amp_join segs)) n =
           (if length segs \<le> n
            then Some (path @ CHR ''?'' # lay_done segs, offsets (Suc (length path)) segs) else None)"
proof -
  let ?A = "path @ [CHR ''?'']"
  have b: "c_buf (path @ CHR ''?'' # amp_join segs) = ?A @ lay segs"
    using segs(2) by (simp add: c_buf_def lay_amp_join)
  have p: "strcspn (?A @ lay segs) 0 ''?#'' = length path"
    using strcspn_at [of path "''?#''" "CHR ''?''" "[]" "lay segs"] path by (auto simp: path_ok_def)
  have "qs_split (?A @ lay segs) (Suc (length path)) n =
      (offsets (Suc (length path)) (take n segs), length segs \<le> n)"
    using qs_split_lay [OF segs, of "Suc (length path)" ?A n] by simp
  moreover have "qs_values (?A @ lay segs) (offsets (Suc (length path)) segs) = Some (?A @ lay_done segs)"
    using qs_values_lay [OF segs(1), of ?A] by simp
  moreover have "(?A @ lay segs) ! length path \<noteq> NUL" by (simp add: nth_append NUL_def)
  ultimately show ?thesis
    unfolding b qs_parse_def p Let_def by auto
qed

text \<open>
  C22. The constructor of \<^verbatim>\<open>query_string\<close> reads behind its array of 256 pointers exactly when the query has more than
  256 parameters.
\<close>

theorem query_string_overrun:
  assumes "path_ok path" and "\<forall>s \<in> set segs. seg_ok s" and "segs \<noteq> []"
  shows "query_string_of (path @ CHR ''?'' # amp_join segs) = None \<longleftrightarrow> 256 < length segs"
  using qs_parse_lay [OF assms, of 256]
  by (simp add: query_string_of_def MAX_KEY_VALUE_PAIRS_COUNT_def)

theorem query_string_overrun_witness:
  "query_string_of (''/p?'' @ amp_join (replicate 257 ''a=1'')) = None \<and>
   query_string_of (''/p?'' @ amp_join (replicate 256 ''a=1'')) \<noteq> None"
proof -
  have "path_ok ''/p''" and "seg_ok ''a=1''" by (simp_all add: path_ok_def seg_ok_def NUL_def)
  then show ?thesis
    using query_string_overrun [of "''/p''" "replicate 257 ''a=1''"]
      query_string_overrun [of "''/p''" "replicate 256 ''a=1''"] by simp
qed

section \<open>Looking a parameter up\<close>

definition plain_chr :: "char \<Rightarrow> bool" where
  "plain_chr c \<longleftrightarrow> QS_ISQSCHR c \<and> c \<noteq> CHR ''+'' \<and> c \<noteq> CHR ''%''"

lemma qs_next_plain: "i < length b \<Longrightarrow> plain_chr (b ! i) \<Longrightarrow> qs_next b i = Some (b ! i, Suc i)"
  by (simp add: qs_next_def rd_def plain_chr_def Let_def)

lemma qs_next_end: "i < length b \<Longrightarrow> \<not> QS_ISQSCHR (b ! i) \<Longrightarrow> qs_next b i = Some (NUL, Suc i)"
  by (simp add: qs_next_def rd_def Let_def NUL_def)

lemma qs_strncmp_plain:
  assumes "list_all plain_chr key" and "list_all plain_chr k" and "\<not> QS_ISQSCHR e"
  shows "\<exists>r. qs_strncmp (S @ key @ [NUL]) (length S) (B @ k @ e # R) (length B) (length key) = Some r \<and>
             (r = 0 \<longleftrightarrow> key = k)"
  using assms
proof (induction key arbitrary: k S B)
  case Nil
  then show ?case by (cases k) (simp_all add: rd_def nth_append plain_chr_def)
next
  case (Cons c key)
  let ?s = "S @ (c # key) @ [NUL]" and ?b = "B @ k @ e # R"
  have c: "plain_chr c" "c \<noteq> NUL" using Cons.prems(1) by (auto simp: plain_chr_def)
  have n1: "qs_next ?s (length S) = Some (c, Suc (length S))"
    using qs_next_plain [of "length S" ?s] c by (simp add: nth_append)
  show ?case
  proof (cases k)
    case Nil
    then have "qs_next ?b (length B) = Some (NUL, Suc (length B))"
      using qs_next_end [of "length B" ?b] Cons.prems(3) by (simp add: nth_append)
    then show ?thesis
      using n1 c Nil by simp
  next
    case (Cons d k')
    then have n2: "qs_next ?b (length B) = Some (d, Suc (length B))"
      using qs_next_plain [of "length B" ?b] Cons.prems(2) by (simp add: nth_append)
    show ?thesis
    proof (cases "c = d")
      case True
      obtain r where "qs_strncmp ((S @ [c]) @ key @ [NUL]) (length (S @ [c])) ((B @ [d]) @ k' @ e # R)
          (length (B @ [d])) (length key) = Some r" "r = 0 \<longleftrightarrow> key = k'"
        using Cons.IH [of k' "S @ [c]" "B @ [d]"] Cons.prems Cons by auto
      then show ?thesis using n1 n2 c True Cons by simp
    next
      case False
      then show ?thesis using n1 n2 Cons by simp
    qed
  qed
qed


text \<open>The pairs of a query, written out.\<close>

definition pair_text :: "string \<times> string \<Rightarrow> string" where
  "pair_text kv = fst kv @ CHR ''='' # snd kv"

definition pair_ok :: "string \<times> string \<Rightarrow> bool" where
  "pair_ok kv \<longleftrightarrow> list_all plain_chr (fst kv) \<and> seg_ok (snd kv)"

lemma plain_chr_key: "plain_chr c \<Longrightarrow> key_chr c"
  by (auto simp: plain_chr_def QS_ISQSCHR_def key_chr_def)

lemma pair_proc:
  assumes "list_all plain_chr k"
  shows "proc (pair_text (k, v)) d =
           k @ CHR ''='' # url_dec v @ NUL # drop (length (url_dec v) + 1) (v @ [d])"
proof -
  have k: "\<forall>c \<in> set k. key_chr c" using assms plain_chr_key by (auto simp: list_all_iff)
  then have "dropWhile key_chr (pair_text (k, v)) = CHR ''='' # v"
    "takeWhile key_chr (pair_text (k, v)) = k"
    by (simp_all add: pair_text_def dropWhile_append2 takeWhile_append2)
  then show ?thesis by (simp add: proc_def)
qed

lemma pair_seg_ok: "pair_ok kv \<Longrightarrow> seg_ok (pair_text kv)"
  by (auto simp: pair_ok_def pair_text_def seg_ok_def list_all_iff plain_chr_def QS_ISQSCHR_def NUL_def)

lemma lay_done_split:
  "\<exists>d R. lay_done (s # ss) = proc s d @ R \<and> R = lay_done ss"
  by (cases ss) auto

lemma qs_k2v_pairs:
  assumes "list_all plain_chr name" and "\<forall>kv \<in> set kvs. pair_ok kv"
  shows "map_option (map_option (str_at (B @ lay_done (map pair_text kvs))))
           (qs_k2v name (B @ lay_done (map pair_text kvs)) (offsets (length B) (map pair_text kvs)) 0) =
         Some (map_option (\<lambda>v. takeWhile (\<lambda>c. c \<noteq> NUL) (url_dec v)) (map_of kvs name))"
  using assms(2)
proof (induction kvs arbitrary: B)
  case (Cons kv kvs)
  obtain k v where kv: "kv = (k, v)" by fastforce
  have k: "list_all plain_chr k" using Cons.prems kv by (simp add: pair_ok_def)
  obtain d where l: "lay_done (map pair_text (kv # kvs)) = proc (pair_text kv) d @ lay_done (map pair_text kvs)"
    using lay_done_split [of "pair_text kv" "map pair_text kvs"] by auto
  define b0 where "b0 = B @ lay_done (map pair_text (kv # kvs))"
  obtain R where b: "b0 = B @ k @ CHR ''='' # url_dec v @ NUL # R"
    using pair_proc [OF k, of v d] unfolding b0_def l unfolding kv by simp
  obtain r where r: "qs_strncmp (c_buf name) 0 b0 (length B) (length name) = Some r" "r = 0 \<longleftrightarrow> name = k"
    using qs_strncmp_plain [OF assms(1) k, of "CHR ''=''" "[]" B "url_dec v @ NUL # R"]
    by (auto simp: b c_buf_def QS_ISQSCHR_def)
  have skip: "strcspn b0 (length B) ''='' = length k"
    unfolding b using k
    by (intro strcspn_at) (auto simp: list_all_iff plain_chr_def QS_ISQSCHR_def)
  have at: "b0 ! (length B + length k) = CHR ''=''" "length B + length k < length b0"
    unfolding b by (simp_all add: nth_append)
  show ?case
  proof (cases "name = k")
    case True
    have "str_at b0 (Suc (length B + length k)) = takeWhile (\<lambda>c. c \<noteq> NUL) (url_dec v)"
      unfolding b str_at_def by (simp add: takeWhile_tail)
    then show ?thesis
      using True r at skip kv unfolding b0_def [symmetric] by (simp add: Let_def)
  next
    case False
    have "b0 = (B @ proc (pair_text kv) d) @ lay_done (map pair_text kvs)" unfolding b0_def l by simp
    then show ?thesis
      using False r kv Cons.IH [of "B @ proc (pair_text kv) d"] Cons.prems
      unfolding b0_def [symmetric] by (simp add: proc_length)
  qed
qed simp

lemma query_get_pairs:
  assumes "path_ok path" and "kvs \<noteq> []" and "length kvs \<le> 256" and "\<forall>kv \<in> set kvs. pair_ok kv"
  shows "\<exists>q. query_string_of (path @ CHR ''?'' # amp_join (map pair_text kvs)) = Some q \<and>
           (\<forall>name. list_all plain_chr name \<longrightarrow>
              query_get name q = Some (map_option (\<lambda>v. takeWhile (\<lambda>c. c \<noteq> NUL) (url_dec v)) (map_of kvs name)))"
proof -
  let ?segs = "map pair_text kvs"
  have segs: "\<forall>s \<in> set ?segs. seg_ok s" using assms(4) pair_seg_ok by auto
  let ?B = "path @ [CHR ''?'']"
  let ?q = "\<lparr>qs_url = ?B @ lay_done ?segs, key_value_pairs = offsets (length ?B) ?segs\<rparr>"
  have "query_string_of (path @ CHR ''?'' # amp_join ?segs) = Some ?q"
    using qs_parse_lay [OF assms(1) segs, of 256] assms(2,3)
    by (simp add: query_string_of_def MAX_KEY_VALUE_PAIRS_COUNT_def)
  moreover have "query_get name ?q = Some (map_option (\<lambda>v. takeWhile (\<lambda>c. c \<noteq> NUL) (url_dec v)) (map_of kvs name))"
    if "list_all plain_chr name" for name
    unfolding query_get_def query_string.simps by (rule qs_k2v_pairs [OF that assms(4)])
  ultimately show ?thesis by blast
qed


lemma QS_hex_ToHex:
  assumes "unat b < 16"
  shows "QS_ISHEX (chr (ToHex b)) \<and> QS_HEX2DEC (chr (ToHex b)) = unat b"
proof (cases "unat b < 10")
  case True
  then show ?thesis using assms by (simp add: QS_ISHEX_def QS_HEX2DEC_def of_char_chr unat_ToHex Let_def)
next
  case False
  then show ?thesis using assms by (simp add: QS_ISHEX_def QS_HEX2DEC_def of_char_chr unat_ToHex Let_def)
qed

lemma url_dec_char: "url_dec (url_char c @ s) = c # url_dec s"
proof (cases "url_plain c")
  case True
  then have "c \<noteq> CHR ''+''" "c \<noteq> CHR ''%''" "QS_ISQSCHR c"
    by (auto simp: url_plain_def isalnum_def Let_def QS_ISQSCHR_def NUL_def)
  with True show ?thesis by (simp add: url_char_def)
next
  case False
  have "unat (drop_bit 4 (ord c)) < 16" "unat (ord c mod 16) < 16"
    using nibble_less [of "ord c"] by (simp_all add: unat_nibbles)
  note hex = QS_hex_ToHex [OF this(1)] QS_hex_ToHex [OF this(2)]
  have "hex_char (chr (ToHex (drop_bit 4 (ord c)))) (chr (ToHex (ord c mod 16))) = c"
    using hex chr_ord [of c, unfolded chr_def] by (simp add: hex_char_def unat_nibbles)
  then show ?thesis
    using False hex by (simp add: url_char_def QS_ISQSCHR_def NUL_def)
qed

lemma url_dec_UrlEncode [simp]: "url_dec (UrlEncode s) = s"
  by (induction s) (simp_all add: url_dec_char)

lemma UrlEncode_seg_ok: "seg_ok (UrlEncode s)"
proof -
  have "list_all url_safe (UrlEncode s)"
    using url_char_safe by (induction s) simp_all
  then show ?thesis
    by (auto simp: seg_ok_def list_all_iff url_safe_def url_plain_def isalnum_def NUL_def Let_def)
qed

text \<open>
  C11. For a URL with at most 256 parameters whose values went through \<^verbatim>\<open>UrlEncode\<close>, \<^verbatim>\<open>get\<close> returns the
  original value of the first parameter with the given name, whatever characters but a zero byte it has, and the null pointer
  for every other name.
\<close>

theorem query_get_roundtrip:
  assumes "path_ok path" and "kvs \<noteq> []" and "length kvs \<le> 256"
    and "\<forall>(k, v) \<in> set kvs. list_all plain_chr k \<and> NUL \<notin> set v"
  shows "\<exists>q. query_string_of (path @ CHR ''?'' #
               amp_join (map (\<lambda>(k, v). k @ CHR ''='' # UrlEncode v) kvs)) = Some q \<and>
           (\<forall>name. list_all plain_chr name \<longrightarrow> query_get name q = Some (map_of kvs name))"
proof -
  let ?kvs = "map (\<lambda>(k, v). (k, UrlEncode v)) kvs"
  have pairs: "map (\<lambda>(k, v). k @ CHR ''='' # UrlEncode v) kvs = map pair_text ?kvs"
    by (simp add: pair_text_def case_prod_unfold)
  have ok: "\<forall>kv \<in> set ?kvs. pair_ok kv"
    using assms(4) UrlEncode_seg_ok by (auto simp: pair_ok_def)
  have "\<forall>(k, v) \<in> set kvs. NUL \<notin> set v" using assms(4) by blast
  then have "map_option (\<lambda>v. takeWhile (\<lambda>c. c \<noteq> NUL) (url_dec v)) (map_of ?kvs name) = map_of kvs name" for name
    by (induction kvs) (auto simp: takeWhile_eq_all_conv)
  then show ?thesis
    using query_get_pairs [OF assms(1) _ _ ok] assms(2,3) unfolding pairs by simp
qed

theorem query_get_roundtrip_witness:
  "\<exists>q. query_string_of (''/p?'' @ amp_join [''id='' @ UrlEncode ''a b&c'', ''n='' @ UrlEncode ''%'']) = Some q \<and>
     query_get ''id'' q = Some (Some ''a b&c'') \<and> query_get ''n'' q = Some (Some ''%'') \<and>
     query_get ''i'' q = Some None"
proof -
  have "path_ok ''/p''" by (simp add: path_ok_def NUL_def)
  then have "\<exists>q. query_string_of (''/p'' @ CHR ''?'' #
        amp_join (map (\<lambda>(k, v). k @ CHR ''='' # UrlEncode v) [(''id'', ''a b&c''), (''n'', ''%'')])) = Some q \<and>
      (\<forall>name. list_all plain_chr name \<longrightarrow> query_get name q = Some (map_of [(''id'', ''a b&c''), (''n'', ''%'')] name))"
    by (rule query_get_roundtrip) (simp_all add: plain_chr_def QS_ISQSCHR_def NUL_def)
  then obtain q where q: "query_string_of (''/p?'' @ amp_join [''id='' @ UrlEncode ''a b&c'', ''n='' @ UrlEncode ''%'']) = Some q"
    "\<forall>name. list_all plain_chr name \<longrightarrow> query_get name q = Some (map_of [(''id'', ''a b&c''), (''n'', ''%'')] name)"
    by auto
  show ?thesis
    using q(1) q(2) [THEN spec, of "''id''"] q(2) [THEN spec, of "''n''"] q(2) [THEN spec, of "''i''"]
    by (simp add: plain_chr_def QS_ISQSCHR_def NUL_def)
qed

end
