(* ===== verification/Http_Service.thy ===== *)
theory Http_Service
  imports Crow_Reply Crow_Query_Props Image_Service_Total Init_Server
begin

text \<open>
  The service behind its HTTP server: \<^verbatim>\<open>Listen\<close> of \<^verbatim>\<open>init_server.cpp\<close>, which registers the events,
  \<^verbatim>\<open>Listen\<close> of \<^verbatim>\<open>service_main.cpp\<close>, which names them, and the view of a request that the interface
  classes have. The theorems follow a message from the pieces the tokenizer finds to the bytes that
  the client reads.
\<close>

section \<open>Registering the events\<close>

text \<open>An event fills in the response text, throws, or has undefined behaviour.\<close>

datatype 's event_result = Fills string 's | EventThrows string | EventUndefined

type_synonym 's event = "query_string request \<Rightarrow> 's \<Rightarrow> 's event_result"

text \<open>The lambda \<^verbatim>\<open>func\<close> of \<^verbatim>\<open>Listen\<close>, as the server calls it.\<close>

definition event_handler :: "'s event \<Rightarrow> (query_string, 'd, 's) handler" where
  "event_handler ev req ps s =
     (case ev req s of
        Fills response s' \<Rightarrow> Returns (response_text response) s'
      | EventThrows e \<Rightarrow> Throws e
      | EventUndefined \<Rightarrow> Undefined)"

fun method_text :: "HTTP_METHOD \<Rightarrow> string" where
  "method_text POST = ''POST''"
| "method_text PUT = ''PUT''"
| "method_text GET = ''GET''"
| "method_text UPDATE = ''UPDATE''"

definition listen_event ::
  "string \<times> HTTP_METHOD \<times> 's event \<Rightarrow> (query_string, 'd, 's) router \<Rightarrow> (query_string, 'd, 's) router run" where
  "listen_event event router =
     (case event of (url, meth, ev) \<Rightarrow>
        (case method_literal (method_text meth) of
           None \<Rightarrow> Exn ''invalid http method''
         | Some m \<Rightarrow> add_route (url, m, event_handler ev) router))"

fun listen_events ::
  "(string \<times> HTTP_METHOD \<times> 's event) list \<Rightarrow> (query_string, 'd, 's) router \<Rightarrow> (query_string, 'd, 's) router run"
  where
  "listen_events [] router = Done router"
| "listen_events (x # xs) router = run_bind (listen_event x router) (listen_events xs)"

text \<open>
  \<^verbatim>\<open>Listen(events)\<close> up to the validated router that \<^verbatim>\<open>run\<close> serves; the registration with the
  service registry in between is \<open>ConnectEureka\<close>.
\<close>

definition Listen_router :: "(string \<times> HTTP_METHOD \<times> 's event) list \<Rightarrow> (query_string, 'd, 's) router run" where
  "Listen_router events = run_bind (listen_events events Router_new) router_validate"

section \<open>The events of the service\<close>

text \<open>The request as the interface classes read it.\<close>

definition http_request_of :: "query_string request \<Rightarrow> http_request" where
  "http_request_of req =
     \<lparr>body = req_body req, raw_url = req_raw_url req,
      url_params = (\<lambda>name. case query_get name (req_url_params req) of Some r \<Rightarrow> r | None \<Rightarrow> None),
      header_value = get_header_value (req_headers req)\<rparr>"

text \<open>The parameters that the service reads; a look-up that leaves the buffer is undefined behaviour.\<close>

definition params_readable :: "query_string request \<Rightarrow> bool" where
  "params_readable req \<longleftrightarrow>
     list_all (\<lambda>name. query_get name (req_url_params req) \<noteq> None) [data_request_id, data_appkey, data_api_id]"

fun fault_result :: "fault \<Rightarrow> 's event_result" where
  "fault_result LogicError = EventThrows ''Json::LogicError''"
| "fault_result ParseException = EventThrows ''Json::RuntimeError''"
| "fault_result ConfigException = EventThrows ''stoi''"
| "fault_result NullPointer = EventUndefined"
| "fault_result IndexError = EventUndefined"

definition service_url :: string where
  "service_url = ''/aiimage/nudity-detect''"

definition demo_request :: "service_env \<Rightarrow> service_static event" where
  "demo_request env req s =
     (if \<not> params_readable req then EventUndefined
      else case ProcessRequest env (ImageInterface_new service_url (http_request_of req)) s of
             Inl f \<Rightarrow> fault_result f
           | Inr (response, self, s') \<Rightarrow> Fills response s')"

definition welcome_event :: "service_static event" where
  "welcome_event req s = Fills welcome_text s"

definition main_events :: "service_env \<Rightarrow> (string \<times> HTTP_METHOD \<times> service_static event) list" where
  "main_events env =
     [(''/welcome'', GET, welcome_event), (''/'', POST, demo_request env)]"

section \<open>Dispatch\<close>

definition main_table :: "service_env \<Rightarrow> (query_string, 'd, service_static) route list" where
  "main_table env =
     [(''/welcome'', Get, event_handler welcome_event), (''/'', Post, event_handler (demo_request env))]"

lemma listen_events_routes:
  "list_all2 (\<lambda>x y. listen_event x = add_route y) xs ys \<Longrightarrow> listen_events xs = add_routes ys"
proof (induction rule: list_all2_induct)
  case Nil
  show ?case by (rule ext) simp
next
  case (Cons x xs y ys)
  show ?case by (rule ext) (simp add: Cons)
qed

lemma main_listen: "listen_events (main_events env) = add_routes (main_table env)"
  by (rule listen_events_routes)
    (simp add: main_events_def main_table_def fun_eq_iff listen_event_def method_literal_def)

lemma main_table_plain: "\<forall>x \<in> set (main_table env). plain_url (fst x)" "distinct (map fst (main_table env))"
  by (simp_all add: main_table_def plain_url_def)

lemma main_router:
  "\<exists>router :: (query_string, 'd, service_static) router.
     Listen_router (main_events env) = Done router \<and>
     (\<forall>strtod req s. router_handle strtod router req s =
        table_answer (main_table env :: (query_string, 'd, service_static) route list) req s)"
proof -
  let ?t = "main_table env :: (query_string, 'd, service_static) route list"
  obtain router0 where r: "add_routes ?t Router_new = Done router0" "table_inv ?t router0"
    using add_routes_table [OF Router_new_table, of ?t] main_table_plain by fastforce
  then obtain router where v: "router_validate router0 = Done router"
    using table_validate main_table_plain(1) by blast
  then show ?thesis
    using r(1) table_handle [OF r(2) main_table_plain(2) v] by (auto simp: Listen_router_def main_listen)
qed

lemma main_table_answer:
  "table_answer (main_table env) req s =
     (if req_url req = ''/welcome'' \<and> req_method req = method_code Get
      then Served (finished (response_text welcome_text)) s
      else if req_url req = ''/'' \<and> req_method req = method_code Post
      then (case demo_request env req s of
              Fills response s' \<Rightarrow> Served (finished (response_text response)) s'
            | EventThrows e \<Rightarrow> Failed (finished (response_code 500))
            | EventUndefined \<Rightarrow> UndefinedCall)
      else Served (finished (response_code 404)) s)"
  by (simp add: table_answer_def main_table_def event_handler_def welcome_event_def
      split: event_result.splits)

text \<open>
  C9. The routes of \<^verbatim>\<open>service_main.cpp\<close> are registered and validated without an exception, and every request is
  then dispatched as intended: \<^verbatim>\<open>GET /welcome\<close> to the greeting, \<^verbatim>\<open>POST /\<close> to the service, whose exceptions become a
  500, and all others to a 404.
\<close>

theorem service_dispatch:
  "\<exists>router :: (query_string, 'd, service_static) router.
     Listen_router (main_events env) = Done router \<and>
     (\<forall>strtod req s. router_handle strtod router req s =
        (if req_url req = ''/welcome'' \<and> req_method req = method_code Get
         then Served (finished (response_text welcome_text)) s
         else if req_url req = ''/'' \<and> req_method req = method_code Post
         then (case demo_request env req s of
                 Fills response s' \<Rightarrow> Served (finished (response_text response)) s'
               | EventThrows e \<Rightarrow> Failed (finished (response_code 500))
               | EventUndefined \<Rightarrow> UndefinedCall)
         else Served (finished (response_code 404)) s))"
  using main_router [of env, where 'd = 'd] unfolding main_table_answer .


section \<open>From the pieces of a message to the bytes of the answer\<close>

definition post_message :: "parser \<Rightarrow> message" where
  "post_message p =
     \<lparr>m_major = 1, m_minor = 1, m_method = method_code Post, m_upgrade = False, m_parser = p\<rparr>"

text \<open>The request that the interface classes see for the pieces of a message.\<close>

definition seen_request ::
  "string list \<Rightarrow> (string list \<times> string list) list \<Rightarrow> string list \<Rightarrow> query_string \<Rightarrow> http_request" where
  "seen_request urls hs bodies q =
     \<lparr>body = concat bodies, raw_url = concat urls,
      url_params = (\<lambda>name. case query_get name q of Some r \<Rightarrow> r | None \<Rightarrow> None),
      header_value = get_header_value (kept_headers (map header_of hs))\<rparr>"

text \<open>A message that the tokenizer delivers whole and that is meant for the service.\<close>

definition post_ok ::
  "string list \<Rightarrow> (string list \<times> string list) list \<Rightarrow> query_string \<Rightarrow> bool" where
  "post_ok urls hs q \<longleftrightarrow>
     (\<forall>h \<in> set hs. fst h \<noteq> [] \<and> snd h \<noteq> []) \<and> hs \<noteq> [] \<and> concat (fst (last hs)) \<noteq> [] \<and>
     query_string_of (concat urls) = Some q \<and> strip_query (concat urls) = ''/'' \<and>
     list_all (\<lambda>name. query_get name q \<noteq> None) [data_request_id, data_appkey, data_api_id] \<and>
     hdr_count ''host'' (kept_headers (map header_of hs)) \<noteq> 0"

lemma post_request:
  assumes "post_ok urls hs q"
  obtains p where "parse_message (message_events urls hs bodies) self = Some p"
    and "req_url (to_request m p) = ''/''"
    and "req_headers (to_request m p) = kept_headers (map header_of hs)"
    and "params_readable (to_request m p)"
    and "http_request_of (to_request m p) = seen_request urls hs bodies q"
proof -
  obtain p where p: "parse_message (message_events urls hs bodies) self = Some p"
    "p_raw_url p = concat urls" "p_url p = strip_query (concat urls)" "p_url_params p = q"
    "p_headers p = kept_headers (map header_of hs)" "p_body p = concat bodies"
    using parse_message_fields [of hs urls q bodies self] assms unfolding post_ok_def by blast
  show thesis
    by (rule that [OF p(1)])
      (use p(2-) assms in \<open>simp_all add: to_request_def params_readable_def http_request_of_def
        seen_request_def post_ok_def\<close>)
qed

lemma post_checks:
  assumes "hdr_count ''host'' (req_headers req) \<noteq> 0"
  shows "\<exists>c'. handle_checks (post_message p) req c = (c', False, False)"
  using assms by (simp add: handle_checks_def post_message_def Let_def)

lemma final_text: "final_response (finished (response_text t)) = finished (response_text t)"
  by (simp add: final_response_def finished_def response_end_def response_text_def response_new_def
      statusCodes_def)

lemma text_fields [simp]:
  "res_code (finished (response_text t)) = 200" "res_body (finished (response_text t)) = t"
  "res_headers (finished (response_text t)) = []"
  by (simp_all add: finished_def response_end_def response_text_def response_new_def)

lemma text_reply:
  assumes "no_cr server" and "no_cr date"
  shows "\<exists>lines. read_head (response_bytes server date keep (finished (response_text t))) =
           (''HTTP/1.1 200 OK'' # lines, t) \<and>
           ''Content-Length: '' @ to_string (int (length t)) \<in> set lines"
  using response_read [of "finished (response_text t)", OF _ assms, of keep]
  by (simp add: reply_lines_def final_text Let_def statusCodes_def hdr_count_def)



lemma code_fields [simp]:
  "res_code (finished (response_code k)) = k" "res_body (finished (response_code k)) = []"
  "res_headers (finished (response_code k)) = []"
  "res_code (response_code k) = k" "res_body (response_code k) = []" "res_headers (response_code k) = []"
  by (simp_all add: finished_def response_end_def response_code_def response_new_def)

lemma error_reply:
  assumes "no_cr server" and "no_cr date" and "map_of statusCodes (res_code res) = Some st"
    and "400 \<le> res_code res" and "res_body res = []" and "res_headers res = []" and "res_json res = None"
  shows "\<exists>lines. read_head (response_bytes server date keep res) = (st # lines, drop 9 (st @ CRLF_text))"
proof -
  have "final_response res = res\<lparr>res_body := drop 9 (st @ CRLF_text)\<rparr>"
    using assms by (simp add: final_response_def status_line_def Let_def)
  then show ?thesis
    using response_read [of res server date keep] assms by (simp add: reply_lines_def Let_def)
qed


section \<open>Requests that never reach a handler\<close>

text \<open>
  An HTTP/1.1 request without a host header is answered with status 400 and reaches no handler.
\<close>

theorem conn_handle_no_host:
  assumes "m_major m = 1" and "m_minor m = 1" and "\<not> m_upgrade m"
    and "hdr_count ''host'' (p_headers (m_parser m)) = 0" and "no_cr server" and "no_cr date"
  shows "\<exists>bytes c' lines. conn_handle strtod server date router m c s = Replied (Some bytes) (Some s) c' \<and>
           read_head bytes = (''HTTP/1.1 400 Bad Request'' # lines, ''400 Bad Request'' @ CRLF_text)"
proof -
  let ?req = "to_request (m_method m) (m_parser m)"
  obtain c1 where c1: "handle_checks m ?req c = (c1, True, False)" "conn_res c1 = response_code 400"
    using assms by (simp add: handle_checks_def Let_def to_request_def)
  have st: "map_of statusCodes 400 = Some ''HTTP/1.1 400 Bad Request''" by (simp add: statusCodes_def)
  have "res_json (response_code 400) = None" by (simp add: response_code_def response_new_def)
  then show ?thesis
    using c1 st error_reply [OF assms(5,6), of "response_code 400" _ "add_keep_alive c1"]
    by (auto simp: conn_handle_def)
qed


section \<open>Sample messages\<close>

lemma query_string_root: "query_string_of ''/'' = Some \<lparr>qs_url = ''/'' @ [NUL], key_value_pairs = []\<rparr>"
  by (simp add: query_string_of_def qs_parse_def c_buf_def strcspn_def NUL_def Let_def)

definition sample_headers :: "(string list \<times> string list) list" where
  "sample_headers = [([''Ho'', ''st''], [''a.b''])]"

lemma sample_post_ok: "post_ok [''/''] sample_headers \<lparr>qs_url = ''/'' @ [NUL], key_value_pairs = []\<rparr>"
  by (simp add: post_ok_def sample_headers_def query_string_root strip_query_def kept_headers_def header_of_def
      hdr_count_def iequals_def toupper_def char_of_def bit_0 query_get_def)

lemma sample_no_cr: "no_cr ''Crow/0.1''" "no_cr ''now''"
  by (simp_all add: no_cr_def)

definition sample_seen :: "string \<Rightarrow> http_request" where
  "sample_seen b = seen_request [''/''] sample_headers [b] \<lparr>qs_url = ''/'' @ [NUL], key_value_pairs = []\<rparr>"

lemma sample_seen_fields [simp]: "body (sample_seen b) = b" "url_params (sample_seen b) = (\<lambda>k. None)"
  by (simp_all add: sample_seen_def seen_request_def query_get_def fun_eq_iff)

lemma sample_seen_run:
  "\<exists>self' s'. HandleRequest (sample_env ''PROD'') (ImageInterface_new service_url (sample_seen ''inline'')) sample_static
     = Inr (''{}'', self', s')"
proof -
  have "\<exists>response self' s'. HandleRequest (sample_env ''PROD'') (ImageInterface_new service_url (sample_seen ''inline''))
      sample_static = Inr (response, self', s')"
    by (rule HandleRequest_answers)
      (simp_all add: sample_reads_back ImageInterface_new_def, simp add: sample_parse_def c_str_def)
  moreover have "response = ''{}''" if "HandleRequest (sample_env ''PROD'') self s = Inr (response, self', s')"
    for self s response self' s'
    using that by (rule HandleRequest_Inr) simp
  ultimately show ?thesis by blast
qed



definition sample_message :: "bool \<Rightarrow> message" where
  "sample_message up =
     \<lparr>m_major = 1, m_minor = 1, m_method = method_code Get, m_upgrade = up,
      m_parser = parser_clear\<lparr>p_raw_url := ''/welcome'', p_url := ''/welcome'',
        p_headers := (if up then [(''Host'', ''a''), (''Upgrade'', ''websocket'')] else [])\<rparr>\<rparr>"

theorem conn_handle_no_host_witness:
  "\<exists>bytes c' lines. conn_handle (\<lambda>_. (0 :: int, 0, False)) ''Crow/0.1'' ''now'' Router_new
       (sample_message False) connection_new (5 :: nat) = Replied (Some bytes) (Some 5) c' \<and>
     read_head bytes = (''HTTP/1.1 400 Bad Request'' # lines, ''400 Bad Request'' @ CRLF_text)"
  by (rule conn_handle_no_host)
    (simp_all add: sample_message_def parser_clear_def hdr_count_def sample_no_cr)


end
