(* ===== verification/Crow_Timer.thy ===== *)
theory Crow_Timer
  imports Step_System
begin

text \<open>
  The deadline timers of the HTTP server (\<^verbatim>\<open>src/crow_all.h\<close>: \<^verbatim>\<open>detail::dumb_timer_queue\<close> and the
  functions of \<^verbatim>\<open>Connection\<close> that use it). Every timer callback captures the connection's \<^verbatim>\<open>this\<close>, so it
  must not run after the connection is gone. A key is a 32-bit number that counts the timers ever
  added; \<open>wrap32\<close> is written where the counter can wrap around.
\<close>

section \<open>The queue\<close>

text \<open>
  An entry is the time it was added, in nanoseconds, and the connection its callback closes, \<open>None\<close> for a
  cancelled one.
\<close>

record 'c timer_queue =
  dq :: "(int \<times> 'c option) list"
  step_no :: int

definition timer_queue_new :: "'c timer_queue" where
  "timer_queue_new = \<lparr>dq = [], step_no = 0\<rparr>"

definition tick :: int where
  "tick = 5 * 10 ^ 9"

text \<open>\<^verbatim>\<open>cancel\<close> for a key that is not null.\<close>

definition tq_cancel :: "int \<Rightarrow> 'c timer_queue \<Rightarrow> 'c timer_queue" where
  "tq_cancel k q =
     (let index = nat ((k - step_no q) mod 2 ^ 32) in
      if index < length (dq q) then q\<lparr>dq := (dq q)[index := (fst (dq q ! index), None)]\<rparr> else q)"

definition tq_add :: "int \<Rightarrow> 'c \<Rightarrow> 'c timer_queue \<Rightarrow> 'c timer_queue \<times> int" where
  "tq_add now c q =
     (let d = dq q @ [(now, Some c)]
      in (q\<lparr>dq := d\<rparr>, wrap32 (step_no q + int (length d) - 1)))"

text \<open>The loop of \<^verbatim>\<open>process\<close>, with the connections whose callbacks it calls.\<close>

fun process_loop :: "int \<Rightarrow> (int \<times> 'c option) list \<Rightarrow> int \<Rightarrow> 'c list \<times> (int \<times> 'c option) list \<times> int" where
  "process_loop now [] step = ([], [], step)"
| "process_loop now ((t, h) # d) step =
     (if now - t < tick then ([], (t, h) # d, step)
      else let (fired, d', step') = process_loop now d (wrap32 (step + 1))
           in ((case h of None \<Rightarrow> fired | Some c \<Rightarrow> c # fired), d', step'))"

definition tq_process :: "int \<Rightarrow> 'c timer_queue \<Rightarrow> 'c list \<times> 'c timer_queue" where
  "tq_process now q =
     (let (fired, d, step) = process_loop now (dq q) (step_no q)
      in (fired, \<lparr>dq = d, step_no = step\<rparr>))"

section \<open>Connections and their keys\<close>

text \<open>The keys of the connections (\<^verbatim>\<open>timer_cancel_key_\<close>, \<open>None\<close> when its first component is null) and the
  connections that exist.\<close>

record 'c timers =
  tq :: "'c timer_queue"
  timer_cancel_key :: "'c \<Rightarrow> int option"
  alive :: "'c set"

definition timers_new :: "'c timers" where
  "timers_new = \<lparr>tq = timer_queue_new, timer_cancel_key = (\<lambda>_. None), alive = {}\<rparr>"

definition cancel_deadline_timer :: "'c \<Rightarrow> 'c timers \<Rightarrow> 'c timers" where
  "cancel_deadline_timer c s =
     (case timer_cancel_key s c of
        None \<Rightarrow> s
      | Some k \<Rightarrow> s\<lparr>timer_cancel_key := (timer_cancel_key s)(c := None), tq := tq_cancel k (tq s)\<rparr>)"

definition start_deadline :: "int \<Rightarrow> 'c \<Rightarrow> 'c timers \<Rightarrow> 'c timers" where
  "start_deadline now c s =
     (let s = cancel_deadline_timer c s; (q, k) = tq_add now c (tq s)
      in s\<lparr>tq := q, timer_cancel_key := (timer_cancel_key s)(c := Some k)\<rparr>)"

definition connection_open :: "'c \<Rightarrow> 'c timers \<Rightarrow> 'c timers" where
  "connection_open c s =
     s\<lparr>alive := insert c (alive s), timer_cancel_key := (timer_cancel_key s)(c := None)\<rparr>"

definition connection_destroy :: "'c \<Rightarrow> 'c timers \<Rightarrow> 'c timers" where
  "connection_destroy c s = (let s = cancel_deadline_timer c s in s\<lparr>alive := alive s - {c}\<rparr>)"

definition run_timers :: "int \<Rightarrow> 'c timers \<Rightarrow> 'c list \<times> 'c timers" where
  "run_timers now s = (let (fired, q) = tq_process now (tq s) in (fired, s\<lparr>tq := q\<rparr>))"

text \<open>What can happen on the thread that owns the queue. A queue holds fewer than \<open>2 ^ 32\<close> timers.\<close>

inductive timer_step :: "'c timers \<Rightarrow> 'c timers \<Rightarrow> bool" where
  open_step: "c \<notin> alive s \<Longrightarrow> timer_step s (connection_open c s)"
| start_step: "c \<in> alive s \<Longrightarrow> length (dq (tq s)) < 2 ^ 32 - 1 \<Longrightarrow> timer_step s (start_deadline now c s)"
| cancel_step: "c \<in> alive s \<Longrightarrow> timer_step s (cancel_deadline_timer c s)"
| destroy_step: "c \<in> alive s \<Longrightarrow> timer_step s (connection_destroy c s)"
| process_step: "timer_step s (snd (run_timers now s))"

section \<open>Every armed timer belongs to a living connection\<close>

definition timer_inv :: "'c timers \<Rightarrow> bool" where
  "timer_inv s \<longleftrightarrow>
     length (dq (tq s)) < 2 ^ 32 \<and>
     (\<forall>i < length (dq (tq s)). \<forall>c. snd (dq (tq s) ! i) = Some c \<longrightarrow>
        c \<in> alive s \<and> timer_cancel_key s c = Some (wrap32 (step_no (tq s) + int i)))"

lemma timer_inv_own:
  "timer_inv s \<Longrightarrow> i < length (dq (tq s)) \<Longrightarrow> snd (dq (tq s) ! i) = Some c \<Longrightarrow>
     c \<in> alive s \<and> timer_cancel_key s c = Some (wrap32 (step_no (tq s) + int i))"
  by (simp add: timer_inv_def)

lemma cancel_index:
  "i < 2 ^ 32 \<Longrightarrow> nat ((wrap32 (step + int i) - step) mod 2 ^ 32) = i"
proof -
  assume "i < 2 ^ 32"
  have "(wrap32 (step + int i) - step) mod 2 ^ 32 = (step + int i - step) mod 2 ^ 32"
    by (metis mod_diff_left_eq wrap32_mod)
  also have "\<dots> = int i" using \<open>i < 2 ^ 32\<close> by simp
  finally show ?thesis by simp
qed

lemma tq_cancel_length [simp]: "length (dq (tq_cancel k q)) = length (dq q)"
  and tq_cancel_step [simp]: "step_no (tq_cancel k q) = step_no q"
  by (simp_all add: tq_cancel_def Let_def)

lemma tq_cancel_nth:
  "i < length (dq q) \<Longrightarrow>
     dq (tq_cancel k q) ! i = (if i = nat ((k - step_no q) mod 2 ^ 32) then (fst (dq q ! i), None) else dq q ! i)"
  by (auto simp: tq_cancel_def Let_def nth_list_update)

lemma cancel_inv:
  assumes inv: "timer_inv s"
  shows "timer_inv (cancel_deadline_timer c s)"
    and "i < length (dq (tq s)) \<Longrightarrow> snd (dq (tq (cancel_deadline_timer c s)) ! i) \<noteq> Some c"
proof -
  have own: "snd (dq (tq s) ! i) = Some c' \<Longrightarrow> c' \<in> alive s \<and> timer_cancel_key s c' = Some (wrap32 (step_no (tq s) + int i))"
    "i < 2 ^ 32" if "i < length (dq (tq s))" for i c'
    using inv that by (auto simp: timer_inv_def)
  show 2: "snd (dq (tq (cancel_deadline_timer c s)) ! i) \<noteq> Some c" if i: "i < length (dq (tq s))" for i
  proof (cases "timer_cancel_key s c")
    case None
    then show ?thesis using own(1) [OF i, of c] by (auto simp: cancel_deadline_timer_def)
  next
    case (Some k)
    show ?thesis
    proof (cases "snd (dq (tq s) ! i) = Some c")
      case True
      then have "k = wrap32 (step_no (tq s) + int i)" using own(1) [OF i, of c] Some by simp
      then show ?thesis
        using cancel_index [OF own(2) [OF i], of "step_no (tq s)"] i Some
        by (simp add: cancel_deadline_timer_def tq_cancel_nth)
    next
      case False
      then show ?thesis using i Some by (simp add: cancel_deadline_timer_def tq_cancel_nth)
    qed
  qed
  show "timer_inv (cancel_deadline_timer c s)"
  proof (cases "timer_cancel_key s c")
    case None
    then show ?thesis using inv by (simp add: cancel_deadline_timer_def)
  next
    case (Some k)
    have "c' \<noteq> c \<and> c' \<in> alive s \<and> timer_cancel_key s c' = Some (wrap32 (step_no (tq s) + int i))"
      if i: "i < length (dq (tq s))" and "snd (dq (tq_cancel k (tq s)) ! i) = Some c'" for i c'
      using that own(1) [OF i, of c'] 2 [OF i] Some
      by (auto simp: tq_cancel_nth cancel_deadline_timer_def split: if_splits)
    then show ?thesis
      using inv Some by (auto simp: timer_inv_def cancel_deadline_timer_def)
  qed
qed

lemma cancel_frame [simp]:
  "alive (cancel_deadline_timer c s) = alive s"
  "length (dq (tq (cancel_deadline_timer c s))) = length (dq (tq s))"
  by (simp_all add: cancel_deadline_timer_def split: option.splits)

lemma start_inv:
  assumes inv: "timer_inv s" and c: "c \<in> alive s" and l: "length (dq (tq s)) < 2 ^ 32 - 1"
  shows "timer_inv (start_deadline now c s)"
proof -
  define s1 where "s1 = cancel_deadline_timer c s"
  have inv1: "timer_inv s1" and none: "\<And>i. i < length (dq (tq s1)) \<Longrightarrow> snd (dq (tq s1) ! i) \<noteq> Some c"
    and al: "alive s1 = alive s" and len: "length (dq (tq s1)) = length (dq (tq s))"
    using cancel_inv [OF inv] by (simp_all add: s1_def)
  let ?q = "dq (tq s1) @ [(now, Some c)]"
  have "c' \<in> alive s \<and> ((timer_cancel_key s1)(c := Some (wrap32 (step_no (tq s1) + int (length (dq (tq s1))))))) c'
      = Some (wrap32 (step_no (tq s1) + int i))"
    if "i < length ?q" "snd (?q ! i) = Some c'" for i c'
    using that inv1 none c al by (auto simp: timer_inv_def nth_append less_Suc_eq split: if_splits)
  then show ?thesis
    using l len
    by (simp add: timer_inv_def start_deadline_def s1_def [symmetric] tq_add_def Let_def al)
qed

lemma process_loop_spec:
  "process_loop now d step = (fired, d', step') \<Longrightarrow>
     \<exists>n \<le> length d. d' = drop n d \<and> wrap32 step' = wrap32 (step + int n) \<and>
        fired = List.map_filter snd (take n d) \<and> (\<forall>x \<in> set (take n d). tick \<le> now - fst x) \<and>
        (n < length d \<longrightarrow> now - fst (d ! n) < tick)"
proof (induction now d step arbitrary: fired d' step' rule: process_loop.induct)
  case (2 now t h d step)
  show ?case
  proof (cases "now - t < tick")
    case True
    then show ?thesis using "2.prems" by (intro exI [of _ 0]) (auto simp: map_filter_simps)
  next
    case False
    obtain f1 d1 s1 where r: "process_loop now d (wrap32 (step + 1)) = (f1, d1, s1)" by (metis prod_cases3)
    obtain n where n: "n \<le> length d" "d1 = drop n d" "wrap32 s1 = wrap32 (wrap32 (step + 1) + int n)"
        "f1 = List.map_filter snd (take n d)" "\<forall>x \<in> set (take n d). tick \<le> now - fst x"
        "n < length d \<longrightarrow> now - fst (d ! n) < tick"
      using "2.IH" [OF False r] by blast
    have "wrap32 (wrap32 (step + 1) + int n) = wrap32 (step + int (Suc n))"
      by (rule wrap32_cong) (metis add.commute add.left_commute mod_add_left_eq of_nat_Suc wrap32_mod)
    then show ?thesis
      using n r False "2.prems"
      by (intro exI [of _ "Suc n"]) (auto simp: map_filter_simps split: option.splits)
  qed
qed (simp add: map_filter_simps)


lemma process_inv:
  assumes inv: "timer_inv s" and p: "run_timers now s = (fired, s')"
  shows "timer_inv s' \<and> set fired \<subseteq> alive s"
proof -
  let ?d = "dq (tq s)"
  obtain d' step' where l: "process_loop now ?d (step_no (tq s)) = (fired, d', step')"
    and s': "s' = s\<lparr>tq := \<lparr>dq = d', step_no = step'\<rparr>\<rparr>"
    using p by (auto simp: run_timers_def tq_process_def Let_def case_prod_unfold prod_eq_iff)
  from process_loop_spec [OF l] obtain n where n: "n \<le> length ?d" "d' = drop n ?d"
      "wrap32 step' = wrap32 (step_no (tq s) + int n)" "fired = List.map_filter snd (take n ?d)"
    by blast
  have own: "c \<in> alive s \<and> timer_cancel_key s c = Some (wrap32 (step_no (tq s) + int i))"
    if "i < length ?d" "snd (?d ! i) = Some c" for i c
    using inv that by (auto simp: timer_inv_def)
  have "wrap32 (step_no (tq s) + int (n + i)) = wrap32 (step' + int i)" for i
  proof (rule wrap32_cong)
    have "step' mod 2 ^ 32 = (step_no (tq s) + int n) mod 2 ^ 32" using n(3) by (metis wrap32_mod)
    then show "(step_no (tq s) + int (n + i)) mod 2 ^ 32 = (step' + int i) mod 2 ^ 32"
      by (metis add.assoc mod_add_left_eq of_nat_add)
  qed
  then have "c \<in> alive s \<and> timer_cancel_key s c = Some (wrap32 (step' + int i))"
    if "i < length d'" "snd (d' ! i) = Some c" for i c
    using that own [of "n + i" c] n(1,2) by simp
  moreover have "length d' < 2 ^ 32" using inv n(2) by (simp add: timer_inv_def less_imp_diff_less)
  ultimately have "timer_inv s'" using s' by (simp add: timer_inv_def)
  moreover have "c \<in> alive s" if cf: "c \<in> set fired" for c
  proof -
    obtain x where x: "x \<in> set (take n ?d)" "snd x = Some c"
      using cf n(4) by (auto simp: List.map_filter_def split: option.splits)
    obtain i where i: "i < n" "i < length ?d" "?d ! i = x"
      using x(1) unfolding in_set_conv_nth by fastforce
    then show ?thesis using own [OF i(2), of c] x(2) by simp
  qed
  ultimately show ?thesis by blast
qed

lemma open_inv:
  assumes "timer_inv s" and "c \<notin> alive s"
  shows "timer_inv (connection_open c s)"
proof -
  have "c' \<noteq> c" if "i < length (dq (tq s))" "snd (dq (tq s) ! i) = Some c'" for i c'
    using timer_inv_own [OF assms(1) that] assms(2) by blast
  then show ?thesis using assms(1) by (simp add: timer_inv_def connection_open_def)
qed

lemma destroy_inv:
  assumes "timer_inv s"
  shows "timer_inv (connection_destroy c s)"
proof -
  let ?s = "cancel_deadline_timer c s"
  have "c' \<noteq> c" if "i < length (dq (tq ?s))" "snd (dq (tq ?s) ! i) = Some c'" for i c'
    using cancel_inv(2) [OF assms, of i c] that by auto
  then show ?thesis
    using cancel_inv(1) [OF assms, of c] by (simp add: timer_inv_def connection_destroy_def Let_def)
qed

lemma timer_inv_step: "timer_inv s \<Longrightarrow> timer_step s t \<Longrightarrow> timer_inv t"
proof (erule timer_step.cases)
  fix s0 :: "'a timers" and now
  assume "timer_inv s" "s = s0" "t = snd (run_timers now s0)"
  then show "timer_inv t" using process_inv [of s now] by (metis prod.collapse)
qed (simp_all add: open_inv start_inv cancel_inv(1) destroy_inv)

interpretation timer: invariant_system timer_step timer_inv
  by unfold_locales (rule timer_inv_step)

lemma timers_new_inv: "timer_inv timers_new"
  by (simp add: timer_inv_def timers_new_def timer_queue_new_def)

text \<open>
  C20. Whenever the timer queue is processed, the callbacks it runs belong to connections that still exist, and
  no connection ever has two armed timers, across every order of opening, restarting, cancelling and
  destroying connections and although the 32-bit key of the timers wraps around.
\<close>

theorem timer_callbacks_alive:
  assumes "timer_step\<^sup>*\<^sup>* timers_new s"
  shows "set (fst (run_timers now s)) \<subseteq> alive s \<and>
         (\<forall>i < length (dq (tq s)). \<forall>j < length (dq (tq s)). \<forall>c.
            snd (dq (tq s) ! i) = Some c \<longrightarrow> snd (dq (tq s) ! j) = Some c \<longrightarrow> i = j)"
proof -
  have inv: "timer_inv s" using timer.inv_steps [OF assms timers_new_inv] .
  have "i = j" if "i < length (dq (tq s))" "j < length (dq (tq s))"
    "snd (dq (tq s) ! i) = Some c" "snd (dq (tq s) ! j) = Some c" for i j c
  proof -
    have "wrap32 (step_no (tq s) + int i) = wrap32 (step_no (tq s) + int j)" "i < 2 ^ 32" "j < 2 ^ 32"
      using inv that by (auto simp: timer_inv_def) (metis option.inject)
    then show ?thesis using cancel_index [of i "step_no (tq s)"] cancel_index [of j "step_no (tq s)"] by simp
  qed
  then show ?thesis using process_inv [OF inv, of now] by (metis prod.collapse)
qed

lemma start_deadline_fresh:
  "timer_cancel_key s c = None \<Longrightarrow>
     start_deadline now c s =
       s\<lparr>tq := (tq s)\<lparr>dq := dq (tq s) @ [(now, Some c)]\<rparr>,
         timer_cancel_key := (timer_cancel_key s)(c := Some (wrap32 (step_no (tq s) + int (length (dq (tq s))))))\<rparr>"
  by (simp add: start_deadline_def cancel_deadline_timer_def tq_add_def Let_def)

definition sample_timers :: "nat timers" where
  "sample_timers =
     \<lparr>tq = \<lparr>dq = [(0, None), (1, Some 8)], step_no = 0\<rparr>, timer_cancel_key = (\<lambda>_. None)(8 := Some 1),
      alive = {8}\<rparr>"

lemma sample_timers_reachable: "timer_step\<^sup>*\<^sup>* timers_new sample_timers"
proof -
  define s1 :: "nat timers" where "s1 = connection_open 7 timers_new"
  define s2 where "s2 = start_deadline 0 7 s1"
  define s3 where "s3 = connection_open 8 s2"
  define s4 where "s4 = start_deadline 1 8 s3"
  have s1: "s1 = \<lparr>tq = \<lparr>dq = [], step_no = 0\<rparr>, timer_cancel_key = (\<lambda>_. None), alive = {7}\<rparr>"
    by (simp add: s1_def connection_open_def timers_new_def timer_queue_new_def fun_upd_def)
  have s2: "s2 = \<lparr>tq = \<lparr>dq = [(0, Some 7)], step_no = 0\<rparr>, timer_cancel_key = (\<lambda>_. None)(7 := Some 0), alive = {7}\<rparr>"
    by (simp add: s2_def s1 start_deadline_fresh wrap32_def)
  have s3: "s3 = \<lparr>tq = \<lparr>dq = [(0, Some 7)], step_no = 0\<rparr>, timer_cancel_key = (\<lambda>_. None)(7 := Some 0), alive = {8, 7}\<rparr>"
    by (simp add: s3_def s2 connection_open_def fun_eq_iff)
  have s4: "s4 = \<lparr>tq = \<lparr>dq = [(0, Some 7), (1, Some 8)], step_no = 0\<rparr>,
      timer_cancel_key = (\<lambda>_. None)(7 := Some 0, 8 := Some 1), alive = {8, 7}\<rparr>"
    by (simp add: s4_def s3 start_deadline_fresh wrap32_def)
  have s5: "connection_destroy 7 s4 = sample_timers"
    by (simp add: s4 sample_timers_def connection_destroy_def cancel_deadline_timer_def tq_cancel_def Let_def
        fun_eq_iff insert_Diff_if)
  have "timer_step timers_new s1" unfolding s1_def by (rule open_step) (simp add: timers_new_def)
  moreover have "timer_step s1 s2" unfolding s2_def by (rule start_step) (simp_all add: s1)
  moreover have "timer_step s2 s3" unfolding s3_def by (rule open_step) (simp add: s2)
  moreover have "timer_step s3 s4" unfolding s4_def by (rule start_step) (simp_all add: s3)
  moreover have "timer_step s4 sample_timers" unfolding s5 [symmetric] by (rule destroy_step) (simp add: s4)
  ultimately show ?thesis
    by (intro converse_rtranclp_into_rtranclp [of timer_step timers_new s1]
        converse_rtranclp_into_rtranclp [of timer_step s1 s2] converse_rtranclp_into_rtranclp [of timer_step s2 s3]
        converse_rtranclp_into_rtranclp [of timer_step s3 s4] r_into_rtranclp)
qed

theorem timer_callbacks_alive_witness:
  "timer_step\<^sup>*\<^sup>* timers_new sample_timers \<and> fst (run_timers 6000000000 sample_timers) = [8] \<and>
   set (fst (run_timers 6000000000 sample_timers)) \<subseteq> alive sample_timers"
proof -
  have "fst (run_timers 6000000000 sample_timers) = [8]"
    by (simp add: run_timers_def tq_process_def tick_def sample_timers_def case_prod_unfold Let_def)
  then show ?thesis
    using timer_callbacks_alive [OF sample_timers_reachable] sample_timers_reachable by blast
qed

end
