(* ===== verification/Crow_Life.thy ===== *)
theory Crow_Life
  imports Crow_Conn Step_System
begin

text \<open>
  The life of a \<^verbatim>\<open>Connection\<close> of the HTTP server (\<^verbatim>\<open>src/crow_all.h\<close>): a connection is deleted by
  \<^verbatim>\<open>check_destroy\<close> once neither of its flags \<^verbatim>\<open>is_reading\<close> and \<^verbatim>\<open>is_writing\<close> is set, and the completion
  handlers of its asynchronous operations use its fields through \<^verbatim>\<open>this\<close>. The state counts the operations
  under way, which the two flags only stand for. What the socket does, and the order in which
  operations complete, is the choice of the environment; the deadline timers are in \<open>Crow_Timer\<close>.
\<close>

section \<open>Operations\<close>

text \<open>
  \<open>reads\<close> and \<open>writes\<close> are the started operations whose handler has not run, \<open>freed\<close> says that
  \<^verbatim>\<open>delete this\<close> has run, and \<open>wild\<close> that a handler has run after it.
\<close>

record life =
  conn :: connection
  is_reading :: bool
  is_writing :: bool
  need_after_handlers :: bool
  need_start_read :: bool
  sock_open :: bool
  reads :: nat
  writes :: nat
  freed :: bool
  wild :: bool

definition life_do_read :: "life \<Rightarrow> life" where
  "life_do_read s = s\<lparr>is_reading := True, reads := reads s + 1\<rparr>"

definition life_do_write :: "life \<Rightarrow> life" where
  "life_do_write s = s\<lparr>is_writing := True, writes := writes s + 1\<rparr>"

definition check_destroy :: "life \<Rightarrow> life" where
  "check_destroy s = (if \<not> is_reading s \<and> \<not> is_writing s then s\<lparr>freed := True\<rparr> else s)"

text \<open>A fresh connection after \<^verbatim>\<open>start\<close>.\<close>

definition life_start :: life where
  "life_start = life_do_read
     \<lparr>conn = connection_new, is_reading = False, is_writing = False, need_after_handlers = False,
      need_start_read = False, sock_open = True, reads = 0, writes = 0, freed = False, wild = False\<rparr>"

definition life_complete_request :: "life \<Rightarrow> life" where
  "life_complete_request s =
     (let s = s\<lparr>need_after_handlers := False\<rparr> in
      if \<not> sock_open s then s
      else let s = life_do_write s in
           if need_start_read s then life_do_read (s\<lparr>need_start_read := False\<rparr>) else s)"

text \<open>
  \<^verbatim>\<open>handle\<close>; the handlers of the service finish the response before they return, so
  \<^verbatim>\<open>complete_request\<close> runs within the call.
\<close>

definition life_handle :: "message \<Rightarrow> life \<Rightarrow> life" where
  "life_handle m s =
     (let (c, invalid, upgrade) = handle_checks m (to_request (m_method m) (m_parser m)) (conn s);
          s = s\<lparr>conn := c\<rparr>
      in if upgrade then s
         else if invalid then life_complete_request (s\<lparr>need_after_handlers := False\<rparr>)
         else life_complete_request (s\<lparr>need_after_handlers := True\<rparr>))"

text \<open>One message of a buffer: \<^verbatim>\<open>handle_header\<close> and then \<^verbatim>\<open>handle\<close>.\<close>

definition life_message :: "message \<Rightarrow> life \<Rightarrow> life" where
  "life_message m s = life_handle m (if handle_header m then life_do_write s else s)"

text \<open>
  The handler of \<^verbatim>\<open>do_read\<close>: \<open>ec\<close> is the error flag of the operation, \<open>ms\<close> the messages that end
  in the buffer and \<open>ret\<close> the result of \<^verbatim>\<open>feed\<close>. The call \<^verbatim>\<open>parser_.done()\<close> makes no callback for a
  request.
\<close>

definition on_read :: "bool \<Rightarrow> message list \<Rightarrow> bool \<Rightarrow> life \<Rightarrow> life" where
  "on_read ec ms ret s0 =
     (let s = s0\<lparr>reads := reads s0 - 1\<rparr> in
      if freed s then s\<lparr>wild := True\<rparr>
      else
        let s = (if ec then s else fold life_message ms s);
            error_while_reading = (ec \<or> \<not> (ret \<and> sock_open s))
        in if error_while_reading then check_destroy (s\<lparr>sock_open := False, is_reading := False\<rparr>)
           else if close_connection (conn s) then check_destroy (s\<lparr>is_reading := False\<rparr>)
           else if \<not> need_after_handlers s then life_do_read s
           else s\<lparr>need_start_read := True\<rparr>)"

text \<open>The handler of \<^verbatim>\<open>do_write\<close>.\<close>

definition on_write :: "bool \<Rightarrow> life \<Rightarrow> life" where
  "on_write ec s0 =
     (let s = s0\<lparr>writes := writes s0 - 1\<rparr> in
      if freed s then s\<lparr>wild := True\<rparr>
      else
        let s = s\<lparr>is_writing := False, conn := finish_write (conn s)\<rparr> in
        if \<not> ec then
          (if close_connection (conn s) then check_destroy (s\<lparr>sock_open := False\<rparr>) else s)
        else check_destroy s)"

text \<open>The callback of a deadline timer.\<close>

definition on_timeout :: "life \<Rightarrow> life" where
  "on_timeout s = s\<lparr>sock_open := False\<rparr>"

section \<open>Runs\<close>

text \<open>Whatever the environment does.\<close>

inductive life_step :: "life \<Rightarrow> life \<Rightarrow> bool" where
  read_done: "0 < reads s \<Longrightarrow> life_step s (on_read ec ms ret s)"
| write_done: "0 < writes s \<Longrightarrow> life_step s (on_write ec s)"
| timed_out: "\<not> freed s \<Longrightarrow> life_step s (on_timeout s)"

text \<open>
  A client that waits for each answer before its next request, sends no \<^verbatim>\<open>Expect\<close> header, and a socket
  whose writes fail once it is closed.
\<close>

inductive polite_step :: "life \<Rightarrow> life \<Rightarrow> bool" where
  polite_read: "0 < reads s \<Longrightarrow> ms = [] \<or> (\<exists>m. ms = [m] \<and> \<not> handle_header m \<and> writes s = 0) \<Longrightarrow>
     polite_step s (on_read ec ms ret s)"
| polite_write: "0 < writes s \<Longrightarrow> ec \<or> sock_open s \<Longrightarrow> polite_step s (on_write ec s)"
| polite_timeout: "\<not> freed s \<Longrightarrow> polite_step s (on_timeout s)"

lemma polite_life_step: "polite_step s t \<Longrightarrow> life_step s t"
  by (induction rule: polite_step.induct) (auto intro: life_step.intros)

section \<open>No handler of a polite run uses a deleted connection\<close>

definition life_inv :: "life \<Rightarrow> bool" where
  "life_inv s \<longleftrightarrow>
     \<not> wild s \<and> \<not> need_after_handlers s \<and> \<not> need_start_read s \<and>
     (if freed s then reads s = 0 \<and> writes s = 0
      else reads s = of_bool (is_reading s) \<and> writes s = of_bool (is_writing s) \<and>
           (is_reading s \<or> is_writing s) \<and>
           (\<not> is_reading s \<longrightarrow> \<not> sock_open s \<or> close_connection (conn s)))"

lemmas life_defs = life_do_read_def life_do_write_def check_destroy_def on_timeout_def

lemma life_handle_fields:
  assumes "\<not> need_start_read s"
  shows "is_reading (life_handle m s) = is_reading s" "reads (life_handle m s) = reads s"
    "freed (life_handle m s) = freed s" "wild (life_handle m s) = wild s"
    "need_start_read (life_handle m s) = need_start_read s"
    "\<not> need_after_handlers s \<Longrightarrow> \<not> need_after_handlers (life_handle m s)"
    "\<not> is_writing s \<Longrightarrow> writes s = 0 \<Longrightarrow> writes (life_handle m s) = of_bool (is_writing (life_handle m s))"
  using assms
  by (simp_all add: life_handle_def life_complete_request_def life_defs case_prod_unfold Let_def)

lemma on_read_inv:
  assumes inv: "life_inv s" and r: "0 < reads s"
    and ms: "ms = [] \<or> (\<exists>m. ms = [m] \<and> \<not> handle_header m \<and> writes s = 0)"
  shows "life_inv (on_read ec ms ret s)"
proof -
  define s1 where "s1 = s\<lparr>reads := reads s - 1\<rparr>"
  define s2 where "s2 = (if ec then s1 else fold life_message ms s1)"
  have s: "\<not> freed s" "\<not> wild s" "\<not> need_after_handlers s" "\<not> need_start_read s" "is_reading s" "reads s = 1"
    "writes s = of_bool (is_writing s)"
    using inv r by (auto simp: life_inv_def split: if_splits)
  have s2: "\<not> freed s2" "\<not> wild s2" "\<not> need_after_handlers s2" "\<not> need_start_read s2" "is_reading s2"
    "reads s2 = 0"
    using s ms life_handle_fields [of s1] by (auto simp: s2_def s1_def life_message_def)
  have w: "writes s2 = of_bool (is_writing s2)"
  proof (cases "ec \<or> ms = []")
    case False
    then obtain m where m: "ms = [m]" "\<not> handle_header m" "writes s = 0" using ms by blast
    then have "\<not> is_writing s" using s(7) by simp
    then have "writes (life_handle m s1) = of_bool (is_writing (life_handle m s1))"
      using life_handle_fields(7) [of s1 m] s(4) m(3) by (simp add: s1_def)
    then show ?thesis using m False by (simp add: s2_def life_message_def)
  qed (use s(7) in \<open>auto simp: s2_def s1_def\<close>)
  have "on_read ec ms ret s =
      (if ec \<or> \<not> (ret \<and> sock_open s2) then check_destroy (s2\<lparr>sock_open := False, is_reading := False\<rparr>)
       else if close_connection (conn s2) then check_destroy (s2\<lparr>is_reading := False\<rparr>)
       else life_do_read s2)"
    using s(1) s2(3) unfolding on_read_def Let_def s1_def [symmetric] s2_def [symmetric]
    by (simp add: s1_def)
  then show ?thesis using s2 w by (simp add: life_inv_def life_defs)
qed

lemma on_write_inv:
  "life_inv s \<Longrightarrow> 0 < writes s \<Longrightarrow> ec \<or> sock_open s \<Longrightarrow> life_inv (on_write ec s)"
  by (auto simp: life_inv_def on_write_def finish_write_def life_defs Let_def split: if_splits)

interpretation life: invariant_system polite_step life_inv
proof
  fix s t
  assume "life_inv s" and "polite_step s t"
  from this(2,1) show "life_inv t"
  proof cases
    case polite_timeout
    then show ?thesis using \<open>life_inv s\<close> by (auto simp: life_inv_def life_defs split: if_splits)
  qed (auto intro: on_read_inv on_write_inv)
qed

lemma life_start_inv: "life_inv life_start"
  by (simp add: life_inv_def life_start_def life_defs)


section \<open>Pipelined requests\<close>

text \<open>A request with the given headers.\<close>

definition get_message :: "ci_map \<Rightarrow> message" where
  "get_message hs =
     \<lparr>m_major = 1, m_minor = 1, m_method = method_code Get, m_upgrade = False,
      m_parser = parser_clear\<lparr>p_raw_url := ''/'', p_url := ''/'', p_headers := hs\<rparr>\<rparr>"

lemma get_message_handle:
  "hdr_count ''expect'' hs = 0 \<Longrightarrow> hdr_count ''host'' hs \<noteq> 0 \<Longrightarrow> \<not> need_start_read s \<Longrightarrow> sock_open s \<Longrightarrow>
     life_message (get_message hs) s =
       s\<lparr>conn := (conn s)\<lparr>add_keep_alive := hdr_count ''connection'' hs \<noteq> 0 \<and>
             get_header_value hs ''connection'' \<noteq> ''close'' \<and> iequals (get_header_value hs ''connection'') ''Keep-Alive'',
           close_connection := close_connection (conn s) \<or>
             hdr_count ''connection'' hs \<noteq> 0 \<and> get_header_value hs ''connection'' = ''close''\<rparr>,
         need_after_handlers := False, is_writing := True, writes := writes s + 1\<rparr>"
  by (simp add: life_message_def handle_header_def get_message_def life_handle_def handle_checks_def to_request_def
      life_complete_request_def life_do_write_def Let_def)

definition host_only :: ci_map where
  "host_only = [(''Host'', ''a'')]"

definition host_close :: ci_map where
  "host_close = [(''Host'', ''a''), (''Connection'', ''close'')]"

lemma sample_header_facts:
  "hdr_count ''expect'' host_only = 0" "hdr_count ''host'' host_only \<noteq> 0" "hdr_count ''connection'' host_only = 0"
  "hdr_count ''expect'' host_close = 0" "hdr_count ''host'' host_close \<noteq> 0"
  "hdr_count ''connection'' host_close \<noteq> 0" "get_header_value host_close ''connection'' = ''close''"
  by (simp_all add: host_only_def host_close_def hdr_count_def get_header_value_def hdr_find_def iequals_def
      toupper_def char_of_def bit_0)

lemmas life_eval = life_start_def connection_new_def on_read_def on_write_def finish_write_def get_message_handle
  sample_header_facts life_defs Let_def



end
