(* ===== verification/Crow_Tokenizer.thy ===== *)
theory Crow_Tokenizer
  imports Prelude
begin

text \<open>
  The tokenizer of HTTP requests (\<^verbatim>\<open>src/crow_all.h\<close>: \<^verbatim>\<open>http_parser_execute\<close> and what it uses). The server
  initialises its parsers with \<^verbatim>\<open>HTTP_REQUEST\<close>, and no state that a request reaches changes the type, so
  the states of responses are left out. The callbacks of the server return 0; here they are the events a
  call delivers, in their order, the two that read the parser with the parser at that moment. \<^verbatim>\<open>assert\<close>
  is checked, as the code is compiled without \<^verbatim>\<open>NDEBUG\<close>: a failed assertion, and a read outside a
  string constant, are the outcome \<open>Abort\<close>.
\<close>

section \<open>Character classes and tables\<close>

abbreviation code :: "char \<Rightarrow> nat" where
  "code c \<equiv> of_char c"

definition CR :: char where
  "CR = CHR 0x0D"

definition LF :: char where
  "LF = CHR 0x0A"

definition TAB :: char where
  "TAB = CHR 0x09"

definition NUL_chr :: char where
  "NUL_chr = CHR 0x00"

definition LOWER :: "char \<Rightarrow> char" where
  "LOWER c = char_of (or (code c) 0x20)"

definition IS_ALPHA :: "char \<Rightarrow> bool" where
  "IS_ALPHA c \<longleftrightarrow> 97 \<le> code (LOWER c) \<and> code (LOWER c) \<le> 122"

definition IS_NUM :: "char \<Rightarrow> bool" where
  "IS_NUM c \<longleftrightarrow> 48 \<le> code c \<and> code c \<le> 57"

definition IS_USERINFO_CHAR :: "char \<Rightarrow> bool" where
  "IS_USERINFO_CHAR c \<longleftrightarrow>
     IS_ALPHA c \<or> IS_NUM c \<or> c \<in> set ''-_.!~*()'' \<or> c = CHR 0x27 \<or> c \<in> set ''%;:&=+$,''"

text \<open>
  \<^verbatim>\<open>normal_url_char\<close> in strict mode: the printable characters but \<^verbatim>\<open>#\<close> and \<^verbatim>\<open>?\<close>.
\<close>

definition IS_URL_CHAR :: "char \<Rightarrow> bool" where
  "IS_URL_CHAR c \<longleftrightarrow> 33 \<le> code c \<and> code c \<le> 126 \<and> code c \<noteq> 35 \<and> code c \<noteq> 63"

text \<open>The table \<^verbatim>\<open>tokens\<close>, which also lowers letters; 0 is the zero character.\<close>

definition tokens :: "char \<Rightarrow> char" where
  "tokens c =
     (let n = code c in
      if 65 \<le> n \<and> n \<le> 90 then char_of (n + 32)
      else if 97 \<le> n \<and> n \<le> 122 \<or> 48 \<le> n \<and> n \<le> 57 \<or> c \<in> set ''!#$%&*+-.^_`|~'' \<or> n = 39 then c
      else NUL_chr)"

text \<open>
  The table \<^verbatim>\<open>unhex\<close>, \<open>None\<close> for -1. Its initialiser has 128 of 256 elements; the others are 0.
\<close>

definition unhex :: "char \<Rightarrow> nat option" where
  "unhex c =
     (let n = code c in
      if 48 \<le> n \<and> n \<le> 57 then Some (n - 48)
      else if 65 \<le> n \<and> n \<le> 70 then Some (n - 55)
      else if 97 \<le> n \<and> n \<le> 102 then Some (n - 87)
      else if 128 \<le> n then Some 0
      else None)"

definition method_strings :: "string list" where
  "method_strings =
     [''DELETE'', ''GET'', ''HEAD'', ''POST'', ''PUT'', ''CONNECT'', ''OPTIONS'', ''TRACE'', ''COPY'', ''LOCK'', ''MKCOL'',
      ''MOVE'', ''PROPFIND'', ''PROPPATCH'', ''SEARCH'', ''UNLOCK'', ''REPORT'', ''MKACTIVITY'', ''CHECKOUT'', ''MERGE'',
      ''M-SEARCH'', ''NOTIFY'', ''SUBSCRIBE'', ''UNSUBSCRIBE'', ''PATCH'', ''PURGE'', ''MKCALENDAR'']"

definition HTTP_MAX_HEADER_SIZE :: nat where
  "HTTP_MAX_HEADER_SIZE = 80 * 1024"

definition ULLONG_MAX :: nat where
  "ULLONG_MAX = 2 ^ 64 - 1"

text \<open>The character of a zero-terminated constant, \<open>None\<close> behind its terminator.\<close>

definition const_at :: "string \<Rightarrow> nat \<Rightarrow> char option" where
  "const_at s i = (if i < length s then Some (s ! i) else if i = length s then Some NUL_chr else None)"

section \<open>The parser object\<close>

datatype tk_state =
    S_dead | S_start_req | S_req_method | S_req_spaces_before_url | S_req_schema | S_req_schema_slash
  | S_req_schema_slash_slash | S_req_server_start | S_req_server | S_req_server_with_at | S_req_path
  | S_req_query_string_start | S_req_query_string | S_req_fragment_start | S_req_fragment
  | S_req_http_start | S_req_http_H | S_req_http_HT | S_req_http_HTT | S_req_http_HTTP
  | S_req_first_http_major | S_req_http_major | S_req_first_http_minor | S_req_http_minor
  | S_req_line_almost_done
  | S_header_field_start | S_header_field | S_header_value_discard_ws
  | S_header_value_discard_ws_almost_done | S_header_value_discard_lws | S_header_value_start
  | S_header_value | S_header_value_lws | S_header_almost_done
  | S_chunk_size_start | S_chunk_size | S_chunk_parameters | S_chunk_size_almost_done
  | S_headers_almost_done | S_headers_done
  | S_chunk_data | S_chunk_data_almost_done | S_chunk_data_done | S_body_identity | S_message_done

datatype tk_header_state =
    H_general | H_C | H_CO | H_CON
  | H_matching_connection | H_matching_proxy_connection | H_matching_content_length
  | H_matching_transfer_encoding | H_matching_upgrade
  | H_connection | H_content_length | H_transfer_encoding | H_upgrade
  | H_matching_transfer_encoding_chunked | H_matching_connection_keep_alive | H_matching_connection_close
  | H_transfer_encoding_chunked | H_connection_keep_alive | H_connection_close

datatype tk_flag = F_CHUNKED | F_CONNECTION_KEEP_ALIVE | F_CONNECTION_CLOSE | F_TRAILING | F_UPGRADE

datatype http_errno =
    HPE_OK | HPE_INVALID_EOF_STATE | HPE_HEADER_OVERFLOW | HPE_CLOSED_CONNECTION | HPE_INVALID_VERSION
  | HPE_INVALID_METHOD | HPE_INVALID_URL | HPE_LF_EXPECTED | HPE_INVALID_HEADER_TOKEN
  | HPE_INVALID_CONTENT_LENGTH | HPE_INVALID_CHUNK_SIZE | HPE_INVALID_CONSTANT | HPE_STRICT

record tokenizer =
  tk_state :: tk_state
  header_state :: tk_header_state
  tk_index :: nat
  flags :: "tk_flag set"
  nread :: nat
  content_length :: nat
  http_major :: nat
  http_minor :: nat
  tk_method :: nat
  tk_upgrade :: bool
  tk_errno :: http_errno

definition http_parser_init :: tokenizer where
  "http_parser_init =
     \<lparr>tk_state = S_start_req, header_state = H_general, tk_index = 0, flags = {}, nread = 0, content_length = 0,
      http_major = 0, http_minor = 0, tk_method = 0, tk_upgrade = False, tk_errno = HPE_OK\<rparr>"

text \<open>\<^verbatim>\<open>CROW_PARSING_HEADER\<close>.\<close>

definition PARSING_HEADER :: "tk_state \<Rightarrow> bool" where
  "PARSING_HEADER st \<longleftrightarrow>
     \<not> (st = S_chunk_data \<or> st = S_chunk_data_almost_done \<or> st = S_chunk_data_done \<or> st = S_body_identity \<or>
        st = S_message_done)"

definition http_should_keep_alive :: "tokenizer \<Rightarrow> bool" where
  "http_should_keep_alive tk =
     (if 0 < http_major tk \<and> 0 < http_minor tk then F_CONNECTION_CLOSE \<notin> flags tk
      else F_CONNECTION_KEEP_ALIVE \<in> flags tk)"

definition NEW_MESSAGE :: "tokenizer \<Rightarrow> tk_state" where
  "NEW_MESSAGE tk = (if http_should_keep_alive tk then S_start_req else S_dead)"

section \<open>Marks and callbacks\<close>

datatype mark_kind = M_url | M_header_field | M_header_value | M_body

datatype tk_event =
    Ev_message_begin | Ev_headers_complete tokenizer | Ev_message_complete tokenizer
  | Ev_data mark_kind string

text \<open>
  The uses of the macros in the code for one byte: \<^verbatim>\<open>CROW_MARK\<close>, \<^verbatim>\<open>CROW_CALLBACK_DATA\<close>, the variant for
  a body, which includes bytes from the current one on, and \<^verbatim>\<open>CROW_CALLBACK_NOTIFY\<close>.
\<close>

datatype action = A_mark mark_kind | A_callback mark_kind | A_callback_body string | A_notify tk_event

text \<open>A mark is the text between it and the current byte, \<open>None\<close> when it is not set.\<close>

type_synonym marks = "mark_kind \<Rightarrow> string option"

definition CALLBACK_DATA :: "mark_kind \<Rightarrow> string \<Rightarrow> marks \<Rightarrow> tk_event list" where
  "CALLBACK_DATA k s m = (case m k of None \<Rightarrow> [] | Some t \<Rightarrow> [Ev_data k (t @ s)])"

fun act :: "action \<Rightarrow> marks \<Rightarrow> marks \<times> tk_event list" where
  "act (A_mark k) m = (case m k of None \<Rightarrow> m(k := Some []) | Some t \<Rightarrow> m, [])"
| "act (A_callback k) m = (m(k := None), CALLBACK_DATA k [] m)"
| "act (A_callback_body s) m = (m(M_body := None), CALLBACK_DATA M_body s m)"
| "act (A_notify e) m = (m, [e])"

fun acts :: "action list \<Rightarrow> marks \<Rightarrow> marks \<times> tk_event list" where
  "acts [] m = (m, [])"
| "acts (a # as) m = (let (m1, e1) = act a m; (m2, e2) = acts as m1 in (m2, e1 @ e2))"

definition move_marks :: "string \<Rightarrow> marks \<Rightarrow> marks" where
  "move_marks s m = (\<lambda>k. map_option (\<lambda>t. t @ s) (m k))"

text \<open>
  What the code for one byte ends with: \<^verbatim>\<open>break\<close> with the number of bytes consumed, \<^verbatim>\<open>goto reexecute_byte\<close>
  with the number of bytes skipped before, \<^verbatim>\<open>goto error\<close>, the return after an upgrade, or undefined behaviour.
\<close>

datatype step_result =
    Break nat tokenizer "action list"
  | Again nat tokenizer "action list"
  | Fail tokenizer
  | Leave tokenizer "action list"
  | Abort

abbreviation next_byte :: "tokenizer \<Rightarrow> step_result" where
  "next_byte tk \<equiv> Break 1 tk []"

definition fail :: "http_errno \<Rightarrow> tokenizer \<Rightarrow> step_result" where
  "fail e tk = Fail (tk\<lparr>tk_errno := e\<rparr>)"

text \<open>\<^verbatim>\<open>CROW_STRICT_CHECK(ch != expected)\<close>, then the next state.\<close>

definition strict_next :: "char \<Rightarrow> char \<Rightarrow> tk_state \<Rightarrow> tokenizer \<Rightarrow> step_result" where
  "strict_next ch expected st tk =
     (if ch \<noteq> expected then fail HPE_STRICT tk else next_byte (tk\<lparr>tk_state := st\<rparr>))"

section \<open>The request line\<close>

definition first_method :: "char \<Rightarrow> nat option" where
  "first_method ch = map_of
     [(CHR ''C'', 5), (CHR ''D'', 0), (CHR ''G'', 1), (CHR ''H'', 2), (CHR ''L'', 9), (CHR ''M'', 10), (CHR ''N'', 21),
      (CHR ''O'', 6), (CHR ''P'', 3), (CHR ''R'', 16), (CHR ''S'', 22), (CHR ''T'', 7), (CHR ''U'', 15)] ch"

definition step_start_req :: "tokenizer \<Rightarrow> char \<Rightarrow> step_result" where
  "step_start_req tk ch =
     (if ch = CR \<or> ch = LF then next_byte tk
      else
        let tk = tk\<lparr>flags := {}, content_length := ULLONG_MAX\<rparr> in
        if \<not> IS_ALPHA ch then fail HPE_INVALID_METHOD tk
        else
          let tk = tk\<lparr>tk_method := 0, tk_index := 1\<rparr> in
          case first_method ch of
            None \<Rightarrow> fail HPE_INVALID_METHOD tk
          | Some k \<Rightarrow> Break 1 (tk\<lparr>tk_method := k, tk_state := S_req_method\<rparr>) [A_notify Ev_message_begin])"

text \<open>The method that another character at an index leads to.\<close>

definition switch_method :: "nat \<Rightarrow> nat \<Rightarrow> char \<Rightarrow> nat option" where
  "switch_method k i ch =
     (if k = 5 then
        (if i = 1 \<and> ch = CHR ''H'' then Some 18 else if i = 2 \<and> ch = CHR ''P'' then Some 8 else None)
      else if k = 10 then
        (if i = 1 \<and> ch = CHR ''O'' then Some 11
         else if i = 1 \<and> ch = CHR ''E'' then Some 19
         else if i = 1 \<and> ch = CHR ''-'' then Some 20
         else if i = 2 \<and> ch = CHR ''A'' then Some 17
         else if i = 3 \<and> ch = CHR ''A'' then Some 26
         else None)
      else if k = 22 then (if i = 1 \<and> ch = CHR ''E'' then Some 14 else None)
      else if i = 1 \<and> k = 3 then
        (if ch = CHR ''R'' then Some 12 else if ch = CHR ''U'' then Some 4 else if ch = CHR ''A'' then Some 24
         else None)
      else if i = 2 then
        (if k = 4 then (if ch = CHR ''R'' then Some 25 else None)
         else if k = 15 then (if ch = CHR ''S'' then Some 23 else None)
         else None)
      else if i = 4 \<and> k = 12 \<and> ch = CHR ''P'' then Some 13
      else None)"

definition step_req_method :: "tokenizer \<Rightarrow> char \<Rightarrow> step_result" where
  "step_req_method tk ch =
     (if ch = NUL_chr then fail HPE_INVALID_METHOD tk
      else case const_at (method_strings ! tk_method tk) (tk_index tk) of
        None \<Rightarrow> Abort
      | Some c \<Rightarrow>
          if ch = CHR '' '' \<and> c = NUL_chr
          then next_byte (tk\<lparr>tk_state := S_req_spaces_before_url, tk_index := tk_index tk + 1\<rparr>)
          else if ch = c then next_byte (tk\<lparr>tk_index := tk_index tk + 1\<rparr>)
          else case switch_method (tk_method tk) (tk_index tk) ch of
                 None \<Rightarrow> fail HPE_INVALID_METHOD tk
               | Some k \<Rightarrow> next_byte (tk\<lparr>tk_method := k, tk_index := tk_index tk + 1\<rparr>))"

fun parse_url_state :: "tk_state \<Rightarrow> char \<Rightarrow> tk_state" where
  "parse_url_state S_req_spaces_before_url ch =
     (if ch = CHR ''/'' \<or> ch = CHR ''*'' then S_req_path
      else if IS_ALPHA ch then S_req_schema else S_dead)"
| "parse_url_state S_req_schema ch =
     (if IS_ALPHA ch then S_req_schema else if ch = CHR '':'' then S_req_schema_slash else S_dead)"
| "parse_url_state S_req_schema_slash ch = (if ch = CHR ''/'' then S_req_schema_slash_slash else S_dead)"
| "parse_url_state S_req_schema_slash_slash ch = (if ch = CHR ''/'' then S_req_server_start else S_dead)"
| "parse_url_state S_req_path ch =
     (if IS_URL_CHAR ch then S_req_path
      else if ch = CHR ''?'' then S_req_query_string_start
      else if ch = CHR ''#'' then S_req_fragment_start else S_dead)"
| "parse_url_state S_req_fragment_start ch =
     (if IS_URL_CHAR ch then S_req_fragment
      else if ch = CHR ''?'' then S_req_fragment
      else if ch = CHR ''#'' then S_req_fragment_start else S_dead)"
| "parse_url_state S_req_fragment ch =
     (if IS_URL_CHAR ch \<or> ch = CHR ''?'' \<or> ch = CHR ''#'' then S_req_fragment else S_dead)"
| "parse_url_state st ch =
     (if st = S_req_server_with_at \<or> st = S_req_server_start \<or> st = S_req_server then
        (if st = S_req_server_with_at \<and> ch = CHR ''@'' then S_dead
         else if ch = CHR ''/'' then S_req_path
         else if ch = CHR ''?'' then S_req_query_string_start
         else if ch = CHR ''@'' then S_req_server_with_at
         else if IS_USERINFO_CHAR ch \<or> ch = CHR ''['' \<or> ch = CHR '']'' then S_req_server
         else S_dead)
      else if st = S_req_query_string_start \<or> st = S_req_query_string then
        (if IS_URL_CHAR ch \<or> ch = CHR ''?'' then S_req_query_string
         else if ch = CHR ''#'' then S_req_fragment_start else S_dead)
      else S_dead)"

definition parse_url_char :: "tk_state \<Rightarrow> char \<Rightarrow> tk_state" where
  "parse_url_char st ch =
     (if ch = CHR '' '' \<or> ch = CR \<or> ch = LF then S_dead
      else if ch = TAB \<or> ch = CHR 0x0C then S_dead
      else parse_url_state st ch)"

definition url_step :: "tk_state \<Rightarrow> tokenizer \<Rightarrow> action list \<Rightarrow> char \<Rightarrow> step_result" where
  "url_step st tk as ch =
     (let tk = tk\<lparr>tk_state := parse_url_char st ch\<rparr> in
      if tk_state tk = S_dead then fail HPE_INVALID_URL tk else Break 1 tk as)"

definition step_spaces_before_url :: "tokenizer \<Rightarrow> char \<Rightarrow> step_result" where
  "step_spaces_before_url tk ch =
     (if ch = CHR '' '' then next_byte tk
      else url_step (if tk_method tk = 5 then S_req_server_start else tk_state tk) tk [A_mark M_url] ch)"

definition step_schema :: "tokenizer \<Rightarrow> char \<Rightarrow> step_result" where
  "step_schema tk ch =
     (if ch = CHR '' '' \<or> ch = CR \<or> ch = LF then fail HPE_INVALID_URL tk
      else url_step (tk_state tk) tk [] ch)"

definition step_url :: "tokenizer \<Rightarrow> char \<Rightarrow> step_result" where
  "step_url tk ch =
     (if ch = CHR '' '' then
        Break 1 (tk\<lparr>tk_state := S_req_http_start\<rparr>) [A_callback M_url]
      else if ch = CR \<or> ch = LF then
        Break 1 (tk\<lparr>http_major := 0, http_minor := 9,
                   tk_state := (if ch = CR then S_req_line_almost_done else S_header_field_start)\<rparr>)
          [A_callback M_url]
      else url_step (tk_state tk) tk [] ch)"

definition step_http_start :: "tokenizer \<Rightarrow> char \<Rightarrow> step_result" where
  "step_http_start tk ch =
     (if ch = CHR ''H'' then next_byte (tk\<lparr>tk_state := S_req_http_H\<rparr>)
      else if ch = CHR '' '' then next_byte tk
      else fail HPE_INVALID_CONSTANT tk)"

definition digit_of :: "char \<Rightarrow> nat" where
  "digit_of ch = code ch - 48"

definition step_first_major :: "tokenizer \<Rightarrow> char \<Rightarrow> step_result" where
  "step_first_major tk ch =
     (if code ch < 49 \<or> 57 < code ch then fail HPE_INVALID_VERSION tk
      else next_byte (tk\<lparr>http_major := digit_of ch, tk_state := S_req_http_major\<rparr>))"

definition step_major :: "tokenizer \<Rightarrow> char \<Rightarrow> step_result" where
  "step_major tk ch =
     (if ch = CHR ''.'' then next_byte (tk\<lparr>tk_state := S_req_first_http_minor\<rparr>)
      else if \<not> IS_NUM ch then fail HPE_INVALID_VERSION tk
      else
        let tk = tk\<lparr>http_major := http_major tk * 10 + digit_of ch\<rparr> in
        if 999 < http_major tk then fail HPE_INVALID_VERSION tk else next_byte tk)"

definition step_first_minor :: "tokenizer \<Rightarrow> char \<Rightarrow> step_result" where
  "step_first_minor tk ch =
     (if \<not> IS_NUM ch then fail HPE_INVALID_VERSION tk
      else next_byte (tk\<lparr>http_minor := digit_of ch, tk_state := S_req_http_minor\<rparr>))"

definition step_minor :: "tokenizer \<Rightarrow> char \<Rightarrow> step_result" where
  "step_minor tk ch =
     (if ch = CR then next_byte (tk\<lparr>tk_state := S_req_line_almost_done\<rparr>)
      else if ch = LF then next_byte (tk\<lparr>tk_state := S_header_field_start\<rparr>)
      else if \<not> IS_NUM ch then fail HPE_INVALID_VERSION tk
      else
        let tk = tk\<lparr>http_minor := http_minor tk * 10 + digit_of ch\<rparr> in
        if 999 < http_minor tk then fail HPE_INVALID_VERSION tk else next_byte tk)"

definition step_line_almost_done :: "tokenizer \<Rightarrow> char \<Rightarrow> step_result" where
  "step_line_almost_done tk ch =
     (if ch \<noteq> LF then fail HPE_LF_EXPECTED tk else next_byte (tk\<lparr>tk_state := S_header_field_start\<rparr>))"

section \<open>Headers\<close>

definition step_header_field_start :: "tokenizer \<Rightarrow> char \<Rightarrow> step_result" where
  "step_header_field_start tk ch =
     (if ch = CR then next_byte (tk\<lparr>tk_state := S_headers_almost_done\<rparr>)
      else if ch = LF then Again 0 (tk\<lparr>tk_state := S_headers_almost_done\<rparr>) []
      else
        let c = tokens ch in
        if c = NUL_chr then fail HPE_INVALID_HEADER_TOKEN tk
        else Break 1
          (tk\<lparr>tk_index := 0, tk_state := S_header_field,
             header_state :=
               (if c = CHR ''c'' then H_C
                else if c = CHR ''p'' then H_matching_proxy_connection
                else if c = CHR ''t'' then H_matching_transfer_encoding
                else if c = CHR ''u'' then H_matching_upgrade
                else H_general)\<rparr>)
          [A_mark M_header_field])"

text \<open>One more character of a constant that is matched: the index and the header state.\<close>

definition match_next ::
  "string \<Rightarrow> tk_header_state \<Rightarrow> tk_header_state \<Rightarrow> char \<Rightarrow> nat \<Rightarrow> tk_header_state" where
  "match_next const same hit c index =
     (if length const < index \<or> const_at const index \<noteq> Some c then H_general
      else if index + 1 = length const then hit
      else same)"

text \<open>A character of the name; \<open>c\<close> is its token. \<open>None\<close> is the failing assertion.\<close>

definition field_char :: "tokenizer \<Rightarrow> char \<Rightarrow> char \<Rightarrow> tokenizer option" where
  "field_char tk ch c =
     (let hs = header_state tk; i = tk_index tk + 1;
          matched = (\<lambda>const hit. Some (tk\<lparr>tk_index := i, header_state := match_next const hs hit c i\<rparr>))
      in if hs = H_general then Some tk
         else if hs = H_C then Some (tk\<lparr>tk_index := i, header_state := (if c = CHR ''o'' then H_CO else H_general)\<rparr>)
         else if hs = H_CO then Some (tk\<lparr>tk_index := i, header_state := (if c = CHR ''n'' then H_CON else H_general)\<rparr>)
         else if hs = H_CON then
           Some (tk\<lparr>tk_index := i,
                    header_state := (if c = CHR ''n'' then H_matching_connection
                                     else if c = CHR ''t'' then H_matching_content_length else H_general)\<rparr>)
         else if hs = H_matching_connection then matched ''connection'' H_connection
         else if hs = H_matching_proxy_connection then matched ''proxy-connection'' H_connection
         else if hs = H_matching_content_length then matched ''content-length'' H_content_length
         else if hs = H_matching_transfer_encoding then matched ''transfer-encoding'' H_transfer_encoding
         else if hs = H_matching_upgrade then matched ''upgrade'' H_upgrade
         else if hs = H_connection \<or> hs = H_content_length \<or> hs = H_transfer_encoding \<or> hs = H_upgrade
         then Some (if ch \<noteq> CHR '' '' then tk\<lparr>header_state := H_general\<rparr> else tk)
         else None)"

definition step_header_field :: "tokenizer \<Rightarrow> char \<Rightarrow> step_result" where
  "step_header_field tk ch =
     (let c = tokens ch in
      if c \<noteq> NUL_chr then
        (case field_char tk ch c of None \<Rightarrow> Abort | Some tk \<Rightarrow> next_byte tk)
      else if ch = CHR '':'' then
        Break 1 (tk\<lparr>tk_state := S_header_value_discard_ws\<rparr>) [A_callback M_header_field]
      else if ch = CR then
        Break 1 (tk\<lparr>tk_state := S_header_almost_done\<rparr>) [A_callback M_header_field]
      else if ch = LF then
        Break 1 (tk\<lparr>tk_state := S_header_field_start\<rparr>) [A_callback M_header_field]
      else fail HPE_INVALID_HEADER_TOKEN tk)"

definition value_start :: "tokenizer \<Rightarrow> char \<Rightarrow> tokenizer option" where
  "value_start tk ch =
     (let c = LOWER ch; hs = header_state tk in
      if hs = H_upgrade then Some (tk\<lparr>flags := insert F_UPGRADE (flags tk), header_state := H_general\<rparr>)
      else if hs = H_transfer_encoding then
        Some (tk\<lparr>header_state := (if c = CHR ''c'' then H_matching_transfer_encoding_chunked else H_general)\<rparr>)
      else if hs = H_content_length then
        (if \<not> IS_NUM ch then None else Some (tk\<lparr>content_length := digit_of ch\<rparr>))
      else if hs = H_connection then
        Some (tk\<lparr>header_state :=
          (if c = CHR ''k'' then H_matching_connection_keep_alive
           else if c = CHR ''c'' then H_matching_connection_close else H_general)\<rparr>)
      else Some (tk\<lparr>header_state := H_general\<rparr>))"

definition step_header_value_start :: "tokenizer \<Rightarrow> char \<Rightarrow> step_result" where
  "step_header_value_start tk ch =
     (let tk = tk\<lparr>tk_state := S_header_value, tk_index := 0\<rparr> in
      case value_start tk ch of
        None \<Rightarrow> fail HPE_INVALID_CONTENT_LENGTH tk
      | Some tk \<Rightarrow> Break 1 tk [A_mark M_header_value])"

definition step_discard_ws :: "tokenizer \<Rightarrow> char \<Rightarrow> step_result" where
  "step_discard_ws tk ch =
     (if ch = CHR '' '' \<or> ch = TAB then next_byte tk
      else if ch = CR then next_byte (tk\<lparr>tk_state := S_header_value_discard_ws_almost_done\<rparr>)
      else if ch = LF then next_byte (tk\<lparr>tk_state := S_header_value_discard_lws\<rparr>)
      else step_header_value_start tk ch)"

text \<open>A further digit of a content length; the product is computed in 64 bits.\<close>

definition length_digit :: "nat \<Rightarrow> tokenizer \<Rightarrow> nat \<Rightarrow> tokenizer option" where
  "length_digit base tk d =
     (let t = (content_length tk * base + d) mod 2 ^ 64 in
      if (ULLONG_MAX - base) div base < content_length tk then None
      else Some (tk\<lparr>content_length := t\<rparr>))"

definition value_char :: "tokenizer \<Rightarrow> char \<Rightarrow> step_result" where
  "value_char tk ch =
     (let c = LOWER ch; hs = header_state tk; i = tk_index tk + 1;
          matched = (\<lambda>const hit. next_byte (tk\<lparr>tk_index := i, header_state := match_next const hs hit c i\<rparr>))
      in if hs = H_general then next_byte tk
         else if hs = H_connection \<or> hs = H_transfer_encoding then Abort
         else if hs = H_content_length then
           (if ch = CHR '' '' then next_byte tk
            else if \<not> IS_NUM ch then fail HPE_INVALID_CONTENT_LENGTH tk
            else case length_digit 10 tk (digit_of ch) of
                   None \<Rightarrow> fail HPE_INVALID_CONTENT_LENGTH tk
                 | Some tk \<Rightarrow> next_byte tk)
         else if hs = H_matching_transfer_encoding_chunked then matched ''chunked'' H_transfer_encoding_chunked
         else if hs = H_matching_connection_keep_alive then matched ''keep-alive'' H_connection_keep_alive
         else if hs = H_matching_connection_close then matched ''close'' H_connection_close
         else if hs = H_transfer_encoding_chunked \<or> hs = H_connection_keep_alive \<or> hs = H_connection_close
         then next_byte (if ch \<noteq> CHR '' '' then tk\<lparr>header_state := H_general\<rparr> else tk)
         else next_byte (tk\<lparr>tk_state := S_header_value, header_state := H_general\<rparr>))"

definition step_header_value :: "tokenizer \<Rightarrow> char \<Rightarrow> step_result" where
  "step_header_value tk ch =
     (if ch = CR then
        Break 1 (tk\<lparr>tk_state := S_header_almost_done\<rparr>) [A_callback M_header_value]
      else if ch = LF then
        Again 0 (tk\<lparr>tk_state := S_header_almost_done\<rparr>) [A_callback M_header_value]
      else value_char tk ch)"

definition finish_header :: "tokenizer \<Rightarrow> tokenizer" where
  "finish_header tk =
     (let hs = header_state tk in
      if hs = H_connection_keep_alive then tk\<lparr>flags := insert F_CONNECTION_KEEP_ALIVE (flags tk)\<rparr>
      else if hs = H_connection_close then tk\<lparr>flags := insert F_CONNECTION_CLOSE (flags tk)\<rparr>
      else if hs = H_transfer_encoding_chunked then tk\<lparr>flags := insert F_CHUNKED (flags tk)\<rparr>
      else tk)"

definition step_header_value_lws :: "tokenizer \<Rightarrow> char \<Rightarrow> step_result" where
  "step_header_value_lws tk ch =
     (if ch = CHR '' '' \<or> ch = TAB then Again 0 (tk\<lparr>tk_state := S_header_value_start\<rparr>) []
      else Again 0 ((finish_header tk)\<lparr>tk_state := S_header_field_start\<rparr>) [])"

definition step_discard_lws :: "tokenizer \<Rightarrow> char \<Rightarrow> step_result" where
  "step_discard_lws tk ch =
     (if ch = CHR '' '' \<or> ch = TAB then next_byte (tk\<lparr>tk_state := S_header_value_discard_ws\<rparr>)
      else Again 0 (tk\<lparr>tk_state := S_header_field_start\<rparr>) [A_mark M_header_value, A_callback M_header_value])"

text \<open>\<^verbatim>\<open>state = NEW_MESSAGE(); CALLBACK_NOTIFY(message_complete)\<close>.\<close>

definition message_end :: "tokenizer \<Rightarrow> tokenizer" where
  "message_end tk = tk\<lparr>tk_state := NEW_MESSAGE tk\<rparr>"

definition step_headers_almost_done :: "tokenizer \<Rightarrow> char \<Rightarrow> step_result" where
  "step_headers_almost_done tk ch =
     (if ch \<noteq> LF then fail HPE_STRICT tk
      else if F_TRAILING \<in> flags tk then Break 1 (message_end tk) [A_notify (Ev_message_complete (message_end tk))]
      else
        let tk = tk\<lparr>tk_state := S_headers_done, tk_upgrade := (F_UPGRADE \<in> flags tk \<or> tk_method tk = 5)\<rparr>
        in Again 0 tk [A_notify (Ev_headers_complete tk)])"

definition step_headers_done :: "tokenizer \<Rightarrow> char \<Rightarrow> step_result" where
  "step_headers_done tk ch =
     (if ch \<noteq> LF then fail HPE_STRICT tk
      else
        let tk = tk\<lparr>nread := 0\<rparr>; fin = message_end tk in
        if tk_upgrade tk then Leave fin [A_notify (Ev_message_complete fin)]
        else if F_CHUNKED \<in> flags tk then next_byte (tk\<lparr>tk_state := S_chunk_size_start\<rparr>)
        else if content_length tk = 0 then Break 1 fin [A_notify (Ev_message_complete fin)]
        else if content_length tk \<noteq> ULLONG_MAX then next_byte (tk\<lparr>tk_state := S_body_identity\<rparr>)
        else Break 1 fin [A_notify (Ev_message_complete fin)])"

section \<open>The body\<close>

text \<open>\<open>rest\<close> is the buffer from the current byte on.\<close>

definition step_body_identity :: "tokenizer \<Rightarrow> string \<Rightarrow> step_result" where
  "step_body_identity tk rest =
     (if content_length tk = 0 \<or> content_length tk = ULLONG_MAX then Abort
      else
        let to_read = min (content_length tk) (length rest);
            tk = tk\<lparr>content_length := content_length tk - to_read\<rparr>
        in if content_length tk = 0 then
             Again (to_read - 1) (tk\<lparr>tk_state := S_message_done\<rparr>)
               [A_mark M_body, A_callback_body (take to_read rest)]
           else Break to_read tk [A_mark M_body])"

definition step_message_done :: "tokenizer \<Rightarrow> step_result" where
  "step_message_done tk = Break 1 (message_end tk) [A_notify (Ev_message_complete (message_end tk))]"

definition step_chunk_size_start :: "tokenizer \<Rightarrow> char \<Rightarrow> step_result" where
  "step_chunk_size_start tk ch =
     (if nread tk \<noteq> 1 \<or> F_CHUNKED \<notin> flags tk then Abort
      else case unhex ch of
             None \<Rightarrow> fail HPE_INVALID_CHUNK_SIZE tk
           | Some v \<Rightarrow> next_byte (tk\<lparr>content_length := v, tk_state := S_chunk_size\<rparr>))"

definition step_chunk_size :: "tokenizer \<Rightarrow> char \<Rightarrow> step_result" where
  "step_chunk_size tk ch =
     (if F_CHUNKED \<notin> flags tk then Abort
      else if ch = CR then next_byte (tk\<lparr>tk_state := S_chunk_size_almost_done\<rparr>)
      else case unhex ch of
             None \<Rightarrow>
               if ch = CHR '';'' \<or> ch = CHR '' '' then next_byte (tk\<lparr>tk_state := S_chunk_parameters\<rparr>)
               else fail HPE_INVALID_CHUNK_SIZE tk
           | Some v \<Rightarrow>
               (case length_digit 16 tk v of
                  None \<Rightarrow> fail HPE_INVALID_CONTENT_LENGTH tk
                | Some tk \<Rightarrow> next_byte tk))"

definition step_chunk_parameters :: "tokenizer \<Rightarrow> char \<Rightarrow> step_result" where
  "step_chunk_parameters tk ch =
     (if F_CHUNKED \<notin> flags tk then Abort
      else if ch = CR then next_byte (tk\<lparr>tk_state := S_chunk_size_almost_done\<rparr>)
      else next_byte tk)"

definition step_chunk_size_almost_done :: "tokenizer \<Rightarrow> char \<Rightarrow> step_result" where
  "step_chunk_size_almost_done tk ch =
     (if F_CHUNKED \<notin> flags tk then Abort
      else if ch \<noteq> LF then fail HPE_STRICT tk
      else
        let tk = tk\<lparr>nread := 0\<rparr> in
        if content_length tk = 0
        then next_byte (tk\<lparr>flags := insert F_TRAILING (flags tk), tk_state := S_header_field_start\<rparr>)
        else next_byte (tk\<lparr>tk_state := S_chunk_data\<rparr>))"

definition step_chunk_data :: "tokenizer \<Rightarrow> string \<Rightarrow> step_result" where
  "step_chunk_data tk rest =
     (if F_CHUNKED \<notin> flags tk \<or> content_length tk = 0 \<or> content_length tk = ULLONG_MAX then Abort
      else
        let to_read = min (content_length tk) (length rest);
            tk = tk\<lparr>content_length := content_length tk - to_read\<rparr>
        in Break to_read
             (if content_length tk = 0 then tk\<lparr>tk_state := S_chunk_data_almost_done\<rparr> else tk) [A_mark M_body])"

definition step_chunk_data_almost_done :: "tokenizer \<Rightarrow> char \<Rightarrow> step_result" where
  "step_chunk_data_almost_done tk ch =
     (if F_CHUNKED \<notin> flags tk \<or> content_length tk \<noteq> 0 then Abort
      else if ch \<noteq> CR then fail HPE_STRICT tk
      else Break 1 (tk\<lparr>tk_state := S_chunk_data_done\<rparr>) [A_callback M_body])"

definition step_chunk_data_done :: "tokenizer \<Rightarrow> char \<Rightarrow> step_result" where
  "step_chunk_data_done tk ch =
     (if F_CHUNKED \<notin> flags tk then Abort
      else if ch \<noteq> LF then fail HPE_STRICT tk
      else next_byte (tk\<lparr>nread := 0, tk_state := S_chunk_size_start\<rparr>))"

section \<open>http_parser_execute\<close>

definition tk_step :: "tokenizer \<Rightarrow> char \<Rightarrow> string \<Rightarrow> step_result" where
  "tk_step tk ch rest =
     (case tk_state tk of
        S_dead \<Rightarrow> if ch = CR \<or> ch = LF then next_byte tk else fail HPE_CLOSED_CONNECTION tk
      | S_start_req \<Rightarrow> step_start_req tk ch
      | S_req_method \<Rightarrow> step_req_method tk ch
      | S_req_spaces_before_url \<Rightarrow> step_spaces_before_url tk ch
      | S_req_schema \<Rightarrow> step_schema tk ch
      | S_req_schema_slash \<Rightarrow> step_schema tk ch
      | S_req_schema_slash_slash \<Rightarrow> step_schema tk ch
      | S_req_server_start \<Rightarrow> step_schema tk ch
      | S_req_server \<Rightarrow> step_url tk ch
      | S_req_server_with_at \<Rightarrow> step_url tk ch
      | S_req_path \<Rightarrow> step_url tk ch
      | S_req_query_string_start \<Rightarrow> step_url tk ch
      | S_req_query_string \<Rightarrow> step_url tk ch
      | S_req_fragment_start \<Rightarrow> step_url tk ch
      | S_req_fragment \<Rightarrow> step_url tk ch
      | S_req_http_start \<Rightarrow> step_http_start tk ch
      | S_req_http_H \<Rightarrow> strict_next ch (CHR ''T'') S_req_http_HT tk
      | S_req_http_HT \<Rightarrow> strict_next ch (CHR ''T'') S_req_http_HTT tk
      | S_req_http_HTT \<Rightarrow> strict_next ch (CHR ''P'') S_req_http_HTTP tk
      | S_req_http_HTTP \<Rightarrow> strict_next ch (CHR ''/'') S_req_first_http_major tk
      | S_req_first_http_major \<Rightarrow> step_first_major tk ch
      | S_req_http_major \<Rightarrow> step_major tk ch
      | S_req_first_http_minor \<Rightarrow> step_first_minor tk ch
      | S_req_http_minor \<Rightarrow> step_minor tk ch
      | S_req_line_almost_done \<Rightarrow> step_line_almost_done tk ch
      | S_header_field_start \<Rightarrow> step_header_field_start tk ch
      | S_header_field \<Rightarrow> step_header_field tk ch
      | S_header_value_discard_ws \<Rightarrow> step_discard_ws tk ch
      | S_header_value_start \<Rightarrow> step_header_value_start tk ch
      | S_header_value \<Rightarrow> step_header_value tk ch
      | S_header_almost_done \<Rightarrow> strict_next ch LF S_header_value_lws tk
      | S_header_value_lws \<Rightarrow> step_header_value_lws tk ch
      | S_header_value_discard_ws_almost_done \<Rightarrow> strict_next ch LF S_header_value_discard_lws tk
      | S_header_value_discard_lws \<Rightarrow> step_discard_lws tk ch
      | S_headers_almost_done \<Rightarrow> step_headers_almost_done tk ch
      | S_headers_done \<Rightarrow> step_headers_done tk ch
      | S_body_identity \<Rightarrow> step_body_identity tk rest
      | S_message_done \<Rightarrow> step_message_done tk
      | S_chunk_size_start \<Rightarrow> step_chunk_size_start tk ch
      | S_chunk_size \<Rightarrow> step_chunk_size tk ch
      | S_chunk_parameters \<Rightarrow> step_chunk_parameters tk ch
      | S_chunk_size_almost_done \<Rightarrow> step_chunk_size_almost_done tk ch
      | S_chunk_data \<Rightarrow> step_chunk_data tk rest
      | S_chunk_data_almost_done \<Rightarrow> step_chunk_data_almost_done tk ch
      | S_chunk_data_done \<Rightarrow> step_chunk_data_done tk ch)"

lemmas tk_step_defs = tk_step_def step_start_req_def step_req_method_def step_spaces_before_url_def step_schema_def
  step_url_def url_step_def step_http_start_def strict_next_def step_first_major_def step_major_def
  step_first_minor_def step_minor_def step_line_almost_done_def step_header_field_start_def
  step_header_field_def step_discard_ws_def step_header_value_start_def step_header_value_def value_char_def
  step_header_value_lws_def step_discard_lws_def step_headers_almost_done_def step_headers_done_def
  step_body_identity_def step_message_done_def step_chunk_size_start_def step_chunk_size_def
  step_chunk_parameters_def step_chunk_size_almost_done_def step_chunk_data_def step_chunk_data_almost_done_def
  step_chunk_data_done_def fail_def Let_def

text \<open>
  How often a byte can be executed again in a state; every \<^verbatim>\<open>goto reexecute_byte\<close> lowers it, so each
  byte is done after finitely many rounds.
\<close>

fun reexecutions :: "tk_state \<Rightarrow> nat" where
  "reexecutions S_header_value = 5"
| "reexecutions S_header_value_lws = 4"
| "reexecutions S_header_value_discard_lws = 4"
| "reexecutions S_header_field_start = 3"
| "reexecutions S_headers_almost_done = 2"
| "reexecutions S_body_identity = 2"
| "reexecutions S_dead = 0"
| "reexecutions st = 1"

definition progress :: "tokenizer \<Rightarrow> string \<Rightarrow> step_result \<Rightarrow> bool" where
  "progress tk rest r \<longleftrightarrow>
     (case r of
        Break n tk' as \<Rightarrow> 0 < n \<and> n \<le> length rest
      | Again n tk' as \<Rightarrow>
          n = 0 \<and> reexecutions (tk_state tk') < reexecutions (tk_state tk) \<or> 0 < n \<and> n < length rest
      | _ \<Rightarrow> True)"

lemma progress_simps [simp]:
  "progress tk rest (Break n tk' as) \<longleftrightarrow> 0 < n \<and> n \<le> length rest"
  "progress tk rest (Again n tk' as) \<longleftrightarrow>
     n = 0 \<and> reexecutions (tk_state tk') < reexecutions (tk_state tk) \<or> 0 < n \<and> n < length rest"
  "progress tk rest (Fail tk')" "progress tk rest (Leave tk' as)" "progress tk rest Abort"
  "progress tk rest (fail e tk')"
  by (simp_all add: progress_def fail_def)

lemma progress_url [simp]: "rest \<noteq> [] \<Longrightarrow> progress tk rest (url_step st tk' as ch)"
  by (simp add: url_step_def Let_def Suc_leI)

text \<open>The steps that never execute a byte again.\<close>

lemma progress_plain [simp]:
  assumes "rest \<noteq> []"
  shows
    "progress tk rest (step_start_req tk' ch)"
    and "progress tk rest (step_req_method tk' ch)"
    and "progress tk rest (step_spaces_before_url tk' ch)"
    and "progress tk rest (step_schema tk' ch)"
    and "progress tk rest (step_url tk' ch)"
    and "progress tk rest (step_http_start tk' ch)"
    and "progress tk rest (step_first_major tk' ch)"
    and "progress tk rest (step_major tk' ch)"
    and "progress tk rest (step_first_minor tk' ch)"
    and "progress tk rest (step_minor tk' ch)"
    and "progress tk rest (step_line_almost_done tk' ch)"
    and "progress tk rest (step_header_field tk' ch)"
    and "progress tk rest (step_header_value_start tk' ch)"
    and "progress tk rest (step_discard_ws tk' ch)"
    and "progress tk rest (value_char tk' ch)"
    and "progress tk rest (step_chunk_size_start tk' ch)"
    and "progress tk rest (step_chunk_size tk' ch)"
    and "progress tk rest (step_chunk_parameters tk' ch)"
    and "progress tk rest (step_chunk_size_almost_done tk' ch)"
    and "progress tk rest (step_chunk_data_almost_done tk' ch)"
    and "progress tk rest (step_chunk_data_done tk' ch)"
    and "progress tk rest (step_headers_done tk' ch)"
    and "progress tk rest (strict_next ch e st tk')" and "progress tk rest (step_message_done tk')"
    and "progress tk rest (step_chunk_data tk' rest)"
  using assms
  by (simp_all add: step_start_req_def step_req_method_def step_spaces_before_url_def step_schema_def step_url_def step_http_start_def step_first_major_def step_major_def step_first_minor_def step_minor_def step_line_almost_done_def step_header_field_def step_header_value_start_def step_discard_ws_def value_char_def step_chunk_size_start_def step_chunk_size_def step_chunk_parameters_def step_chunk_size_almost_done_def step_chunk_data_almost_done_def step_chunk_data_done_def step_headers_done_def
      strict_next_def step_message_done_def step_chunk_data_def Let_def Suc_leI split: option.split)

lemma tk_step_progress:
  assumes "rest \<noteq> []"
  shows "progress tk rest (tk_step tk ch rest)"
proof -
  have body: "progress tk rest (step_body_identity tk rest)" if "tk_state tk = S_body_identity"
  proof -
    have "min a (length rest) \<le> length rest" and "0 < length rest" for a :: nat using assms by simp_all
    then show ?thesis using that by (auto simp: step_body_identity_def Let_def)
  qed
  show ?thesis
    using assms body
    by (cases "tk_state tk")
      (simp_all add: tk_step_def Suc_leI step_header_field_start_def step_header_value_def step_header_value_lws_def
        step_discard_lws_def step_headers_almost_done_def Let_def)
qed

datatype exec_end = Consumed tokenizer | Stopped tokenizer string | Aborted

text \<open>The callbacks for the marks that are left when the buffer ends.\<close>

definition flush_marks :: "marks \<Rightarrow> tk_event list" where
  "flush_marks m = concat (map (\<lambda>k. CALLBACK_DATA k [] m) [M_header_field, M_header_value, M_url, M_body])"

text \<open>The assertion before them: at most one mark is set.\<close>

definition single_mark :: "marks \<Rightarrow> bool" where
  "single_mark m \<longleftrightarrow> length (filter (\<lambda>k. m k \<noteq> None) [M_header_field, M_header_value, M_url, M_body]) \<le> 1"

text \<open>\<^verbatim>\<open>++parser->nread\<close> for a byte of the header.\<close>

definition count_byte :: "tokenizer \<Rightarrow> tokenizer" where
  "count_byte tk = (if PARSING_HEADER (tk_state tk) then tk\<lparr>nread := nread tk + 1\<rparr> else tk)"

text \<open>
  The loop over the buffer from the current byte on; \<open>fresh\<close> says that the byte was not executed before.
  \<open>Stopped\<close> has the part of the buffer that the call does not count as parsed.
\<close>

function tk_loop :: "bool \<Rightarrow> tokenizer \<Rightarrow> marks \<Rightarrow> string \<Rightarrow> exec_end \<times> tk_event list" where
  "tk_loop fresh tk m [] = (if single_mark m then (Consumed tk, flush_marks m) else (Aborted, []))"
| "tk_loop fresh tk m (ch # rest) =
     (let tk0 = (if fresh then count_byte tk else tk) in
      if fresh \<and> PARSING_HEADER (tk_state tk) \<and> HTTP_MAX_HEADER_SIZE < nread tk0
      then (Stopped (tk0\<lparr>tk_errno := HPE_HEADER_OVERFLOW\<rparr>) (ch # rest), [])
      else case tk_step tk0 ch (ch # rest) of
        Break n tk1 as \<Rightarrow>
          let (m1, evs) = acts as m;
              (r, evs1) = tk_loop True tk1 (move_marks (take n (ch # rest)) m1) (drop n (ch # rest))
          in (r, evs @ evs1)
      | Again n tk1 as \<Rightarrow>
          let (m1, evs) = acts as m;
              (r, evs1) = tk_loop False tk1 (move_marks (take n (ch # rest)) m1) (drop n (ch # rest))
          in (r, evs @ evs1)
      | Fail tk1 \<Rightarrow> (Stopped tk1 (ch # rest), [])
      | Leave tk1 as \<Rightarrow> (Stopped tk1 rest, snd (acts as m))
      | Abort \<Rightarrow> (Aborted, []))"
  by pat_completeness auto
termination
proof (relation "measures [\<lambda>(_, _, _, s). length s, \<lambda>(_, tk, _, _). reexecutions (tk_state tk)]", goal_cases)
  case 1
  show ?case by simp
next
  case (2 fresh tk m ch rest tk0 n tk1 as x m1 evs)
  then show ?case using tk_step_progress [of "ch # rest" tk0 ch] by (auto simp: progress_def)
next
  case (3 fresh tk m ch rest tk0 n tk1 as x m1 evs)
  have "tk_state tk0 = tk_state tk" using 3(1) by (simp add: count_byte_def)
  then show ?case using 3 tk_step_progress [of "ch # rest" tk0 ch] by (auto simp: progress_def)
qed

declare tk_loop.simps [simp del]

text \<open>The marks that are set when a buffer begins.\<close>

definition url_states :: "tk_state set" where
  "url_states =
     {S_req_path, S_req_schema, S_req_schema_slash, S_req_schema_slash_slash, S_req_server_start, S_req_server,
      S_req_server_with_at, S_req_query_string_start, S_req_query_string, S_req_fragment_start, S_req_fragment}"

definition start_marks :: "tk_state \<Rightarrow> marks" where
  "start_marks st =
     (\<lambda>k. if k = M_header_field \<and> st = S_header_field \<or> k = M_header_value \<and> st = S_header_value \<or>
              k = M_url \<and> st \<in> url_states
           then Some [] else None)"

text \<open>
  \<^verbatim>\<open>http_parser_execute\<close>: the parser afterwards, the number of bytes it reports as parsed and the
  callbacks; \<open>None\<close> when it aborts.
\<close>

definition http_parser_execute :: "tokenizer \<Rightarrow> string \<Rightarrow> (tokenizer \<times> nat \<times> tk_event list) option" where
  "http_parser_execute tk data =
     (if tk_errno tk \<noteq> HPE_OK then Some (tk, 0, [])
      else if data = [] then
        (if tk_state tk = S_dead \<or> tk_state tk = S_start_req then Some (tk, 0, [])
         else Some (tk\<lparr>tk_errno := HPE_INVALID_EOF_STATE\<rparr>, 1, []))
      else case tk_loop True tk (start_marks (tk_state tk)) data of
             (Consumed tk1, evs) \<Rightarrow> Some (tk1, length data, evs)
           | (Stopped tk1 left, evs) \<Rightarrow> Some (tk1, length data - length left, evs)
           | (Aborted, evs) \<Rightarrow> None)"

end
