(* ===== verification/Crow_Tokenizer_Marks.thy ===== *)
theory Crow_Tokenizer_Marks
  imports Crow_Tokenizer
begin

text \<open>
  The marks of the tokenizer. The code keeps one pointer for each kind of text and sets, uses and clears them
  in different states; the lemmas show that the state decides which of them can be set, and what a byte
  can do to it.
\<close>

section \<open>States and marks\<close>

text \<open>The text that a state is in the middle of, and so the mark that may be set.\<close>

definition mark_of :: "tk_state \<Rightarrow> mark_kind option" where
  "mark_of st =
     (if st \<in> url_states then Some M_url
      else if st = S_header_field then Some M_header_field
      else if st = S_header_value then Some M_header_value
      else if st = S_body_identity \<or> st = S_chunk_data \<or> st = S_chunk_data_almost_done then Some M_body
      else None)"

definition marks_ok :: "tk_state \<Rightarrow> marks \<Rightarrow> bool" where
  "marks_ok st m \<longleftrightarrow>
     (\<forall>k. m k \<noteq> None \<longrightarrow> mark_of st = Some k) \<and> (\<forall>k. mark_of st = Some k \<and> k \<noteq> M_body \<longrightarrow> m k \<noteq> None)"

text \<open>The actions of a byte, by the states before and after it.\<close>

definition shape :: "tk_state \<Rightarrow> tk_state \<Rightarrow> action list \<Rightarrow> bool" where
  "shape st st' as \<longleftrightarrow>
     (case mark_of st of
        None \<Rightarrow>
          as = [] \<and> mark_of st' \<in> {None, Some M_body}
          \<or> (\<exists>e. as = [A_notify e]) \<and> mark_of st' = None
          \<or> (\<exists>k. as = [A_mark k] \<and> k \<noteq> M_body \<and> mark_of st' = Some k)
          \<or> (\<exists>k. as = [A_mark k, A_callback k]) \<and> mark_of st' = None
      | Some k \<Rightarrow>
          as = [] \<and> k \<noteq> M_body \<and> mark_of st' = Some k
          \<or> as = [A_callback k] \<and> mark_of st' = None
          \<or> as = [A_mark k] \<and> k = M_body \<and> mark_of st' = Some k
          \<or> (\<exists>s. as = [A_mark k, A_callback_body s]) \<and> k = M_body \<and> mark_of st' = None)"

definition step_shape :: "tk_state \<Rightarrow> step_result \<Rightarrow> bool" where
  "step_shape st r \<longleftrightarrow>
     (case r of
        Break n tk as \<Rightarrow> shape st (tk_state tk) as
      | Again n tk as \<Rightarrow> shape st (tk_state tk) as
      | Leave tk as \<Rightarrow> mark_of st = None \<and> (\<exists>e. as = [A_notify e])
      | _ \<Rightarrow> True)"

lemma step_shape_simps [simp]:
  "step_shape st (Break n tk as) \<longleftrightarrow> shape st (tk_state tk) as"
  "step_shape st (Again n tk as) \<longleftrightarrow> shape st (tk_state tk) as"
  "step_shape st (Fail tk)" "step_shape st Abort" "step_shape st (fail e tk)"
  "step_shape st (Leave tk as) \<longleftrightarrow> mark_of st = None \<and> (\<exists>e. as = [A_notify e])"
  by (simp_all add: step_shape_def fail_def)

lemma mark_of_simps [simp]:
  "mark_of S_dead = None" "mark_of S_start_req = None" "mark_of S_req_method = None"
  "mark_of S_req_spaces_before_url = None" "mark_of S_req_http_start = None" "mark_of S_req_http_H = None"
  "mark_of S_req_http_HT = None" "mark_of S_req_http_HTT = None" "mark_of S_req_http_HTTP = None"
  "mark_of S_req_first_http_major = None" "mark_of S_req_http_major = None"
  "mark_of S_req_first_http_minor = None" "mark_of S_req_http_minor = None"
  "mark_of S_req_line_almost_done = None" "mark_of S_header_field_start = None"
  "mark_of S_header_field = Some M_header_field" "mark_of S_header_value_discard_ws = None"
  "mark_of S_header_value_discard_ws_almost_done = None" "mark_of S_header_value_discard_lws = None"
  "mark_of S_header_value_start = None" "mark_of S_header_value = Some M_header_value"
  "mark_of S_header_value_lws = None" "mark_of S_header_almost_done = None"
  "mark_of S_headers_almost_done = None" "mark_of S_headers_done = None" "mark_of S_chunk_size_start = None"
  "mark_of S_chunk_size = None" "mark_of S_chunk_parameters = None" "mark_of S_chunk_size_almost_done = None"
  "mark_of S_chunk_data = Some M_body" "mark_of S_chunk_data_almost_done = Some M_body"
  "mark_of S_chunk_data_done = None" "mark_of S_body_identity = Some M_body" "mark_of S_message_done = None"
  by (simp_all add: mark_of_def url_states_def)

lemma mark_of_url: "st \<in> url_states \<Longrightarrow> mark_of st = Some M_url"
  by (simp add: mark_of_def)


lemma shape_idle [simp]:
  "mark_of st = None \<Longrightarrow> shape st st' [] \<longleftrightarrow> mark_of st' \<in> {None, Some M_body}"
  "mark_of st = None \<Longrightarrow> shape st st' [A_notify e] \<longleftrightarrow> mark_of st' = None"
  "mark_of st = None \<Longrightarrow> shape st st' [A_mark k] \<longleftrightarrow> k \<noteq> M_body \<and> mark_of st' = Some k"
  "mark_of st = None \<Longrightarrow> shape st st' [A_mark k, A_callback k'] \<longleftrightarrow> k = k' \<and> mark_of st' = None"
  by (auto simp: shape_def)

lemma shape_busy [simp]:
  "mark_of st = Some k \<Longrightarrow> shape st st' [] \<longleftrightarrow> k \<noteq> M_body \<and> mark_of st' = Some k"
  "mark_of st = Some k \<Longrightarrow> shape st st' [A_callback k'] \<longleftrightarrow> k' = k \<and> mark_of st' = None"
  "mark_of st = Some k \<Longrightarrow> shape st st' [A_mark k'] \<longleftrightarrow> k' = k \<and> k = M_body \<and> mark_of st' = Some k"
  "mark_of st = Some k \<Longrightarrow> shape st st' [A_mark k', A_callback_body s] \<longleftrightarrow> k' = k \<and> k = M_body \<and> mark_of st' = None"
  by (auto simp: shape_def)

lemma parse_url_target:
  "st \<in> url_states \<union> {S_req_spaces_before_url} \<Longrightarrow> parse_url_char st ch \<in> insert S_dead url_states"
  by (cases "(st, ch)" rule: parse_url_state.cases) (auto simp: parse_url_char_def url_states_def)

lemma parse_url_mark:
  "st \<in> url_states \<union> {S_req_spaces_before_url} \<Longrightarrow> parse_url_char st ch \<noteq> S_dead \<Longrightarrow>
     mark_of (parse_url_char st ch) = Some M_url"
  using parse_url_target [of st ch] by (auto intro: mark_of_url)

lemma mark_NEW_MESSAGE [simp]: "mark_of (NEW_MESSAGE tk) = None"
  by (simp add: NEW_MESSAGE_def)

lemma message_end_state [simp]: "tk_state (message_end tk) = NEW_MESSAGE tk"
  by (simp add: message_end_def)

lemma field_char_state: "field_char tk ch c = Some tk' \<Longrightarrow> tk_state tk' = tk_state tk"
  by (auto simp: field_char_def Let_def split: if_splits)

lemma value_start_state: "value_start tk ch = Some tk' \<Longrightarrow> tk_state tk' = tk_state tk"
  by (auto simp: value_start_def Let_def split: if_splits)

lemma length_digit_state: "length_digit base tk d = Some tk' \<Longrightarrow> tk_state tk' = tk_state tk"
  by (auto simp: length_digit_def Let_def split: if_splits)

text \<open>The request line.\<close>

lemma shape_request_line:
  "tk_state tk = S_start_req \<Longrightarrow> step_shape (tk_state tk) (step_start_req tk ch)"
  "tk_state tk = S_req_method \<Longrightarrow> step_shape (tk_state tk) (step_req_method tk ch)"
  "tk_state tk = S_req_http_start \<Longrightarrow> step_shape (tk_state tk) (step_http_start tk ch)"
  "tk_state tk = S_req_first_http_major \<Longrightarrow> step_shape (tk_state tk) (step_first_major tk ch)"
  "tk_state tk = S_req_http_major \<Longrightarrow> step_shape (tk_state tk) (step_major tk ch)"
  "tk_state tk = S_req_first_http_minor \<Longrightarrow> step_shape (tk_state tk) (step_first_minor tk ch)"
  "tk_state tk = S_req_http_minor \<Longrightarrow> step_shape (tk_state tk) (step_minor tk ch)"
  "tk_state tk = S_req_line_almost_done \<Longrightarrow> step_shape (tk_state tk) (step_line_almost_done tk ch)"
  "mark_of (tk_state tk) = None \<Longrightarrow> mark_of st = None \<Longrightarrow> step_shape (tk_state tk) (strict_next ch e st tk)"
  by (simp_all add: step_start_req_def step_req_method_def step_http_start_def step_first_major_def step_major_def
      step_first_minor_def step_minor_def step_line_almost_done_def strict_next_def Let_def split: option.split)

lemma shape_url:
  "tk_state tk \<in> url_states \<Longrightarrow> step_shape (tk_state tk) (step_schema tk ch)"
  "tk_state tk \<in> url_states \<Longrightarrow> step_shape (tk_state tk) (step_url tk ch)"
  "tk_state tk = S_req_spaces_before_url \<Longrightarrow> step_shape (tk_state tk) (step_spaces_before_url tk ch)"
  using parse_url_mark [of "tk_state tk" ch] parse_url_mark [of S_req_server_start ch]
  by (auto simp: step_schema_def step_url_def step_spaces_before_url_def url_step_def Let_def mark_of_url)
    (simp_all add: url_states_def)

text \<open>The headers.\<close>

lemma shape_value_start:
  "mark_of (tk_state tk) = None \<Longrightarrow> step_shape (tk_state tk) (step_header_value_start tk ch)"
  by (auto simp: step_header_value_start_def Let_def dest: value_start_state split: option.split)

lemma shape_value_char:
  assumes "tk_state tk = S_header_value"
  shows "step_shape (tk_state tk) (value_char tk ch)"
proof -
  have "step_shape (tk_state tk) (case length_digit 10 tk d of None \<Rightarrow> fail e tk | Some tk \<Rightarrow> next_byte tk)" for d e
    using assms by (auto dest: length_digit_state split: option.split)
  then show ?thesis using assms by (simp add: value_char_def Let_def)
qed

lemma finish_header_state [simp]: "tk_state (finish_header tk) = tk_state tk"
  by (simp add: finish_header_def Let_def)

lemma shape_headers:
  "tk_state tk = S_header_field_start \<Longrightarrow> step_shape (tk_state tk) (step_header_field_start tk ch)"
  "tk_state tk = S_header_field \<Longrightarrow> step_shape (tk_state tk) (step_header_field tk ch)"
  "tk_state tk = S_header_value_discard_ws \<Longrightarrow> step_shape (tk_state tk) (step_discard_ws tk ch)"
  "tk_state tk = S_header_value \<Longrightarrow> step_shape (tk_state tk) (step_header_value tk ch)"
  "tk_state tk = S_header_value_lws \<Longrightarrow> step_shape (tk_state tk) (step_header_value_lws tk ch)"
  "tk_state tk = S_header_value_discard_lws \<Longrightarrow> step_shape (tk_state tk) (step_discard_lws tk ch)"
  "tk_state tk = S_headers_almost_done \<Longrightarrow> step_shape (tk_state tk) (step_headers_almost_done tk ch)"
  "tk_state tk = S_headers_done \<Longrightarrow> step_shape (tk_state tk) (step_headers_done tk ch)"
  using shape_value_start [of tk ch] shape_value_char [of tk ch]
  by (auto simp: step_header_field_start_def step_header_field_def step_discard_ws_def step_header_value_def
      step_header_value_lws_def step_discard_lws_def step_headers_almost_done_def step_headers_done_def Let_def
      dest: field_char_state split: option.split)

text \<open>The body.\<close>

lemma shape_body:
  "tk_state tk = S_body_identity \<Longrightarrow> step_shape (tk_state tk) (step_body_identity tk rest)"
  "tk_state tk = S_message_done \<Longrightarrow> step_shape (tk_state tk) (step_message_done tk)"
  "tk_state tk = S_chunk_size_start \<Longrightarrow> step_shape (tk_state tk) (step_chunk_size_start tk ch)"
  "tk_state tk = S_chunk_parameters \<Longrightarrow> step_shape (tk_state tk) (step_chunk_parameters tk ch)"
  "tk_state tk = S_chunk_size_almost_done \<Longrightarrow> step_shape (tk_state tk) (step_chunk_size_almost_done tk ch)"
  "tk_state tk = S_chunk_data \<Longrightarrow> step_shape (tk_state tk) (step_chunk_data tk rest)"
  "tk_state tk = S_chunk_data_almost_done \<Longrightarrow> step_shape (tk_state tk) (step_chunk_data_almost_done tk ch)"
  "tk_state tk = S_chunk_data_done \<Longrightarrow> step_shape (tk_state tk) (step_chunk_data_done tk ch)"
  by (simp_all add: step_body_identity_def step_message_done_def step_chunk_size_start_def step_chunk_parameters_def
      step_chunk_size_almost_done_def step_chunk_data_def step_chunk_data_almost_done_def
      step_chunk_data_done_def Let_def split: option.split)

lemma shape_chunk_size:
  "tk_state tk = S_chunk_size \<Longrightarrow> step_shape (tk_state tk) (step_chunk_size tk ch)"
  by (auto simp: step_chunk_size_def dest: length_digit_state split: option.split)

lemma tk_step_shape: "step_shape (tk_state tk) (tk_step tk ch rest)"
proof -
  have u: "st \<in> url_states" if "st \<in> {S_req_path, S_req_schema, S_req_schema_slash, S_req_schema_slash_slash,
      S_req_server_start, S_req_server, S_req_server_with_at, S_req_query_string_start, S_req_query_string,
      S_req_fragment_start, S_req_fragment}" for st
    using that by (simp add: url_states_def)
  show ?thesis
    using shape_request_line [of tk] shape_url [of tk ch] shape_value_start [of tk ch] shape_headers [of tk ch] shape_body [of tk]
      shape_chunk_size [of tk ch]
    by (cases "tk_state tk") (simp_all add: tk_step_def u)
qed

section \<open>Marks\<close>

lemma marks_ok_move [simp]: "marks_ok st (move_marks s m) \<longleftrightarrow> marks_ok st m"
  by (simp add: marks_ok_def move_marks_def)

lemma marks_ok_none: "mark_of st = None \<Longrightarrow> marks_ok st m \<longleftrightarrow> m = (\<lambda>k. None)"
  by (auto simp: marks_ok_def)

lemma marks_ok_single: "marks_ok st m \<Longrightarrow> single_mark m"
proof (cases "mark_of st")
  case None
  then show "marks_ok st m \<Longrightarrow> single_mark m" by (simp add: marks_ok_none single_mark_def)
next
  case (Some a)
  then show "marks_ok st m \<Longrightarrow> single_mark m" by (cases a) (auto simp: marks_ok_def single_mark_def)
qed

lemma start_marks_ok: "marks_ok st (start_marks st)"
  by (auto simp: marks_ok_def start_marks_def mark_of_def url_states_def split: if_splits)

lemma shape_marks:
  assumes "shape st st' as" and "marks_ok st m"
  shows "marks_ok st' (fst (acts as m))"
proof (cases "mark_of st")
  case None
  then have "m = (\<lambda>k. None)" using assms(2) by (simp add: marks_ok_none)
  then show ?thesis using assms(1) None by (auto simp: shape_def marks_ok_def split: if_splits)
next
  case (Some k)
  then show ?thesis
    using assms by (auto simp: shape_def marks_ok_def split: option.splits if_splits) blast+
qed

section \<open>The error number\<close>

text \<open>Only a failure sets it.\<close>

definition errno_kept :: "tokenizer \<Rightarrow> step_result \<Rightarrow> bool" where
  "errno_kept tk r \<longleftrightarrow>
     (case r of
        Break n tk' as \<Rightarrow> tk_errno tk' = tk_errno tk
      | Again n tk' as \<Rightarrow> tk_errno tk' = tk_errno tk
      | Leave tk' as \<Rightarrow> tk_errno tk' = tk_errno tk
      | _ \<Rightarrow> True)"

lemma errno_kept_simps [simp]:
  "errno_kept tk (Break n tk' as) \<longleftrightarrow> tk_errno tk' = tk_errno tk"
  "errno_kept tk (Again n tk' as) \<longleftrightarrow> tk_errno tk' = tk_errno tk"
  "errno_kept tk (Leave tk' as) \<longleftrightarrow> tk_errno tk' = tk_errno tk"
  "errno_kept tk (Fail tk')" "errno_kept tk (fail e tk')" "errno_kept tk Abort"
  by (simp_all add: errno_kept_def fail_def)

lemma part_errno [simp]:
  "tk_errno (message_end tk) = tk_errno tk" "tk_errno (finish_header tk) = tk_errno tk"
  by (simp_all add: message_end_def finish_header_def Let_def)

lemma part_errno_Some [dest]:
  "field_char tk ch c = Some tk' \<Longrightarrow> tk_errno tk' = tk_errno tk"
  "value_start tk ch = Some tk' \<Longrightarrow> tk_errno tk' = tk_errno tk"
  "length_digit base tk d = Some tk' \<Longrightarrow> tk_errno tk' = tk_errno tk"
  by (auto simp: field_char_def value_start_def length_digit_def Let_def split: if_splits)

lemma url_errno:
  "errno_kept tk (step_schema tk ch)" "errno_kept tk (step_url tk ch)" "errno_kept tk (step_spaces_before_url tk ch)"
  by (simp_all add: step_schema_def step_url_def step_spaces_before_url_def url_step_def Let_def)

lemma line_errno:
  "errno_kept tk (step_start_req tk ch)" "errno_kept tk (step_req_method tk ch)" "errno_kept tk (step_http_start tk ch)"
  "errno_kept tk (step_first_major tk ch)" "errno_kept tk (step_major tk ch)" "errno_kept tk (step_first_minor tk ch)"
  "errno_kept tk (step_minor tk ch)" "errno_kept tk (step_line_almost_done tk ch)"
  "errno_kept tk (strict_next ch e st tk)"
  by (simp_all add: step_start_req_def step_req_method_def step_http_start_def step_first_major_def step_major_def
      step_first_minor_def step_minor_def step_line_almost_done_def strict_next_def Let_def split: option.split)

lemma value_errno: "errno_kept tk (step_header_value_start tk ch)" "errno_kept tk (value_char tk ch)"
  by (auto simp: step_header_value_start_def value_char_def Let_def split: option.split)

lemma header_errno:
  "errno_kept tk (step_header_field_start tk ch)" "errno_kept tk (step_header_field tk ch)"
  "errno_kept tk (step_discard_ws tk ch)" "errno_kept tk (step_header_value tk ch)"
  "errno_kept tk (step_header_value_lws tk ch)" "errno_kept tk (step_discard_lws tk ch)"
  "errno_kept tk (step_headers_almost_done tk ch)" "errno_kept tk (step_headers_done tk ch)"
  using value_errno [of tk ch]
  by (auto simp: step_header_field_start_def step_header_field_def step_discard_ws_def step_header_value_def
      step_header_value_lws_def step_discard_lws_def step_headers_almost_done_def step_headers_done_def Let_def
      split: option.split)

lemma body_errno:
  "errno_kept tk (step_body_identity tk rest)" "errno_kept tk (step_message_done tk)"
  "errno_kept tk (step_chunk_size_start tk ch)" "errno_kept tk (step_chunk_size tk ch)"
  "errno_kept tk (step_chunk_parameters tk ch)" "errno_kept tk (step_chunk_size_almost_done tk ch)"
  "errno_kept tk (step_chunk_data tk rest)" "errno_kept tk (step_chunk_data_almost_done tk ch)"
  "errno_kept tk (step_chunk_data_done tk ch)"
  by (auto simp: step_body_identity_def step_message_done_def step_chunk_size_start_def step_chunk_size_def
      step_chunk_parameters_def step_chunk_size_almost_done_def step_chunk_data_def step_chunk_data_almost_done_def
      step_chunk_data_done_def Let_def split: option.split)

lemma tk_step_errno: "errno_kept tk (tk_step tk ch rest)"
  using url_errno [of tk ch] line_errno [of tk ch] value_errno [of tk ch] header_errno [of tk ch] body_errno [of tk]
  by (cases "tk_state tk") (simp_all add: tk_step_def)

end
