(* ===== verification/Crow_Tokenizer_Props.thy ===== *)
theory Crow_Tokenizer_Props
  imports Crow_Tokenizer_Marks Step_System
begin

text \<open>
  Properties of the tokenizer for all inputs: no assertion of \<^verbatim>\<open>http_parser_execute\<close> ever fails, and it does not
  matter how the bytes of a connection are distributed over the buffers it is called with.
\<close>

section \<open>No assertion fails\<close>

definition chunk_states :: "tk_state set" where
  "chunk_states =
     {S_chunk_size_start, S_chunk_size, S_chunk_parameters, S_chunk_size_almost_done, S_chunk_data,
      S_chunk_data_almost_done, S_chunk_data_done}"

definition field_header_states :: "tk_header_state set" where
  "field_header_states =
     {H_general, H_C, H_CO, H_CON, H_matching_connection, H_matching_proxy_connection, H_matching_content_length,
      H_matching_transfer_encoding, H_matching_upgrade, H_connection, H_content_length, H_transfer_encoding,
      H_upgrade}"

text \<open>What holds between two bytes, apart from the count of header bytes.\<close>

definition tk_core :: "tokenizer \<Rightarrow> bool" where
  "tk_core tk \<longleftrightarrow>
     (tk_state tk = S_header_field \<longrightarrow> header_state tk \<in> field_header_states) \<and>
     (tk_state tk = S_header_value \<longrightarrow> header_state tk \<notin> {H_connection, H_transfer_encoding}) \<and>
     (tk_state tk = S_req_method \<longrightarrow>
        tk_method tk < length method_strings \<and> tk_index tk \<le> length (method_strings ! tk_method tk)) \<and>
     (tk_state tk \<in> chunk_states \<longrightarrow> F_CHUNKED \<in> flags tk) \<and>
     content_length tk \<le> ULLONG_MAX \<and>
     (tk_state tk \<in> {S_chunk_size, S_chunk_parameters, S_chunk_size_almost_done, S_chunk_data, S_body_identity} \<longrightarrow>
        content_length tk < ULLONG_MAX) \<and>
     (tk_state tk \<in> {S_chunk_data, S_body_identity} \<longrightarrow> 0 < content_length tk) \<and>
     (tk_state tk = S_chunk_data_almost_done \<longrightarrow> content_length tk = 0)"

definition tk_inv :: "tokenizer \<Rightarrow> bool" where
  "tk_inv tk \<longleftrightarrow> tk_core tk \<and> (tk_state tk = S_chunk_size_start \<longrightarrow> nread tk = 0)"

definition step_ok :: "step_result \<Rightarrow> bool" where
  "step_ok r \<longleftrightarrow>
     (case r of
        Break n tk as \<Rightarrow> tk_inv tk
      | Again n tk as \<Rightarrow> tk_core tk \<and> tk_state tk \<noteq> S_chunk_size_start
      | Fail tk \<Rightarrow> tk_errno tk \<noteq> HPE_OK
      | Leave tk as \<Rightarrow> tk_inv tk
      | Abort \<Rightarrow> False)"

lemma step_ok_simps [simp]:
  "step_ok (Break n tk as) \<longleftrightarrow> tk_inv tk"
  "step_ok (Again n tk as) \<longleftrightarrow> tk_core tk \<and> tk_state tk \<noteq> S_chunk_size_start"
  "step_ok (Fail tk) \<longleftrightarrow> tk_errno tk \<noteq> HPE_OK" "step_ok (Leave tk as) \<longleftrightarrow> tk_inv tk" "\<not> step_ok Abort"
  "step_ok (fail e tk) \<longleftrightarrow> e \<noteq> HPE_OK"
  by (simp_all add: step_ok_def fail_def)

text \<open>States that the invariant says nothing special about.\<close>

definition quiet :: "tk_state \<Rightarrow> bool" where
  "quiet st \<longleftrightarrow>
     st \<notin> {S_header_field, S_header_value, S_req_method, S_body_identity} \<and> st \<notin> chunk_states"

lemma tk_inv_quiet: "quiet (tk_state tk) \<Longrightarrow> tk_inv tk \<longleftrightarrow> content_length tk \<le> ULLONG_MAX"
  by (auto simp: tk_inv_def tk_core_def quiet_def chunk_states_def)

lemma tk_core_quiet: "quiet (tk_state tk) \<Longrightarrow> tk_core tk \<longleftrightarrow> content_length tk \<le> ULLONG_MAX"
  by (auto simp: tk_core_def quiet_def chunk_states_def)

lemma tk_core_length: "tk_core tk \<Longrightarrow> content_length tk \<le> ULLONG_MAX"
  by (simp add: tk_core_def)

lemma parse_url_char_quiet: "quiet (parse_url_char st ch)"
proof -
  have "quiet (parse_url_state st ch)"
    by (cases "(st, ch)" rule: parse_url_state.cases) (auto simp: quiet_def chunk_states_def)
  then show ?thesis by (simp add: parse_url_char_def quiet_def chunk_states_def)
qed

lemma NEW_MESSAGE_quiet: "quiet (NEW_MESSAGE tk)"
  by (simp add: NEW_MESSAGE_def quiet_def chunk_states_def)

lemma message_end_inv [simp]: "tk_inv (message_end tk) \<longleftrightarrow> content_length tk \<le> ULLONG_MAX"
  using NEW_MESSAGE_quiet [of tk] by (simp add: tk_inv_quiet message_end_def)

lemma digit_bound: "IS_NUM ch \<Longrightarrow> digit_of ch \<le> 9"
  unfolding IS_NUM_def digit_of_def by linarith

lemma unhex_bound: "unhex ch = Some v \<Longrightarrow> v \<le> 15"
  by (auto simp: unhex_def Let_def split: if_splits)

lemma length_digit_bound:
  assumes "length_digit base tk d = Some tk'" and "d < base" and "base = 10 \<or> base = 16"
  shows "content_length tk' < ULLONG_MAX"
proof -
  let ?c = "content_length tk"
  have c: "?c \<le> (ULLONG_MAX - base) div base" and tk': "tk' = tk\<lparr>content_length := (?c * base + d) mod 2 ^ 64\<rparr>"
    using assms(1) by (auto simp: length_digit_def Let_def split: if_splits)
  have "?c * base + d < ULLONG_MAX"
    using c assms(2,3) by (auto simp: ULLONG_MAX_def)
  moreover from this have "(?c * base + d) mod 2 ^ 64 = ?c * base + d"
    by (intro mod_less) (simp add: ULLONG_MAX_def)
  ultimately show ?thesis by (simp add: tk')
qed

lemma length_digit_frame:
  "length_digit base tk d = Some tk' \<Longrightarrow> \<exists>n. tk' = tk\<lparr>content_length := n\<rparr>"
  by (auto simp: length_digit_def Let_def split: if_splits)

lemma match_next_cases: "match_next const same hit c i \<in> {H_general, hit, same}"
  by (simp add: match_next_def)

lemma field_char_frame:
  "field_char tk ch c = Some tk' \<Longrightarrow>
     tk_state tk' = tk_state tk \<and> flags tk' = flags tk \<and> content_length tk' = content_length tk \<and>
     nread tk' = nread tk \<and> tk_errno tk' = tk_errno tk"
  by (auto simp: field_char_def Let_def split: if_splits)

lemma field_char_ok:
  assumes "header_state tk \<in> field_header_states"
  shows "\<exists>tk'. field_char tk ch c = Some tk' \<and> header_state tk' \<in> field_header_states"
proof -
  have "match_next const same hit c i \<in> field_header_states"
    if "same \<in> field_header_states" "hit \<in> field_header_states" for const same hit i
    using match_next_cases [of const same hit c i] that by (auto simp: field_header_states_def)
  then show ?thesis
    using assms
    by (cases "header_state tk") (simp_all add: field_char_def field_header_states_def Let_def)
qed

lemma value_start_ok:
  "value_start tk ch = Some tk' \<Longrightarrow>
     tk_state tk' = tk_state tk \<and> nread tk' = nread tk \<and> tk_errno tk' = tk_errno tk \<and>
     header_state tk' \<notin> {H_connection, H_transfer_encoding} \<and>
     (content_length tk' = content_length tk \<or> content_length tk' \<le> 9)"
  using digit_bound [of ch] by (auto simp: value_start_def Let_def split: if_splits)

lemma method_lengths:
  "switch_method k i ch = Some k' \<Longrightarrow> k' < length method_strings \<and> Suc i \<le> length (method_strings ! k')"
  by (auto simp: switch_method_def method_strings_def split: if_splits)

lemma first_method_length:
  "first_method ch = Some k \<Longrightarrow> k < length method_strings \<and> 1 \<le> length (method_strings ! k)"
  by (auto simp: first_method_def method_strings_def split: if_splits)

lemma tk_inv_to [simp]:
  "quiet st \<Longrightarrow> content_length tk \<le> ULLONG_MAX \<Longrightarrow> tk_inv (tk\<lparr>tk_state := st\<rparr>)"
  "quiet st \<Longrightarrow> content_length tk \<le> ULLONG_MAX \<Longrightarrow> tk_core (tk\<lparr>tk_state := st\<rparr>)"
  by (simp_all add: tk_inv_quiet tk_core_quiet)

lemma quiet_simps [simp]:
  "quiet S_dead" "quiet S_start_req" "quiet S_req_spaces_before_url" "quiet S_req_http_start" "quiet S_req_http_H"
  "quiet S_req_http_HT" "quiet S_req_http_HTT" "quiet S_req_http_HTTP" "quiet S_req_first_http_major"
  "quiet S_req_http_major" "quiet S_req_first_http_minor" "quiet S_req_http_minor" "quiet S_req_line_almost_done"
  "quiet S_header_field_start" "quiet S_header_value_discard_ws" "quiet S_header_value_discard_ws_almost_done"
  "quiet S_header_value_discard_lws" "quiet S_header_value_start" "quiet S_header_value_lws"
  "quiet S_header_almost_done" "quiet S_headers_almost_done" "quiet S_headers_done" "quiet S_message_done"
  by (simp_all add: quiet_def chunk_states_def)

lemma quiet_url: "st \<in> url_states \<Longrightarrow> quiet st"
  by (auto simp: url_states_def quiet_def chunk_states_def)

lemma url_step_ok: "content_length tk \<le> ULLONG_MAX \<Longrightarrow> step_ok (url_step st tk as ch)"
  using parse_url_char_quiet [of st ch] by (simp add: url_step_def Let_def tk_inv_quiet)

lemma request_line_ok:
  assumes "tk_core tk" and "quiet (tk_state tk)"
  shows "step_ok (step_start_req tk ch)" "step_ok (step_spaces_before_url tk ch)" "step_ok (step_schema tk ch)"
    "step_ok (step_url tk ch)" "step_ok (step_http_start tk ch)" "step_ok (step_first_major tk ch)"
    "step_ok (step_major tk ch)" "step_ok (step_first_minor tk ch)" "step_ok (step_minor tk ch)"
    "step_ok (step_line_almost_done tk ch)" "quiet st \<Longrightarrow> step_ok (strict_next ch e st tk)"
proof -
  have l: "content_length tk \<le> ULLONG_MAX" using assms(1) by (rule tk_core_length)
  show "step_ok (step_start_req tk ch)"
  proof (cases "first_method ch")
    case (Some k)
    let ?tk = "tk\<lparr>flags := {}, content_length := ULLONG_MAX, tk_index := 1, tk_method := k, tk_state := S_req_method\<rparr>"
    have "tk_inv ?tk"
      using first_method_length [OF Some] by (simp add: tk_inv_def tk_core_def chunk_states_def)
    then show ?thesis using Some l assms(2) by (simp add: step_start_req_def Let_def tk_inv_quiet)
  qed (use l assms(2) in \<open>simp add: step_start_req_def Let_def tk_inv_quiet\<close>)
  show "step_ok (step_spaces_before_url tk ch)" "step_ok (step_schema tk ch)" "step_ok (step_url tk ch)"
    using l assms(2) by (simp_all add: step_spaces_before_url_def step_schema_def step_url_def url_step_ok tk_inv_quiet)
  show "step_ok (step_http_start tk ch)" "step_ok (step_first_major tk ch)"
    "step_ok (step_major tk ch)" "step_ok (step_first_minor tk ch)" "step_ok (step_minor tk ch)"
    "step_ok (step_line_almost_done tk ch)" "quiet st \<Longrightarrow> step_ok (strict_next ch e st tk)"
    using l assms(2)
    by (simp_all add: step_http_start_def step_first_major_def step_major_def step_first_minor_def step_minor_def
        step_line_almost_done_def strict_next_def Let_def tk_inv_quiet)
qed

lemma method_ok:
  assumes core: "tk_core tk" and st: "tk_state tk = S_req_method"
  shows "step_ok (step_req_method tk ch)"
proof -
  let ?s = "method_strings ! tk_method tk" and ?i = "tk_index tk"
  have i: "tk_method tk < length method_strings" "?i \<le> length ?s" and l: "content_length tk \<le> ULLONG_MAX"
    using core st by (auto simp: tk_core_def)
  have inv: "tk_inv (tk\<lparr>tk_method := k, tk_index := Suc ?i\<rparr>)"
    if "k < length method_strings" "Suc ?i \<le> length (method_strings ! k)" for k
    using that l st by (simp add: tk_inv_def tk_core_def chunk_states_def)
  have "?i < length ?s" if "const_at ?s ?i = Some ch" "ch \<noteq> NUL_chr"
    using that by (auto simp: const_at_def split: if_splits)
  moreover have "const_at ?s ?i \<noteq> None" using i(2) by (simp add: const_at_def)
  ultimately show ?thesis
    using inv [of "tk_method tk"] inv i l st method_lengths [of "tk_method tk" ?i ch]
    by (auto simp: step_req_method_def tk_inv_quiet split: option.split)
qed

lemma header_ok:
  assumes core: "tk_core tk"
  shows "step_ok (step_header_field_start tk ch)"
    and "tk_state tk = S_header_field \<Longrightarrow> step_ok (step_header_field tk ch)"
    and "step_ok (step_header_value_start tk ch)"
    and "tk_state tk = S_header_value_discard_ws \<Longrightarrow> step_ok (step_discard_ws tk ch)"
    and "tk_state tk = S_header_value \<Longrightarrow> step_ok (step_header_value tk ch)"
    and "step_ok (step_header_value_lws tk ch)" and "step_ok (step_discard_lws tk ch)"
    and "step_ok (step_headers_almost_done tk ch)" and "step_ok (step_headers_done tk ch)"
proof -
  have l: "content_length tk \<le> ULLONG_MAX" using core by (rule tk_core_length)
  show "step_ok (step_header_field_start tk ch)"
    using l by (simp add: step_header_field_start_def Let_def tk_inv_def tk_core_def chunk_states_def
        field_header_states_def)
  show "step_ok (step_header_field tk ch)" if st: "tk_state tk = S_header_field"
  proof -
    have "header_state tk \<in> field_header_states" using core st by (simp add: tk_core_def)
    then obtain tk' where tk': "field_char tk ch (tokens ch) = Some tk'" "header_state tk' \<in> field_header_states"
      using field_char_ok by blast
    have "tk_inv tk'" using tk' field_char_frame [OF tk'(1)] st l
      by (simp add: tk_inv_def tk_core_def chunk_states_def)
    then show ?thesis using tk' l by (simp add: step_header_field_def Let_def)
  qed
  show vs: "step_ok (step_header_value_start tk ch)"
  proof (cases "value_start (tk\<lparr>tk_state := S_header_value, tk_index := 0\<rparr>) ch")
    case (Some tk')
    then have "tk_inv tk'"
      using value_start_ok [OF Some] l by (auto simp: tk_inv_def tk_core_def chunk_states_def ULLONG_MAX_def)
    then show ?thesis using Some by (simp add: step_header_value_start_def Let_def)
  qed (simp add: step_header_value_start_def Let_def)
  show "step_ok (step_discard_ws tk ch)" if "tk_state tk = S_header_value_discard_ws"
    using vs l that by (simp add: step_discard_ws_def tk_inv_quiet)
  show "step_ok (step_header_value tk ch)" if st: "tk_state tk = S_header_value"
  proof -
    have hs: "header_state tk \<notin> {H_connection, H_transfer_encoding}" using core st by (simp add: tk_core_def)
    have inv: "tk_inv tk'" if "tk_state tk' = S_header_value" "header_state tk' \<notin> {H_connection, H_transfer_encoding}"
      "content_length tk' \<le> ULLONG_MAX" for tk' using that by (simp add: tk_inv_def tk_core_def chunk_states_def)
    have d: "tk_inv tk'" if "length_digit 10 tk (digit_of ch) = Some tk'" "IS_NUM ch" for tk'
      using that length_digit_bound [of 10 tk "digit_of ch" tk'] length_digit_frame [of 10 tk "digit_of ch" tk'] digit_bound [of ch] st hs
      by (intro inv) auto
    have m: "match_next const same hit c i \<notin> {H_connection, H_transfer_encoding}"
      if "hit \<notin> {H_connection, H_transfer_encoding}" "same \<notin> {H_connection, H_transfer_encoding}" for const same hit c i
      using match_next_cases [of const same hit c i] that by auto
    have "step_ok (value_char tk ch)"
      using st hs l d m
      by (simp add: value_char_def Let_def) (auto intro!: inv split: option.split)
    then show ?thesis using l by (simp add: step_header_value_def)
  qed
  show "step_ok (step_header_value_lws tk ch)" "step_ok (step_discard_lws tk ch)"
    "step_ok (step_headers_almost_done tk ch)"
    using l by (simp_all add: step_header_value_lws_def step_discard_lws_def step_headers_almost_done_def
        finish_header_def Let_def tk_core_quiet)
  show "step_ok (step_headers_done tk ch)"
    using l by (simp add: step_headers_done_def Let_def) (simp add: tk_inv_def tk_core_def chunk_states_def)
qed

lemma chunk_quiet: "tk_state tk \<in> chunk_states \<Longrightarrow> tk_core tk \<Longrightarrow> F_CHUNKED \<in> flags tk"
  by (simp add: tk_core_def)

lemma body_ok:
  assumes core: "tk_core tk" and ne: "rest \<noteq> []"
  shows "tk_state tk = S_body_identity \<Longrightarrow> step_ok (step_body_identity tk rest)"
    and "step_ok (step_message_done tk)"
    and "tk_state tk = S_chunk_size_start \<Longrightarrow> nread tk = 1 \<Longrightarrow> step_ok (step_chunk_size_start tk ch)"
    and "tk_state tk = S_chunk_size \<Longrightarrow> step_ok (step_chunk_size tk ch)"
    and "tk_state tk = S_chunk_parameters \<Longrightarrow> step_ok (step_chunk_parameters tk ch)"
    and "tk_state tk = S_chunk_size_almost_done \<Longrightarrow> step_ok (step_chunk_size_almost_done tk ch)"
    and "tk_state tk = S_chunk_data \<Longrightarrow> step_ok (step_chunk_data tk rest)"
    and "tk_state tk = S_chunk_data_almost_done \<Longrightarrow> step_ok (step_chunk_data_almost_done tk ch)"
    and "tk_state tk = S_chunk_data_done \<Longrightarrow> step_ok (step_chunk_data_done tk ch)"
proof -
  have l: "content_length tk \<le> ULLONG_MAX" using core by (rule tk_core_length)
  have f: "F_CHUNKED \<in> flags tk" if "tk_state tk \<in> chunk_states" using core that by (simp add: tk_core_def)
  note defs = tk_inv_def tk_core_def chunk_states_def
  show "step_ok (step_body_identity tk rest)" if "tk_state tk = S_body_identity"
    using that core by (auto simp: step_body_identity_def Let_def tk_core_quiet tk_inv_def tk_core_def chunk_states_def)
  show "step_ok (step_message_done tk)" using l by (simp add: step_message_done_def)
  show "step_ok (step_chunk_size_start tk ch)" if "tk_state tk = S_chunk_size_start" "nread tk = 1"
    using that f unhex_bound [of ch]
    by (auto simp: step_chunk_size_start_def defs ULLONG_MAX_def split: option.split)
  show "step_ok (step_chunk_size tk ch)" if st: "tk_state tk = S_chunk_size"
  proof -
    have "tk_inv tk'" if "unhex ch = Some v" "length_digit 16 tk v = Some tk'" for v tk'
      using that length_digit_bound [of 16 tk v tk'] length_digit_frame [of 16 tk v tk'] unhex_bound [of ch v] st f
      by (auto simp: defs)
    moreover have "tk_inv (tk\<lparr>tk_state := S_chunk_size_almost_done\<rparr>)" "tk_inv (tk\<lparr>tk_state := S_chunk_parameters\<rparr>)"
      using core st by (simp_all add: defs)
    ultimately show ?thesis using st f by (auto simp: step_chunk_size_def chunk_states_def split: option.split)
  qed
  show "step_ok (step_chunk_parameters tk ch)" if "tk_state tk = S_chunk_parameters"
    using that core by (simp add: step_chunk_parameters_def defs)
  show "step_ok (step_chunk_size_almost_done tk ch)" if "tk_state tk = S_chunk_size_almost_done"
    using that core by (simp add: step_chunk_size_almost_done_def Let_def defs)
  show "step_ok (step_chunk_data tk rest)" if "tk_state tk = S_chunk_data"
    using that core by (auto simp: step_chunk_data_def Let_def defs)
  show "step_ok (step_chunk_data_almost_done tk ch)" if "tk_state tk = S_chunk_data_almost_done"
    using that core by (simp add: step_chunk_data_almost_done_def defs)
  show "step_ok (step_chunk_data_done tk ch)" if "tk_state tk = S_chunk_data_done"
    using that core by (simp add: step_chunk_data_done_def defs)
qed

lemma tk_step_ok:
  assumes core: "tk_core tk" and n: "tk_state tk = S_chunk_size_start \<Longrightarrow> nread tk = 1" and ne: "rest \<noteq> []"
  shows "step_ok (tk_step tk ch rest)"
proof -
  have l: "content_length tk \<le> ULLONG_MAX" using core by (rule tk_core_length)
  have q: "quiet st" if "st \<in> url_states" for st using that by (rule quiet_url)
  note ok = request_line_ok [OF core] method_ok [OF core] header_ok [OF core] body_ok [OF core ne] n
  show ?thesis
    using q l ok by (cases "tk_state tk") (simp_all add: tk_step_def url_states_def tk_inv_quiet)
qed

lemma count_byte_simps [simp]:
  "tk_state (count_byte tk) = tk_state tk" "tk_core (count_byte tk) = tk_core tk"
  "tk_errno (count_byte tk) = tk_errno tk" "content_length (count_byte tk) = content_length tk"
  by (simp_all add: count_byte_def tk_core_def)

definition bumped :: "bool \<Rightarrow> tokenizer \<Rightarrow> tokenizer" where
  "bumped fresh tk = (if fresh then count_byte tk else tk)"

definition overflow :: "bool \<Rightarrow> tokenizer \<Rightarrow> bool" where
  "overflow fresh tk \<longleftrightarrow> fresh \<and> PARSING_HEADER (tk_state tk) \<and> HTTP_MAX_HEADER_SIZE < nread (count_byte tk)"

definition prepend :: "tk_event list \<Rightarrow> exec_end \<times> tk_event list \<Rightarrow> exec_end \<times> tk_event list" where
  "prepend evs r = (fst r, evs @ snd r)"

lemma prepend_simps [simp]: "fst (prepend evs r) = fst r" "snd (prepend evs r) = evs @ snd r"
  "prepend evs (e, evs') = (e, evs @ evs')"
  by (simp_all add: prepend_def)

lemma bumped_simps [simp]:
  "tk_state (bumped fresh tk) = tk_state tk" "tk_core (bumped fresh tk) = tk_core tk"
  "tk_errno (bumped fresh tk) = tk_errno tk" "content_length (bumped fresh tk) = content_length tk"
  by (simp_all add: bumped_def)

text \<open>One round of the loop, by the way the byte ends.\<close>

lemma tk_loop_overflow:
  "overflow fresh tk \<Longrightarrow>
     tk_loop fresh tk m (ch # rest) = (Stopped ((count_byte tk)\<lparr>tk_errno := HPE_HEADER_OVERFLOW\<rparr>) (ch # rest), [])"
  by (subst tk_loop.simps) (simp add: overflow_def)

lemma tk_loop_step:
  assumes "\<not> overflow fresh tk"
  shows "tk_loop fresh tk m (ch # rest) =
    (case tk_step (bumped fresh tk) ch (ch # rest) of
        Break n tk1 as \<Rightarrow>
          prepend (snd (acts as m)) (tk_loop True tk1 (move_marks (take n (ch # rest)) (fst (acts as m))) (drop n (ch # rest)))
      | Again n tk1 as \<Rightarrow>
          prepend (snd (acts as m)) (tk_loop False tk1 (move_marks (take n (ch # rest)) (fst (acts as m))) (drop n (ch # rest)))
      | Fail tk1 \<Rightarrow> (Stopped tk1 (ch # rest), [])
      | Leave tk1 as \<Rightarrow> (Stopped tk1 rest, snd (acts as m))
      | Abort \<Rightarrow> (Aborted, []))"
proof -
  have go: "\<not> (fresh \<and> PARSING_HEADER (tk_state tk) \<and> HTTP_MAX_HEADER_SIZE < nread (bumped fresh tk))"
    using assms by (auto simp: overflow_def bumped_def)
  show ?thesis
    unfolding tk_loop.simps(2) [of fresh] bumped_def [symmetric] Let_def if_not_P [OF go]
    by (cases "tk_step (bumped fresh tk) ch (ch # rest)") (simp_all add: prepend_def case_prod_unfold)
qed

lemma tk_loop_induct [case_names empty byte]:
  assumes empty: "\<And>fresh tk m. P fresh tk m []"
    and byte: "\<And>fresh tk m ch rest.
      (\<And>n tk1 as. \<not> overflow fresh tk \<Longrightarrow> tk_step (bumped fresh tk) ch (ch # rest) = Break n tk1 as \<Longrightarrow>
         P True tk1 (move_marks (take n (ch # rest)) (fst (acts as m))) (drop n (ch # rest))) \<Longrightarrow>
      (\<And>n tk1 as. \<not> overflow fresh tk \<Longrightarrow> tk_step (bumped fresh tk) ch (ch # rest) = Again n tk1 as \<Longrightarrow>
         P False tk1 (move_marks (take n (ch # rest)) (fst (acts as m))) (drop n (ch # rest))) \<Longrightarrow>
      P fresh tk m (ch # rest)"
  shows "P fresh tk m s"
proof (induction fresh tk m s rule: tk_loop.induct)
  case (1 fresh tk m)
  show ?case by (rule empty)
next
  case (2 fresh tk m ch rest)
  have go: "\<not> (fresh \<and> PARSING_HEADER (tk_state tk) \<and> HTTP_MAX_HEADER_SIZE < nread (bumped fresh tk))"
    if "\<not> overflow fresh tk"
    using that by (auto simp: overflow_def bumped_def)
  show ?case
    by (rule byte) (rule 2 [OF bumped_def go _ refl prod.collapse], assumption+)+
qed

definition end_ok :: "string \<Rightarrow> exec_end \<Rightarrow> bool" where
  "end_ok s r \<longleftrightarrow>
     (case r of
        Consumed tk \<Rightarrow> tk_inv tk
      | Stopped tk left \<Rightarrow>
          length left \<le> length s \<and> (tk_errno tk = HPE_OK \<longrightarrow> tk_inv tk)
      | Aborted \<Rightarrow> False)"

lemma end_ok_drop: "end_ok (drop n s) r \<Longrightarrow> end_ok s r"
  by (auto simp: end_ok_def split: exec_end.splits)

lemma tk_loop_ok:
  "tk_core tk \<Longrightarrow> (tk_state tk = S_chunk_size_start \<Longrightarrow> fresh \<and> nread tk = 0) \<Longrightarrow> marks_ok (tk_state tk) m \<Longrightarrow>
     end_ok s (fst (tk_loop fresh tk m s))"
proof (induction fresh tk m s rule: tk_loop_induct)
  case (empty fresh tk m)
  then show ?case by (auto simp: tk_loop.simps end_ok_def tk_inv_def marks_ok_single)
next
  case (byte fresh tk m ch rest)
  let ?s = "ch # rest" and ?tk0 = "bumped fresh tk"
  have "nread ?tk0 = 1" if "tk_state tk = S_chunk_size_start"
    using byte.prems(2) [OF that] that by (simp add: bumped_def count_byte_def PARSING_HEADER_def)
  then have ok: "step_ok (tk_step ?tk0 ch ?s)" using byte.prems(1) by (intro tk_step_ok) auto
  have shape: "step_shape (tk_state tk) (tk_step ?tk0 ch ?s)" using tk_step_shape [of ?tk0 ch ?s] by simp
  show ?case
  proof (cases "overflow fresh tk")
    case True
    then show ?thesis by (simp add: tk_loop_overflow end_ok_def)
  next
    case False
    show ?thesis
    proof (cases "tk_step ?tk0 ch ?s")
      case (Break n tk1 as)
      then have "tk_inv tk1" using ok by simp
      then have "end_ok (drop n ?s) (fst (tk_loop True tk1 (move_marks (take n ?s) (fst (acts as m))) (drop n ?s)))"
        using shape_marks [OF shape [unfolded Break step_shape_simps] byte.prems(3)]
        by (intro byte.IH(1) [OF False Break]) (auto simp: tk_inv_def)
      then show ?thesis
        unfolding tk_loop_step [OF False] Break by (simp only: step_result.case prepend_simps) (rule end_ok_drop)
    next
      case (Again n tk1 as)
      then have "tk_core tk1" "tk_state tk1 \<noteq> S_chunk_size_start" using ok by simp_all
      then have "end_ok (drop n ?s) (fst (tk_loop False tk1 (move_marks (take n ?s) (fst (acts as m))) (drop n ?s)))"
        using shape_marks [OF shape [unfolded Again step_shape_simps] byte.prems(3)]
        by (intro byte.IH(2) [OF False Again]) auto
      then show ?thesis
        unfolding tk_loop_step [OF False] Again by (simp only: step_result.case prepend_simps) (rule end_ok_drop)
    qed (use False ok in \<open>simp_all add: tk_loop_step end_ok_def\<close>)
  qed
qed

text \<open>The calls that one connection makes.\<close>

definition execute_call :: "tokenizer \<Rightarrow> tokenizer \<Rightarrow> bool" where
  "execute_call tk tk' \<longleftrightarrow> (\<exists>data n evs. http_parser_execute tk data = Some (tk', n, evs))"

definition tk_ready :: "tokenizer \<Rightarrow> bool" where
  "tk_ready tk \<longleftrightarrow> tk_errno tk \<noteq> HPE_OK \<or> tk_inv tk"

lemma execute_ok:
  assumes "tk_ready tk"
  shows "\<exists>tk' n evs. http_parser_execute tk data = Some (tk', n, evs) \<and> tk_ready tk' \<and> n \<le> max 1 (length data)"
proof (cases "tk_errno tk \<noteq> HPE_OK \<or> data = []")
  case True
  then show ?thesis using assms by (auto simp: http_parser_execute_def tk_ready_def)
next
  case False
  then have inv: "tk_inv tk" using assms by (simp add: tk_ready_def)
  obtain r evs where r: "tk_loop True tk (start_marks (tk_state tk)) data = (r, evs)" by fastforce
  have "end_ok data r"
    using tk_loop_ok [of tk True "start_marks (tk_state tk)" data] inv r start_marks_ok by (auto simp: tk_inv_def)
  then show ?thesis
    using False r by (cases r) (simp_all add: http_parser_execute_def end_ok_def tk_ready_def)
qed

interpretation tk: invariant_system execute_call tk_ready
proof
  fix tk tk'
  assume "tk_ready tk" and "execute_call tk tk'"
  then obtain data n evs where "http_parser_execute tk data = Some (tk', n, evs)" by (auto simp: execute_call_def)
  then show "tk_ready tk'" using execute_ok [OF \<open>tk_ready tk\<close>, of data] by simp
qed

lemma init_ready: "tk_ready http_parser_init"
  by (simp add: tk_ready_def tk_inv_quiet http_parser_init_def)

text \<open>
  C39. Whatever bytes arrive in whatever buffers, no assertion of the tokenizer fails and no string constant is
  read outside its bounds; every call returns, and reports at most the length of the buffer as parsed (1 for the
  empty buffer that stands for the end of the stream).
\<close>

theorem tokenizer_never_aborts:
  assumes "execute_call\<^sup>*\<^sup>* http_parser_init tk"
  shows "\<exists>tk' n evs. http_parser_execute tk data = Some (tk', n, evs) \<and> n \<le> max 1 (length data)"
  using execute_ok [OF tk.inv_steps [OF assms init_ready], of data] by blast

theorem tokenizer_never_aborts_witness:
  "\<exists>tk n evs. http_parser_execute http_parser_init ''P'' = Some (tk, n, evs) \<and> tk_state tk = S_req_method \<and>
     (\<exists>tk' n evs. http_parser_execute tk ''OXT /'' = Some (tk', n, evs) \<and> n \<le> 5)"
proof -
  obtain tk n evs where tk: "http_parser_execute http_parser_init ''P'' = Some (tk, n, evs)" "tk_state tk = S_req_method"
    by (simp add: http_parser_execute_def http_parser_init_def tk_loop.simps count_byte_def PARSING_HEADER_def
        HTTP_MAX_HEADER_SIZE_def tk_step_def step_start_req_def first_method_def IS_ALPHA_def LOWER_def CR_def LF_def
        single_mark_def start_marks_def move_marks_def url_states_def Let_def)
  then have "execute_call http_parser_init tk" by (auto simp: execute_call_def)
  then have "execute_call\<^sup>*\<^sup>* http_parser_init tk" by (rule r_into_rtranclp)
  from tokenizer_never_aborts [OF this, of "''OXT /''"] tk show ?thesis by auto
qed

end
