(* ===== verification/Crow_Tokenizer_Split.thy ===== *)
theory Crow_Tokenizer_Split
  imports Crow_Tokenizer_Props
begin

text \<open>
  The bytes of a connection reach the tokenizer in buffers that the network cuts. It does not matter where:
  a client that takes the text of a callback piece by piece sees the same whether bytes arrive in one
  buffer or in two.
\<close>

section \<open>Two buffers and their concatenation\<close>

definition body_state :: "tokenizer \<Rightarrow> bool" where
  "body_state tk \<longleftrightarrow> tk_core tk \<and> (tk_state tk = S_body_identity \<or> tk_state tk = S_chunk_data)"

lemma body_facts:
  assumes "body_state tk"
  shows "0 < content_length tk" and "content_length tk < ULLONG_MAX"
    and "tk_state tk = S_chunk_data \<Longrightarrow> F_CHUNKED \<in> flags tk"
proof -
  have core: "tk_core tk" and st: "tk_state tk \<in> {S_chunk_data, S_body_identity}"
    using assms by (auto simp: body_state_def)
  then show "0 < content_length tk" unfolding tk_core_def by blast
  have "tk_state tk \<in> {S_chunk_size, S_chunk_parameters, S_chunk_size_almost_done, S_chunk_data, S_body_identity}"
    using st by blast
  then show "content_length tk < ULLONG_MAX" using core by (simp add: tk_core_def)
  show "F_CHUNKED \<in> flags tk" if "tk_state tk = S_chunk_data"
    using core that by (simp add: tk_core_def chunk_states_def)
qed

lemma body_less:
  assumes "body_state tk" and "0 < n" and "n \<le> content_length tk"
  shows "body_state (tk\<lparr>content_length := n\<rparr>)"
proof -
  have n: "n < ULLONG_MAX" using body_facts(2) [OF assms(1)] assms(3) by linarith
  show ?thesis
  proof (cases "tk_state tk = S_chunk_data")
    case True
    then show ?thesis
      using n assms(2) body_facts(3) [OF assms(1)] by (simp add: body_state_def tk_core_def)
  next
    case False
    then have "tk_state tk = S_body_identity" using assms(1) by (simp add: body_state_def)
    then show ?thesis using n assms(2) by (simp add: body_state_def tk_core_def chunk_states_def)
  qed
qed

lemma body_quiet: "body_state tk \<Longrightarrow> bumped fresh tk = tk" "body_state tk \<Longrightarrow> \<not> overflow fresh tk"
  by (auto simp: body_state_def bumped_def overflow_def count_byte_def PARSING_HEADER_def)

text \<open>What a byte does depends on the bytes behind it only in the middle of a body.\<close>

lemma tk_step_append:
  assumes "tk_core tk"
  shows "tk_step tk ch (s @ b) = tk_step tk ch s \<or> body_state tk \<and> length s < content_length tk"
proof -
  have "step_body_identity tk (s @ b) = step_body_identity tk s \<or> length s < content_length tk"
    by (auto simp: step_body_identity_def Let_def min_absorb1)
  moreover have "step_chunk_data tk (s @ b) = step_chunk_data tk s \<or> length s < content_length tk"
    by (auto simp: step_chunk_data_def Let_def min_absorb1)
  ultimately show ?thesis using assms by (cases "tk_state tk") (simp_all add: tk_step_def body_state_def)
qed

definition marked :: "marks \<Rightarrow> marks" where
  "marked m = fst (act (A_mark M_body) m)"

lemma body_step:
  assumes "body_state tk"
  shows "tk_step tk ch s =
    (let k = min (content_length tk) (length s); tk1 = tk\<lparr>content_length := content_length tk - k\<rparr> in
     if content_length tk \<le> length s then
       (if tk_state tk = S_body_identity
        then Again (k - 1) (tk1\<lparr>tk_state := S_message_done\<rparr>) [A_mark M_body, A_callback_body (take k s)]
        else Break k (tk1\<lparr>tk_state := S_chunk_data_almost_done\<rparr>) [A_mark M_body])
     else Break k tk1 [A_mark M_body])"
  using assms body_facts [OF assms]
  by (auto simp: body_state_def tk_step_def step_body_identity_def step_chunk_data_def Let_def min_absorb1 min_absorb2)

definition body_text :: "marks \<Rightarrow> string" where
  "body_text m = (case m M_body of None \<Rightarrow> [] | Some t \<Rightarrow> t)"

lemma acts_body:
  "acts [A_mark M_body] m = (marked m, [])"
  "acts [A_mark M_body, A_callback_body s] m = (m(M_body := None), [Ev_data M_body (body_text m @ s)])"
  by (auto simp: marked_def body_text_def CALLBACK_DATA_def Let_def split: option.split)

lemma body_round:
  assumes b: "body_state tk" and s: "s \<noteq> []"
  shows "tk_loop fresh tk m s =
    (let k = min (content_length tk) (length s); tk1 = tk\<lparr>content_length := content_length tk - k\<rparr> in
     if content_length tk \<le> length s then
       (if tk_state tk = S_body_identity
        then prepend [Ev_data M_body (body_text m @ take k s)]
               (tk_loop False (tk1\<lparr>tk_state := S_message_done\<rparr>)
                 (move_marks (take (k - 1) s) (m(M_body := None))) (drop (k - 1) s))
        else tk_loop True (tk1\<lparr>tk_state := S_chunk_data_almost_done\<rparr>)
               (move_marks (take k s) (marked m)) (drop k s))
     else tk_loop True tk1 (move_marks (take k s) (marked m)) (drop k s))"
proof -
  obtain ch rest where s': "s = ch # rest" using s by (cases s) auto
  show ?thesis
    unfolding s' tk_loop_step [OF body_quiet(2) [OF b]] body_quiet(1) [OF b] body_step [OF b] Let_def
    by (simp only: acts_body step_result.case fst_conv snd_conv split: if_split) (simp add: prepend_def)
qed

lemma marked_simps [simp]: "body_text (move_marks s (marked m)) = body_text m @ s"
  "marked (move_marks s (marked m)) = move_marks s (marked m)"
  by (auto simp: marked_def move_marks_def body_text_def split: option.splits)

lemma move_move [simp]: "move_marks t (move_marks s m) = move_marks (s @ t) m"
  by (simp add: move_marks_def option.map_comp o_def)

lemma marked_reset: "(move_marks s (marked m))(M_body := None) = move_marks s (m(M_body := None))"
  by (auto simp: marked_def move_marks_def split: option.splits)

lemma body_mark: "body_state tk \<Longrightarrow> mark_of (tk_state tk) = Some M_body"
  by (auto simp: body_state_def)

lemma marked_ok: "mark_of st = Some M_body \<Longrightarrow> marks_ok st m \<Longrightarrow> marks_ok st (marked m)"
  by (auto simp: marks_ok_def marked_def split: option.splits)

text \<open>A body that is cut within its text.\<close>

lemma body_cut:
  assumes b: "body_state tk" and c: "length a < content_length tk" and ne: "a \<noteq> []" "b \<noteq> []"
  shows "tk_loop fresh tk m (a @ b) =
    tk_loop True (tk\<lparr>content_length := content_length tk - length a\<rparr>) (move_marks a (marked m)) b"
proof -
  let ?tk1 = "tk\<lparr>content_length := content_length tk - length a\<rparr>"
  have b1: "body_state ?tk1" using b c by (intro body_less) auto
  have la: "0 < length a" "0 < length b" using ne by simp_all
  note round = body_round [OF b, of "a @ b" fresh m] body_round [OF b1 ne(2), of True "move_marks a (marked m)"]
  show ?thesis
  proof (cases "content_length tk \<le> length a + length b")
    case True
    then have "content_length tk - length a \<le> length b" by linarith
    then show ?thesis
      using True c ne round by (simp add: Let_def min_absorb1 marked_reset)
  next
    case False
    then have "\<not> content_length tk - length a \<le> length b" by linarith
    then show ?thesis
      using False c ne round by (simp add: Let_def min_absorb2)
  qed
qed

text \<open>The loop over a buffer is a prefix of the loop over a longer one.\<close>

definition resumed :: "bool \<Rightarrow> tokenizer \<Rightarrow> marks \<Rightarrow> string \<Rightarrow> string \<Rightarrow> bool" where
  "resumed fresh tk m a b \<longleftrightarrow>
     (case tk_loop fresh tk m a of
        (Consumed tk1, e1) \<Rightarrow>
          \<exists>m1 e0. e1 = e0 @ flush_marks m1 \<and> marks_ok (tk_state tk1) m1 \<and>
            tk_loop fresh tk m (a @ b) = prepend e0 (tk_loop True tk1 m1 b)
      | (Stopped tk1 left, e1) \<Rightarrow> tk_loop fresh tk m (a @ b) = (Stopped tk1 (left @ b), e1)
      | (Aborted, e1) \<Rightarrow> False)"

lemma prepend_prepend [simp]: "prepend [] r = r" "prepend e (prepend e' r) = prepend (e @ e') r"
  by (cases r, simp)+

lemma cut_buffer:
  assumes "n \<le> length (ch # rest)"
  shows "take n (ch # rest @ b) = take n (ch # rest)" "drop n (ch # rest @ b) = drop n (ch # rest) @ b"
  using assms take_append [of n "ch # rest" b] drop_append [of n "ch # rest" b] by simp_all

lemma resumed_prepend:
  assumes "resumed fresh tk m a b" and "tk_loop fresh' tk' m' a' = prepend e (tk_loop fresh tk m a)"
    and "tk_loop fresh' tk' m' (a' @ b) = prepend e (tk_loop fresh tk m (a @ b))"
  shows "resumed fresh' tk' m' a' b"
proof -
  obtain r e1 where r: "tk_loop fresh tk m a = (r, e1)" by fastforce
  show ?thesis
  proof (cases r)
    case (Consumed tk1)
    then obtain m1 e0 where "e1 = e0 @ flush_marks m1" "marks_ok (tk_state tk1) m1"
      "tk_loop fresh tk m (a @ b) = prepend e0 (tk_loop True tk1 m1 b)"
      using assms(1) r by (auto simp: resumed_def)
    then show ?thesis
      using assms(2,3) r Consumed by (auto simp: resumed_def intro!: exI [of _ m1] exI [of _ "e @ e0"])
  qed (use assms r in \<open>simp_all add: resumed_def\<close>)
qed

lemma tk_loop_resumed:
  assumes "tk_core tk" and "tk_state tk = S_chunk_size_start \<Longrightarrow> fresh \<and> nread tk = 0"
    and "marks_ok (tk_state tk) m" and "a = [] \<Longrightarrow> fresh" and "b \<noteq> []"
  shows "resumed fresh tk m a b"
  using assms(1-4)
proof (induction fresh tk m a rule: tk_loop_induct)
  case (empty fresh tk m)
  then show ?case
    by (auto simp: resumed_def tk_loop.simps(1) marks_ok_single intro!: exI [of _ m] exI [of _ "[]"])
next
  case (byte fresh tk m ch rest)
  let ?s = "ch # rest" and ?tk0 = "bumped fresh tk"
  have "nread ?tk0 = 1" if "tk_state tk = S_chunk_size_start"
    using byte.prems(2) [OF that] that by (simp add: bumped_def count_byte_def PARSING_HEADER_def)
  then have ok: "step_ok (tk_step ?tk0 ch ?s)" using byte.prems(1) by (intro tk_step_ok) auto
  have shape: "step_shape (tk_state tk) (tk_step ?tk0 ch ?s)" using tk_step_shape [of ?tk0 ch ?s] by simp
  have progress: "progress ?tk0 ?s (tk_step ?tk0 ch ?s)" by (rule tk_step_progress) simp
  show ?case
  proof (cases "overflow fresh tk")
    case True
    then show ?thesis by (simp add: resumed_def tk_loop_overflow)
  next
    case False
    note step = tk_loop_step [OF False]
    consider (cut) "body_state ?tk0" "length ?s < content_length ?tk0"
      | (same) "tk_step ?tk0 ch (ch # (rest @ b)) = tk_step ?tk0 ch ?s"
      using tk_step_append [of ?tk0 ch ?s b] byte.prems(1) by auto
    then show ?thesis
    proof cases
      case cut
      have b: "body_state tk" using cut(1) by (simp add: body_state_def)
      have tk: "?tk0 = tk" "body_state tk" "length ?s < content_length tk"
        using cut(2) by (simp_all only: body_quiet(1) [OF b] b)
      let ?tk1 = "tk\<lparr>content_length := content_length tk - length ?s\<rparr>" and ?m1 = "move_marks ?s (marked m)"
      have m1: "marks_ok (tk_state ?tk1) ?m1"
        using marked_ok [OF body_mark [OF b] byte.prems(3)] by simp
      have "tk_loop fresh tk m ?s = (Consumed ?tk1, flush_marks ?m1)"
        using body_round [OF tk(2), of ?s fresh m] tk(3) marks_ok_single [OF m1]
        by (simp add: Let_def min_absorb2 tk_loop.simps(1))
      then show ?thesis
        using body_cut [OF tk(2,3) _ assms(5), of fresh m] m1
        by (auto simp: resumed_def intro!: exI [of _ ?m1] exI [of _ "[]"])
    next
      case same
      show ?thesis
      proof (cases "tk_step ?tk0 ch ?s")
        case (Break n tk1 as)
        have n: "n \<le> length ?s" using progress Break by simp
        have "resumed True tk1 (move_marks (take n ?s) (fst (acts as m))) (drop n ?s) b"
          using ok shape_marks [OF shape [unfolded Break step_shape_simps] byte.prems(3)] Break
          by (intro byte.IH(1) [OF False Break]) (auto simp: tk_inv_def)
        then show ?thesis
          by (rule resumed_prepend) (use same Break in \<open>simp_all add: step cut_buffer [OF n]\<close>)
      next
        case (Again n tk1 as)
        have n: "n < length ?s" using progress Again by auto
        have "resumed False tk1 (move_marks (take n ?s) (fst (acts as m))) (drop n ?s) b"
          using ok shape_marks [OF shape [unfolded Again step_shape_simps] byte.prems(3)] Again n
          by (intro byte.IH(2) [OF False Again]) auto
        then show ?thesis
          by (rule resumed_prepend) (use same Again in \<open>simp_all add: step cut_buffer [OF less_imp_le [OF n]]\<close>)
      qed (use same ok in \<open>simp_all add: resumed_def step\<close>)
    qed
  qed
qed

lemma tk_loop_errno: "fst (tk_loop fresh tk m s) = Consumed tk1 \<Longrightarrow> tk_errno tk1 = tk_errno tk"
proof (induction fresh tk m s rule: tk_loop_induct)
  case (empty fresh tk m)
  then show ?case by (simp add: tk_loop.simps(1) split: if_splits)
next
  case (byte fresh tk m ch rest)
  have kept: "errno_kept (bumped fresh tk) (tk_step (bumped fresh tk) ch (ch # rest))" by (rule tk_step_errno)
  have no: "\<not> overflow fresh tk" using byte.prems by (auto simp: tk_loop_overflow)
  show ?case
    using byte kept no by (cases "tk_step (bumped fresh tk) ch (ch # rest)") (simp_all add: tk_loop_step [OF no])
qed

section \<open>A client that takes text in pieces\<close>

text \<open>What a client makes of a list of callbacks.\<close>

definition deliver ::
  "(mark_kind \<Rightarrow> string \<Rightarrow> 'h \<Rightarrow> 'h) \<Rightarrow> (tk_event \<Rightarrow> 'h \<Rightarrow> 'h) \<Rightarrow> tk_event list \<Rightarrow> 'h \<Rightarrow> 'h" where
  "deliver on_data on_notify = fold (\<lambda>e. case e of Ev_data k s \<Rightarrow> on_data k s | _ \<Rightarrow> on_notify e)"

lemma deliver_append [simp]: "deliver f g (xs @ ys) h = deliver f g ys (deliver f g xs h)"
  by (simp add: deliver_def)

lemma deliver_simps [simp]: "deliver f g [] h = h" "deliver f g (Ev_data k s # xs) h = deliver f g xs (f k s h)"
  by (simp_all add: deliver_def)

text \<open>The whole buffer counts as parsed.\<close>

definition complete :: "exec_end \<Rightarrow> bool" where
  "complete r \<longleftrightarrow> (case r of Consumed tk \<Rightarrow> True | Stopped tk left \<Rightarrow> left = [] | Aborted \<Rightarrow> False)"

text \<open>\<open>m\<close> has the text \<open>t\<close>, from an earlier buffer, before that of \<open>m0\<close>.\<close>

definition ahead :: "mark_kind \<Rightarrow> string \<Rightarrow> marks \<Rightarrow> marks \<Rightarrow> bool" where
  "ahead k t m m0 \<longleftrightarrow>
     (\<exists>s0. m k = Some (t @ s0) \<and> (m0 k = Some s0 \<or> m0 k = None \<and> s0 = [] \<and> k = M_body))"

lemma start_marks_of:
  assumes "mark_of st = Some k"
  shows "start_marks st k = (if k = M_body then None else Some [])"
  using assms by (cases k) (simp_all add: start_marks_def mark_of_def split: if_splits)

lemma flush_single:
  assumes "marks_ok st m"
  shows "flush_marks m = (case mark_of st of None \<Rightarrow> [] | Some k \<Rightarrow> CALLBACK_DATA k [] m)"
proof (cases "mark_of st")
  case (Some k)
  then have "m k' = None" if "k' \<noteq> k" for k' using assms that by (auto simp: marks_ok_def)
  then show ?thesis using Some by (cases k) (simp_all add: flush_marks_def CALLBACK_DATA_def)
qed (use assms in \<open>simp add: marks_ok_none flush_marks_def CALLBACK_DATA_def\<close>)

locale piecewise =
  fixes on_data :: "mark_kind \<Rightarrow> string \<Rightarrow> 'h \<Rightarrow> 'h" and on_notify :: "tk_event \<Rightarrow> 'h \<Rightarrow> 'h"
  assumes on_data_append: "on_data k (s @ t) h = on_data k t (on_data k s h)"
begin

lemma data_nil [simp]: "on_data k [] (on_data k t h) = on_data k t h"
  using on_data_append [of k t "[]" h] by simp

text \<open>The actions of one byte, for a mark with and without the text from before.\<close>

lemma ahead_acts:
  assumes shape: "shape st st' as" and k: "mark_of st = Some k" and ahead: "ahead k t m m0"
    and m: "marks_ok st m" and m0: "marks_ok st m0"
  obtains (running) "mark_of st' = Some k" "snd (acts as m) = []" "snd (acts as m0) = []"
      "ahead k t (move_marks s (fst (acts as m))) (move_marks s (fst (acts as m0)))"
    | (over) "mark_of st' = None"
      "\<And>h. deliver on_data on_notify (snd (acts as m)) h =
            deliver on_data on_notify (snd (acts as m0)) (on_data k t h)"
proof -
  obtain s0 where s0: "m k = Some (t @ s0)" "m0 k = Some s0 \<or> m0 k = None \<and> s0 = [] \<and> k = M_body"
    using ahead by (auto simp: ahead_def)
  consider "as = []" "k \<noteq> M_body" "mark_of st' = Some k" | "as = [A_callback k]" "mark_of st' = None"
    | "as = [A_mark k]" "k = M_body" "mark_of st' = Some k"
    | u where "as = [A_mark k, A_callback_body u]" "k = M_body" "mark_of st' = None"
    using shape k by (auto simp: shape_def)
  then show thesis
  proof cases
    case 1
    then show thesis using s0 by (intro running) (auto simp: ahead_def move_marks_def)
  next
    case 2
    then show thesis using s0 by (intro over) (auto simp: CALLBACK_DATA_def on_data_append)
  next
    case 3
    then show thesis using s0 by (intro running) (auto simp: ahead_def move_marks_def)
  next
    case 4
    then show thesis using s0 by (intro over) (auto simp: CALLBACK_DATA_def on_data_append Let_def)
  qed
qed

lemma ahead_loop:
  "mark_of (tk_state tk) = Some k \<Longrightarrow> marks_ok (tk_state tk) m \<Longrightarrow> marks_ok (tk_state tk) m0 \<Longrightarrow> ahead k t m m0 \<Longrightarrow>
     fst (tk_loop fresh tk m s) = fst (tk_loop fresh tk m0 s) \<and>
     (complete (fst (tk_loop fresh tk m s)) \<longrightarrow>
        deliver on_data on_notify (snd (tk_loop fresh tk m s)) h =
        deliver on_data on_notify (snd (tk_loop fresh tk m0 s)) (on_data k t h))"
proof (induction fresh tk m s arbitrary: m0 h rule: tk_loop_induct)
  case (empty fresh tk m)
  then show ?case
    by (auto simp: tk_loop.simps(1) marks_ok_single flush_single [of "tk_state tk"] ahead_def CALLBACK_DATA_def on_data_append)
next
  case (byte fresh tk m ch rest)
  let ?s = "ch # rest"
  have shape: "step_shape (tk_state tk) (tk_step (bumped fresh tk) ch ?s)"
    using tk_step_shape [of "bumped fresh tk" ch ?s] by simp
  show ?case
  proof (cases "overflow fresh tk")
    case True
    then show ?thesis by (simp add: tk_loop_overflow complete_def)
  next
    case False
    note step = tk_loop_step [OF False]
    show ?thesis
    proof (cases "tk_step (bumped fresh tk) ch ?s")
      case (Break n tk1 as)
      note shape = shape [unfolded Break step_shape_simps]
      note ok = shape_marks [OF shape byte.prems(2)] shape_marks [OF shape byte.prems(3)]
      show ?thesis
      proof (cases rule: ahead_acts [OF shape byte.prems(1,4,2,3), where s = "take n ?s", case_names running over])
        case running
        then show ?thesis
          using byte.IH(1) [OF False Break running(1) _ _ running(4), of h] ok
          by (simp add: step Break)
      next
        case over
        then have "fst (acts as m) = fst (acts as m0)" using ok by (simp add: marks_ok_none)
        then show ?thesis using over(2) by (simp add: step Break)
      qed
    next
      case (Again n tk1 as)
      note shape = shape [unfolded Again step_shape_simps]
      note ok = shape_marks [OF shape byte.prems(2)] shape_marks [OF shape byte.prems(3)]
      show ?thesis
      proof (cases rule: ahead_acts [OF shape byte.prems(1,4,2,3), where s = "take n ?s", case_names running over])
        case running
        then show ?thesis
          using byte.IH(2) [OF False Again running(1) _ _ running(4), of h] ok
          by (simp add: step Again)
      next
        case over
        then have "fst (acts as m) = fst (acts as m0)" using ok by (simp add: marks_ok_none)
        then show ?thesis using over(2) by (simp add: step Again)
      qed
    qed (use shape byte.prems(1) in \<open>simp_all add: step complete_def\<close>)
  qed
qed

text \<open>One call for two buffers, and two calls.\<close>

lemma ahead_start:
  assumes m: "marks_ok (tk_state tk) m"
  shows "fst (tk_loop True tk m b) = fst (tk_loop True tk (start_marks (tk_state tk)) b)"
    and "complete (fst (tk_loop True tk m b)) \<Longrightarrow>
      deliver on_data on_notify (snd (tk_loop True tk m b)) h =
      deliver on_data on_notify (snd (tk_loop True tk (start_marks (tk_state tk)) b))
        (deliver on_data on_notify (flush_marks m) h)"
proof -
  let ?m0 = "start_marks (tk_state tk)"
  consider "m = ?m0" "flush_marks m = []" | k t where "mark_of (tk_state tk) = Some k" "m k = Some t"
  proof (cases "mark_of (tk_state tk)")
    case None
    then show thesis
      using that(1) m start_marks_ok [of "tk_state tk"] flush_single [OF m] by (simp add: marks_ok_none)
  next
    case (Some k)
    show thesis
    proof (cases "m k")
      case None
      then have k: "k = M_body" using m Some by (auto simp: marks_ok_def)
      then have "m = (\<lambda>k. None)" using m Some None by (auto simp: marks_ok_def fun_eq_iff)
      moreover have "?m0 = (\<lambda>k. None)"
        using Some k by (auto simp: fun_eq_iff start_marks_def mark_of_def split: if_splits)
      ultimately show thesis
        using that(1) flush_single [OF m] Some by (simp add: CALLBACK_DATA_def)
    qed (use that(2) Some in blast)
  qed
  then have "fst (tk_loop True tk m b) = fst (tk_loop True tk ?m0 b) \<and>
    (complete (fst (tk_loop True tk m b)) \<longrightarrow>
      deliver on_data on_notify (snd (tk_loop True tk m b)) h =
      deliver on_data on_notify (snd (tk_loop True tk ?m0 b)) (deliver on_data on_notify (flush_marks m) h))"
  proof cases
    case (2 k t)
    have "?m0 k = Some [] \<or> ?m0 k = None \<and> k = M_body"
      using start_marks_of [OF 2(1)] by simp
    then have "ahead k t m ?m0" using 2(2) by (auto simp: ahead_def)
    moreover have "flush_marks m = [Ev_data k t]" using flush_single [OF m] 2 by (simp add: CALLBACK_DATA_def)
    ultimately show ?thesis using ahead_loop [OF 2(1) m start_marks_ok, of t True b h] by simp
  qed simp
  then show "fst (tk_loop True tk m b) = fst (tk_loop True tk (start_marks (tk_state tk)) b)"
    and "complete (fst (tk_loop True tk m b)) \<Longrightarrow>
      deliver on_data on_notify (snd (tk_loop True tk m b)) h =
      deliver on_data on_notify (snd (tk_loop True tk (start_marks (tk_state tk)) b))
        (deliver on_data on_notify (flush_marks m) h)"
    by blast+
qed

lemma execute_split:
  assumes ready: "tk_ready tk" and ne: "a \<noteq> []" "b \<noteq> []"
    and whole: "http_parser_execute tk (a @ b) = Some (tk2, n, e)"
  shows "http_parser_execute tk a = Some (tk2, n, e) \<and> n \<le> length a \<or>
    (\<exists>tk1 e1 n2 e2. http_parser_execute tk a = Some (tk1, length a, e1) \<and>
       http_parser_execute tk1 b = Some (tk2, n2, e2) \<and> n = length a + n2 \<and>
       (n2 = length b \<longrightarrow>
          (\<forall>h. deliver on_data on_notify e h = deliver on_data on_notify e2 (deliver on_data on_notify e1 h))))"
proof (cases "tk_errno tk = HPE_OK")
  case False
  then show ?thesis using whole by (auto simp: http_parser_execute_def)
next
  case True
  let ?m = "start_marks (tk_state tk)"
  have inv: "tk_inv tk" using ready True by (simp add: tk_ready_def)
  then have resumed: "resumed True tk ?m a b"
    using ne by (intro tk_loop_resumed) (auto simp: tk_inv_def start_marks_ok)
  have ok: "end_ok a (fst (tk_loop True tk ?m a))"
    using inv start_marks_ok by (intro tk_loop_ok) (auto simp: tk_inv_def)
  obtain r e1 where r: "tk_loop True tk ?m a = (r, e1)" by fastforce
  show ?thesis
  proof (cases r)
    case (Stopped tk1 left)
    then have "length left \<le> length a" using ok r by (simp add: end_ok_def)
    then show ?thesis
      using whole resumed r Stopped True ne by (auto simp: resumed_def http_parser_execute_def)
  next
    case (Consumed tk1)
    then obtain m1 e0 where m1: "e1 = e0 @ flush_marks m1" "marks_ok (tk_state tk1) m1"
      "tk_loop True tk ?m (a @ b) = prepend e0 (tk_loop True tk1 m1 b)"
      using resumed r by (auto simp: resumed_def)
    have errno: "tk_errno tk1 = HPE_OK" using tk_loop_errno [of True tk ?m a tk1] r Consumed True by simp
    let ?r0 = "tk_loop True tk1 (start_marks (tk_state tk1)) b"
    have inv1: "tk_inv tk1" using ok r Consumed by (simp add: end_ok_def)
    have ok1: "end_ok b (fst ?r0)"
      using inv1 start_marks_ok by (intro tk_loop_ok) (auto simp: tk_inv_def)
    obtain r2 e2 where r2: "?r0 = (r2, e2)" by fastforce
    obtain e2' where r2': "tk_loop True tk1 m1 b = (r2, e2')"
      using ahead_start(1) [OF m1(2), of b] r2 by (metis fst_conv prod.collapse)
    have del: "deliver on_data on_notify e2' h = deliver on_data on_notify e2 (deliver on_data on_notify (flush_marks m1) h)"
      if "complete r2" for h
      using ahead_start(2) [OF m1(2), of b h] r2 r2' that by simp
    have a: "http_parser_execute tk a = Some (tk1, length a, e1)"
      using r Consumed True ne by (simp add: http_parser_execute_def)
    have w: "tk_loop True tk ?m (a @ b) = (r2, e0 @ e2')" using m1(3) r2' by simp
    show ?thesis
    proof (cases r2)
      case (Consumed tk3)
      then show ?thesis
        using a w r2 errno whole True ne del m1(1) by (auto simp: http_parser_execute_def complete_def)
    next
      case (Stopped tk3 left)
      then have "length left \<le> length b" using ok1 r2 by (simp add: end_ok_def)
      moreover from this have "left = []" if "length b - length left = length b" using that ne(2) by (cases left; cases b) auto
      ultimately show ?thesis
        using a w r2 errno whole True ne del m1(1) Stopped
        by (auto simp: http_parser_execute_def complete_def)
    qed (use ok1 r2 in \<open>simp add: end_ok_def\<close>)
  qed (use ok r in \<open>simp add: end_ok_def\<close>)
qed

end

end
