(* ===== verification/Crow_Feed.thy ===== *)
theory Crow_Feed
  imports Crow_Tokenizer_Split Crow_Conn
begin

text \<open>
  \<^verbatim>\<open>HTTPParser::feed\<close> of the HTTP server (\<^verbatim>\<open>src/crow_all.h\<close>): the tokenizer together with the callbacks that
  assemble a request, from the buffers that a connection reads to the calls of \<^verbatim>\<open>handle_header\<close> and
  \<^verbatim>\<open>handle\<close> of the connection. The parser of one connection is the object that the tokenizer works on and
  the fields of the derived class.
\<close>

section \<open>The callbacks\<close>

type_synonym http_parser = "tokenizer \<times> parser"

text \<open>The calls of the connection, \<^verbatim>\<open>handle_header\<close> and \<^verbatim>\<open>handle\<close>, with what they read.\<close>

datatype notice = Calls_handle_header message | Calls_handle message

definition message_of :: "tokenizer \<Rightarrow> parser \<Rightarrow> message" where
  "message_of tk self =
     \<lparr>m_major = http_major tk, m_minor = http_minor tk, m_method = tk_method tk, m_upgrade = tk_upgrade tk,
      m_parser = self\<rparr>"

text \<open>\<open>None\<close> is the undefined behaviour of \<^verbatim>\<open>query_string\<close>.\<close>

type_synonym assembly = "(parser \<times> notice list) option"

fun data_callback :: "mark_kind \<Rightarrow> string \<Rightarrow> parser \<Rightarrow> parser" where
  "data_callback M_url s = on_url s"
| "data_callback M_header_field s = on_header_field s"
| "data_callback M_header_value s = on_header_value s"
| "data_callback M_body s = on_body s"

definition on_data :: "mark_kind \<Rightarrow> string \<Rightarrow> assembly \<Rightarrow> assembly" where
  "on_data k s = map_option (\<lambda>(self, ns). (data_callback k s self, ns))"

fun notify_callback :: "tk_event \<Rightarrow> parser \<Rightarrow> (parser \<times> notice list) option" where
  "notify_callback Ev_message_begin self = Some (on_message_begin self, [])"
| "notify_callback (Ev_headers_complete tk) self =
     (let self = on_headers_complete self in Some (self, [Calls_handle_header (message_of tk self)]))"
| "notify_callback (Ev_message_complete tk) self =
     (case on_message_complete self of
        None \<Rightarrow> None
      | Some self \<Rightarrow> Some (self, [Calls_handle (message_of tk self)]))"
| "notify_callback (Ev_data k s) self = Some (data_callback k s self, [])"

definition on_notify :: "tk_event \<Rightarrow> assembly \<Rightarrow> assembly" where
  "on_notify e a =
     (case a of
        None \<Rightarrow> None
      | Some (self, ns) \<Rightarrow> map_option (\<lambda>(self, ns'). (self, ns @ ns')) (notify_callback e self))"

section \<open>feed and done\<close>

text \<open>
  \<^verbatim>\<open>feed\<close>: the parser afterwards, the calls made and the result; \<open>None\<close> for undefined behaviour.
\<close>

definition feed :: "http_parser \<Rightarrow> string \<Rightarrow> (http_parser \<times> notice list \<times> bool) option" where
  "feed hp buffer =
     (case http_parser_execute (fst hp) buffer of
        None \<Rightarrow> None
      | Some (tk, nparsed, evs) \<Rightarrow>
          map_option (\<lambda>(self, ns). ((tk, self), ns, nparsed = length buffer))
            (deliver on_data on_notify evs (Some (snd hp, []))))"

text \<open>\<^verbatim>\<open>done\<close>, called at the end of the stream.\<close>

definition parser_done :: "http_parser \<Rightarrow> (http_parser \<times> notice list \<times> bool) option" where
  "parser_done hp = feed hp []"

text \<open>The buffers that a connection reads, up to the first that \<^verbatim>\<open>feed\<close> rejects.\<close>

fun feed_all :: "http_parser \<Rightarrow> string list \<Rightarrow> (http_parser \<times> notice list \<times> bool) option" where
  "feed_all hp [] = Some (hp, [], True)"
| "feed_all hp (buffer # buffers) =
     (case feed hp buffer of
        None \<Rightarrow> None
      | Some (hp', ns, ret) \<Rightarrow>
          if \<not> ret then Some (hp', ns, False)
          else map_option (\<lambda>(hp'', ns', ret'). (hp'', ns @ ns', ret')) (feed_all hp' buffers))"

definition parser_new :: http_parser where
  "parser_new = (http_parser_init, parser_clear)"

section \<open>Buffers do not matter\<close>

lemma data_callback_append: "data_callback k (s @ t) self = data_callback k t (data_callback k s self)"
  by (cases k) (simp_all add: on_url_def on_header_field_def on_header_value_def on_body_def Let_def)

interpretation crow: piecewise on_data on_notify
  by unfold_locales (simp add: on_data_def data_callback_append option.map_comp o_def case_prod_unfold)

lemma deliver_None [simp]: "deliver on_data on_notify evs None = None"
proof (induction evs)
  case (Cons e evs)
  then show ?case by (cases e) (simp_all add: deliver_def on_data_def on_notify_def)
qed simp

lemma deliver_frame:
  "deliver on_data on_notify evs (Some (self, ns)) =
     map_option (\<lambda>(self', ns'). (self', ns @ ns')) (deliver on_data on_notify evs (Some (self, [])))"
proof (induction evs arbitrary: self ns)
  case (Cons e evs)
  let ?f = "\<lambda>e. case e of Ev_data k s \<Rightarrow> on_data k s | _ \<Rightarrow> on_notify e"
  show ?case
  proof (cases "?f e (Some (self, []))")
    case None
    then have "?f e (Some (self, ns)) = None" by (cases e) (auto simp: on_data_def on_notify_def split: option.splits)
    then show ?thesis using None deliver_None [of evs] by (simp add: deliver_def)
  next
    case (Some x)
    then obtain self1 ns1 where x: "?f e (Some (self, [])) = Some (self1, ns1)" by (cases x) auto
    then have "?f e (Some (self, ns)) = Some (self1, ns @ ns1)"
      by (cases e) (auto simp: on_data_def on_notify_def split: option.splits)
    then show ?thesis
      using x Cons.IH [of self1 ns1] Cons.IH [of self1 "ns @ ns1"]
      by (simp add: deliver_def option.map_comp o_def case_prod_unfold)
  qed
qed simp

lemma feed_split:
  assumes ready: "tk_ready (fst hp)" and ne: "a \<noteq> []" "b \<noteq> []"
    and whole: "feed hp (a @ b) = Some (hp', ns, True)"
  shows "\<exists>hp1 ns1 ns2. feed hp a = Some (hp1, ns1, True) \<and> feed hp1 b = Some (hp', ns2, True) \<and>
           ns = ns1 @ ns2 \<and> tk_ready (fst hp1)"
proof -
  obtain n evs where ex: "http_parser_execute (fst hp) (a @ b) = Some (fst hp', n, evs)" "n = length (a @ b)"
    and del: "deliver on_data on_notify evs (Some (snd hp, [])) = Some (snd hp', ns)"
    using whole by (auto simp: feed_def split: option.splits)
  have "\<not> n \<le> length a" using ex(2) ne by (cases b) auto
  then obtain tk1 e1 n2 e2 where 1: "http_parser_execute (fst hp) a = Some (tk1, length a, e1)"
    and 2: "http_parser_execute tk1 b = Some (fst hp', n2, e2)" "n = length a + n2"
    and split: "\<forall>h. deliver on_data on_notify evs h = deliver on_data on_notify e2 (deliver on_data on_notify e1 h)"
    using crow.execute_split [OF ready ne ex(1)] ex(2) by auto
  obtain self1 ns1 where s1: "deliver on_data on_notify e1 (Some (snd hp, [])) = Some (self1, ns1)"
    using del split by (cases "deliver on_data on_notify e1 (Some (snd hp, []))") auto
  obtain ns2 where s2: "deliver on_data on_notify e2 (Some (self1, [])) = Some (snd hp', ns2)" "ns = ns1 @ ns2"
    using del split s1 deliver_frame [of e2 self1 ns1] by auto
  have "tk_ready tk1" using execute_ok [OF ready, of a] 1 by simp
  then show ?thesis
    using 1 2 ex(2) s1 s2 by (intro exI [of _ "(tk1, self1)"] exI [of _ ns1] exI [of _ ns2]) (simp add: feed_def)
qed

text \<open>
  It does not matter how the bytes of a connection are distributed over the buffers it reads: when a stretch
  of bytes is accepted in one buffer, then every division of it into buffers is accepted, leaves the
  parser in the same state and makes the same calls with the same requests, in the same order.
\<close>

theorem feed_buffering:
  assumes "tk_ready (fst hp)" and "feed hp (concat buffers) = Some (hp', ns, True)"
    and "\<forall>b \<in> set buffers. b \<noteq> []" and "buffers \<noteq> []"
  shows "feed_all hp buffers = Some (hp', ns, True)"
  using assms
proof (induction buffers arbitrary: hp ns)
  case (Cons b bs)
  show ?case
  proof (cases "bs = []")
    case True
    then show ?thesis using Cons.prems(2) by simp
  next
    case False
    then have "b \<noteq> []" "concat bs \<noteq> []" using Cons.prems(3) by (auto simp: neq_Nil_conv)
    then obtain hp1 ns1 ns2 where "feed hp b = Some (hp1, ns1, True)" "feed hp1 (concat bs) = Some (hp', ns2, True)"
      "ns = ns1 @ ns2" "tk_ready (fst hp1)"
      using feed_split [OF Cons.prems(1), of b "concat bs"] Cons.prems(2) by auto
    then show ?thesis using Cons.IH [of hp1 ns2] Cons.prems(3) False by simp
  qed
qed simp

end
