(* ===== verification/Spec2Isabelle.thy ===== *)
theory Spec2Isabelle
  imports Sha1_Spec Hmac Signature Image_Service_Total Thread_Pool Distribute_Lock Mysql_Ops Oss_Client Init_Server Dete_Reg
    Http_Service Crow_Timer Crow_Life Crow_Feed
begin

text \<open>
  A verification library of the nudity detection service. All paths are relative to \<^verbatim>\<open>src/src/\<close>.

  \<^bold>\<open>The program.\<close> The service takes a JSON request with an image, either inline in Base64 or as an address,
  checks it, downloads and decodes the image, asks a classifier for a verdict and answers with a JSON
  object; outside the local environment it also sends a record of the request to Kafka. Around this path
  there are the configuration (environment variables and the Apollo server), start-up and shut-down, the
  signing of outgoing requests, pools of Redis and MySQL connections, a distributed lock, an object storage
  client, a thread pool and a client of a recognition service.

  \<^bold>\<open>Theories and sources.\<close>
  \<^item> \<open>Prelude\<close>: bytes, 32-bit wrap-around, decimal numerals, single-precision rounding, \<^verbatim>\<open>std::map\<close>, and the
    collections of simplification rules the other theories use.
  \<^item> \<open>Errors\<close>: the catalogue of \<^verbatim>\<open>common/base_error.h\<close>, \<^verbatim>\<open>common/base_error.cpp\<close> and \<^verbatim>\<open>service_error.h\<close>.
  \<^item> \<open>Base64\<close>, \<open>Sha1\<close>, \<open>Sha1_Spec\<close>, \<open>Hmac\<close>, \<open>Signature\<close>: \<^verbatim>\<open>Paas/base64.cpp\<close>, \<^verbatim>\<open>Paas/SHA1.cpp\<close>,
    \<^verbatim>\<open>Paas/HMAC_SHA1.cpp\<close> and \<^verbatim>\<open>Paas/paas_common.cpp\<close>. \<open>Sha1_Spec\<close> states the standard and shows that the class
    implements it; \<open>Hmac\<close> and \<open>Signature\<close> keep the sizes of the buffers, so that an overrun is a result.
  \<^item> \<open>Base_Codec\<close>: \<^verbatim>\<open>base/base64.cc\<close> with the tables of \<^verbatim>\<open>third_party/modp_b64\<close>.
  \<^item> \<open>Conf\<close>, \<open>Apollo_Conf\<close>, \<open>Apollo\<close>: \<^verbatim>\<open>common/conf_param.h\<close>, \<^verbatim>\<open>common/conf_param.cpp\<close>, \<^verbatim>\<open>apollo_conf.h\<close>,
    \<^verbatim>\<open>common/apollo_client.cpp\<close> and the callback of \<^verbatim>\<open>init_server.cpp\<close>. The store is a locale, \<open>config_store\<close>, that
    the callback's lemmas are proved in.
  \<^item> \<open>Json_Value\<close>: the values of the two JSON libraries, without their readers and writers.
  \<^item> \<open>Data_Flow\<close>: \<^verbatim>\<open>common/data_flow.cpp\<close> and \<^verbatim>\<open>common/kafka_client.cpp\<close>, with the static members as one record.
  \<^item> \<open>Download\<close>, \<open>Image_Op\<close>: \<^verbatim>\<open>common/file_download.cpp\<close> and \<^verbatim>\<open>image_operation.cpp\<close>.
  \<^item> \<open>Image_Service\<close>, \<open>Image_Service_Props\<close>, \<open>Image_Service_Total\<close>: the request path of \<^verbatim>\<open>tal_interface.cpp\<close>,
    \<^verbatim>\<open>image_interface.cpp\<close>, \<^verbatim>\<open>microservice_demo.cpp\<close> and \<^verbatim>\<open>ai_model.cpp\<close>; its definitions, what they compute, and
    that every request is answered.
  \<^item> \<open>Step_System\<close>: the locales of components that run as sequences of steps (\<open>invariant_system\<close>,
    \<open>stable_system\<close>, \<open>bounded_pool\<close>); they are interpreted on the three pools.
  \<^item> \<open>Thread_Pool\<close>: \<^verbatim>\<open>Paas/ThreadPool.cpp\<close>; each section under a mutex is one step, and a waiting thread is a
    program counter.
  \<^item> \<open>Redis_Pool\<close>, \<open>Red_Lock\<close>, \<open>Distribute_Lock\<close>: \<^verbatim>\<open>common/redis_conn_pool.cpp\<close>, \<^verbatim>\<open>common/redlock.cpp\<close> and
    \<^verbatim>\<open>common/distribute_lock.cpp\<close>.
  \<^item> \<open>Mysql_Pool\<close>, \<open>Mysql_Ops\<close>: \<^verbatim>\<open>common/mysql_conn_pool.cpp\<close> and \<^verbatim>\<open>common/mysql_operation.cpp\<close>.
  \<^item> \<open>Oss_Client\<close>: \<^verbatim>\<open>common/ali_oss_client.cpp\<close>. \<open>Dete_Reg\<close>: \<^verbatim>\<open>Paas/dete_reg.cpp\<close> and \<^verbatim>\<open>Paas/curl_tool.h\<close>.
  \<^item> \<open>Init_Server\<close>: \<^verbatim>\<open>init_server.cpp\<close> and \<^verbatim>\<open>service_main.cpp\<close>.

  \<^bold>\<open>How the code is translated.\<close> A class is a record, a method a function that returns the updated record. What
  comes from outside (libcurl, the JSON readers and writers, OpenCV, the classifier, the Kafka producer,
  hiredis and the Redis server, the MySQL connector, the object storage SDK, clocks, random numbers, the
  environment) is a function or a record of functions that the definitions take as an argument; the
  theorems that rely on its documented behaviour name it as a hypothesis, and their witnesses give an
  instance. Exceptions and undefined behaviour are values of sum or option types. Machine integers wrap
  where the code lets them. Waiting is seen from its end: the models of the connection pools take the state
  after the wait, and \<open>WaitforConnection\<close> models the wait itself.

  \<^bold>\<open>Bounds and fuel.\<close> Loops with a counter of the code recurse on it; the retry loop of \<open>reg\<close> has a measure. The
  only fuel is that of the Kafka client's destructor, where the theorem is that no amount is enough. The
  lock's arithmetic is proved for a time to live below \<open>2 ^ 31\<close> and calls shorter than \<open>2 ^ 30\<close> milliseconds.

  \<^bold>\<open>What is shown.\<close>
  \<^item> Request path: the answer and its code for every request, which requests reach the network, what goes to
    Kafka, that no fault leaves the path under stated conditions, and one request on which it does.
  \<^item> Codecs and signing: round trips, equivalence of the encoders, refinement of SHA-1 and HMAC to their
    standards, and the exact condition under which a buffer is overrun.
  \<^item> Pools: the accounts of the connections and tasks in every reachable state, and what drains or blocks
    them for good.
  \<^item> Lock: exclusion, how far the reported validity can be off, what a failed attempt leaves behind, and that
    the lock's connections go back to the pool.
  \<^item> Database: all-or-nothing of a transaction as seen from its code, and the modes of the sessions.
  \<^item> Configuration: which values a poll changes, which components they bring up, and what a failed poll
    means for the rest of the run.

  \<^bold>\<open>Not modelled.\<close> The HTTP server (\<^verbatim>\<open>crow_all.h\<close>), the base library apart from the parts named above, crash
  reporting (\<^verbatim>\<open>breakpad\<close>) and everything under \<^verbatim>\<open>3rdParty\<close> are vendored code. The classifier under \<^verbatim>\<open>ai_model\<close> is a
  binary. Logging, the file calls of \<^verbatim>\<open>ReadConfigFile\<close> and \<^verbatim>\<open>InitDumpFile\<close>, the socket calls of \<^verbatim>\<open>InitIP\<close>, and the file
  hashing of \<^verbatim>\<open>Paas/SHA1.cpp\<close> are input and output. Time-outs of the connection pools are inputs, and the
  memory of the C strings in \<^verbatim>\<open>common/redlock.cpp\<close> is not tracked.
\<close>

end
